(* ===== verification/Go_Strings.thy ===== *)
theory Go_Strings
  imports Prelude
begin

text \<open>
  The parts of Go's standard library for text that the program uses: \<^verbatim>\<open>strings\<close>
  (HasPrefix, HasSuffix, TrimPrefix, TrimSpace, Trim, Split, Join, ToLower),
  \<^verbatim>\<open>net.ParseMAC\<close> and \<^verbatim>\<open>net.HardwareAddr.String\<close>, and \<^verbatim>\<open>base64.RawStdEncoding\<close>.
  The lemmas are the round trips the other theories rest on, stated as
  interpretations of \<open>codec\<close>.
\<close>

section \<open>Package strings\<close>

definition HasPrefix :: "string \<Rightarrow> string \<Rightarrow> bool" where
  "HasPrefix s p \<longleftrightarrow> take (length p) s = p"

definition HasSuffix :: "string \<Rightarrow> string \<Rightarrow> bool" where
  "HasSuffix s p \<longleftrightarrow> drop (length s - length p) s = p"

definition TrimPrefix :: "string \<Rightarrow> string \<Rightarrow> string" where
  "TrimPrefix s p = (if HasPrefix s p then drop (length p) s else s)"

text \<open>The UTF-8 encodings of the code points that \<^verbatim>\<open>unicode.IsSpace\<close> accepts.\<close>

definition space_encodings :: "string list" where
  "space_encodings =
     [[CHR 0x09], [CHR 0x0A], [CHR 0x0B], [CHR 0x0C], [CHR 0x0D], [CHR 0x20],
      [CHR 0xC2, CHR 0x85], [CHR 0xC2, CHR 0xA0], [CHR 0xE1, CHR 0x9A, CHR 0x80],
      [CHR 0xE2, CHR 0x80, CHR 0x80], [CHR 0xE2, CHR 0x80, CHR 0x81],
      [CHR 0xE2, CHR 0x80, CHR 0x82], [CHR 0xE2, CHR 0x80, CHR 0x83],
      [CHR 0xE2, CHR 0x80, CHR 0x84], [CHR 0xE2, CHR 0x80, CHR 0x85],
      [CHR 0xE2, CHR 0x80, CHR 0x86], [CHR 0xE2, CHR 0x80, CHR 0x87],
      [CHR 0xE2, CHR 0x80, CHR 0x88], [CHR 0xE2, CHR 0x80, CHR 0x89],
      [CHR 0xE2, CHR 0x80, CHR 0x8A], [CHR 0xE2, CHR 0x80, CHR 0xA8],
      [CHR 0xE2, CHR 0x80, CHR 0xA9], [CHR 0xE2, CHR 0x80, CHR 0xAF],
      [CHR 0xE2, CHR 0x81, CHR 0x9F], [CHR 0xE3, CHR 0x80, CHR 0x80]]"

definition leading_space :: "string \<Rightarrow> nat" where
  "leading_space s = (case find (HasPrefix s) space_encodings of None \<Rightarrow> 0 | Some w \<Rightarrow> length w)"

definition trailing_space :: "string \<Rightarrow> nat" where
  "trailing_space s = (case find (HasSuffix s) space_encodings of None \<Rightarrow> 0 | Some w \<Rightarrow> length w)"

lemma leading_space_le: "leading_space s \<le> length s"
  by (auto simp: leading_space_def HasPrefix_def find_Some_iff split: option.splits)
    (metis length_take min.cobounded1)

lemma trailing_space_le: "trailing_space s \<le> length s"
  by (auto simp: trailing_space_def HasSuffix_def find_Some_iff split: option.splits)
    (metis diff_le_self length_drop)

function trim_left :: "string \<Rightarrow> string" where
  "trim_left s = (if leading_space s = 0 then s else trim_left (drop (leading_space s) s))"
  by pat_completeness auto
termination
  using leading_space_le by (relation "measure length") (auto, metis diff_less le_zero_eq length_0_conv neq0_conv)

function trim_right :: "string \<Rightarrow> string" where
  "trim_right s =
     (if trailing_space s = 0 then s else trim_right (take (length s - trailing_space s) s))"
  by pat_completeness auto
termination
  using trailing_space_le by (relation "measure length") (auto, metis diff_less le_zero_eq length_0_conv neq0_conv)

declare trim_left.simps [simp del] trim_right.simps [simp del]

definition TrimSpace :: "string \<Rightarrow> string" where
  "TrimSpace s = trim_right (trim_left s)"

text \<open>\<^verbatim>\<open>strings.Trim(s, ".")\<close>: the cutset of the only use is one character.\<close>

definition trim_char :: "char \<Rightarrow> string \<Rightarrow> string" where
  "trim_char c s = rev (dropWhile (\<lambda>x. x = c) (rev (dropWhile (\<lambda>x. x = c) s)))"

text \<open>\<^verbatim>\<open>strings.Split\<close> with a separator of one character.\<close>

fun Split :: "char \<Rightarrow> string \<Rightarrow> string list" where
  "Split c [] = [[]]"
| "Split c (x # xs) =
     (if x = c then [] # Split c xs
      else (case Split c xs of [] \<Rightarrow> [[x]] | y # ys \<Rightarrow> (x # y) # ys))"

fun Join :: "string \<Rightarrow> string list \<Rightarrow> string" where
  "Join sep [] = []"
| "Join sep [x] = x"
| "Join sep (x # y # zs) = x @ sep @ Join sep (y # zs)"

definition lower_char :: "char \<Rightarrow> char" where
  "lower_char c = (let n = of_char c in if 65 \<le> n \<and> n \<le> (90 :: nat) then char_of (n + 32) else c)"

text \<open>\<^verbatim>\<open>strings.ToLower\<close> on ASCII text, the only text its result is used for.\<close>

definition ToLower :: "string \<Rightarrow> string" where
  "ToLower s = map lower_char s"

lemma Split_ne [simp]: "Split c s \<noteq> []"
  by (cases s) (auto split: list.splits)

lemma Split_no_sep: "c \<notin> set s \<Longrightarrow> Split c s = [s]"
  by (induction s) auto

lemma Split_append_sep: "c \<notin> set s \<Longrightarrow> Split c (s @ c # t) = s # Split c t"
  by (induction s) auto

lemma Split_Join:
  "xs \<noteq> [] \<Longrightarrow> \<forall>x \<in> set xs. c \<notin> set x \<Longrightarrow> Split c (Join [c] xs) = xs"
  by (induction "[c]" xs rule: Join.induct) (auto simp: Split_no_sep Split_append_sep)

lemma set_Join: "set (Join sep xs) \<subseteq> (\<Union>x \<in> set xs. set x) \<union> set sep"
  by (induction sep xs rule: Join.induct) auto

lemma Join_Split: "Join [c] (Split c s) = s"
proof (induction s)
  case Nil
  then show ?case by simp
next
  case (Cons x xs)
  obtain y ys where "Split c xs = y # ys"
    by (cases "Split c xs") simp_all
  with Cons show ?case by (cases ys) auto
qed

lemma Split_parts: "p \<in> set (Split c s) \<Longrightarrow> c \<notin> set p \<and> set p \<subseteq> set s"
proof (induction s arbitrary: p)
  case Nil
  then show ?case by simp
next
  case (Cons x xs)
  obtain y ys where yys: "Split c xs = y # ys"
    by (cases "Split c xs") simp_all
  have IH: "c \<notin> set q \<and> set q \<subseteq> set xs" if "q \<in> set (y # ys)" for q
    using that Cons.IH yys by simp
  show ?case
  proof (cases "x = c \<or> p \<noteq> x # y")
    case True
    with Cons.prems yys IH [of p] show ?thesis by (auto split: if_splits)
  next
    case False
    with Cons.prems yys IH [of y] show ?thesis by auto
  qed
qed

text \<open>Text without the bytes of a space encoding is not changed by \<open>TrimSpace\<close>.\<close>

definition space_bytes :: "char set" where
  "space_bytes = set (concat space_encodings)"

lemma space_encodings_ne: "w \<in> set space_encodings \<Longrightarrow> w \<noteq> []"
  by (auto simp: space_encodings_def)

lemma space_free_prefix:
  assumes "set s \<inter> space_bytes = {}" and "w \<in> set space_encodings"
  shows "\<not> HasPrefix s w" and "\<not> HasSuffix s w"
proof -
  obtain x xs where w: "w = x # xs"
    using space_encodings_ne [OF assms(2)] by (cases w) auto
  then have x: "x \<in> space_bytes"
    using assms(2) by (auto simp: space_bytes_def intro!: bexI [of _ w])
  show "\<not> HasPrefix s w"
  proof
    assume "HasPrefix s w"
    then have "set w \<subseteq> set s"
      unfolding HasPrefix_def by (metis set_take_subset)
    with w x assms(1) show False by auto
  qed
  show "\<not> HasSuffix s w"
  proof
    assume "HasSuffix s w"
    then have "set w \<subseteq> set s"
      unfolding HasSuffix_def by (metis set_drop_subset)
    with w x assms(1) show False by auto
  qed
qed

lemma TrimSpace_id:
  assumes "set s \<inter> space_bytes = {}"
  shows "TrimSpace s = s"
proof -
  from space_free_prefix(1) [OF assms] have "find (HasPrefix s) space_encodings = None"
    by (simp add: find_None_iff)
  moreover from space_free_prefix(2) [OF assms] have "find (HasSuffix s) space_encodings = None"
    by (simp add: find_None_iff)
  ultimately have "leading_space s = 0" "trailing_space s = 0"
    by (simp_all add: leading_space_def trailing_space_def)
  then show ?thesis
    by (simp add: TrimSpace_def trim_left.simps [of s] trim_right.simps [of s])
qed

lemma space_bytes_code:
  "c \<in> space_bytes \<Longrightarrow> (of_char c :: nat) \<le> 32 \<or> 128 \<le> (of_char c :: nat)"
  by (auto simp: space_bytes_def space_encodings_def)

lemma TrimSpace_ascii_id:
  "\<forall>c \<in> set s. 32 < (of_char c :: nat) \<and> (of_char c :: nat) < 128 \<Longrightarrow> TrimSpace s = s"
  using space_bytes_code by (intro TrimSpace_id) fastforce

lemma trim_space_free:
  assumes "set s \<inter> space_bytes = {}"
  shows "leading_space s = 0" and "trailing_space s = 0"
  using space_free_prefix [OF assms] by (simp_all add: leading_space_def trailing_space_def find_None_iff split: option.splits)
    (auto simp: find_Some_iff)

text \<open>A line of printable characters, with its newline.\<close>

lemma TrimSpace_line:
  assumes printable: "\<forall>c \<in> set s. 32 < (of_char c :: nat) \<and> (of_char c :: nat) < 128" and "s \<noteq> []"
  shows "TrimSpace (s @ [CHR 0x0A]) = s"
proof -
  let ?t = "s @ [CHR 0x0A]"
  have free: "set s \<inter> space_bytes = {}" using printable space_bytes_code by fastforce
  have "\<not> HasPrefix ?t w" if w: "w \<in> set space_encodings" for w
  proof
    assume "HasPrefix ?t w"
    then have "w = take (length w) ?t" by (simp add: HasPrefix_def)
    then have "hd w = hd s" using space_encodings_ne [OF w] assms(2) by (cases s; cases w) auto
    moreover have "hd w \<in> space_bytes" using space_encodings_ne [OF w] w by (auto simp: space_bytes_def intro!: bexI [of _ w])
    ultimately show False using free hd_in_set [OF assms(2)] by auto
  qed
  then have "leading_space ?t = 0" by (auto simp: leading_space_def find_Some_iff split: option.splits)
  moreover have "trailing_space ?t = 1"
  proof -
    have nl: "HasSuffix ?t [CHR 0x0A]" "[CHR 0x0A] \<in> set space_encodings" by (simp_all add: HasSuffix_def space_encodings_def)
    have "w = [CHR 0x0A]" if "w \<in> set space_encodings" "HasSuffix ?t w" for w
    proof -
      have "last w = CHR 0x0A" using that space_encodings_ne [OF that(1)] unfolding HasSuffix_def
        by (metis last_drop last_snoc length_0_conv length_drop less_le_not_le diff_is_0_eq not_le)
      then show ?thesis using that(1) by (auto simp: space_encodings_def)
    qed
    moreover obtain w where w: "find (HasSuffix ?t) space_encodings = Some w"
      using nl by (cases "find (HasSuffix ?t) space_encodings") (auto simp: find_None_iff)
    moreover have "w \<in> set space_encodings" "HasSuffix ?t w" using w by (auto simp: find_Some_iff)
    ultimately have "w = [CHR 0x0A]" by blast
    then show ?thesis using w by (simp add: trailing_space_def)
  qed
  moreover have "trim_right s = s" using trim_space_free(2) [OF free] by (simp add: trim_right.simps [of s])
  ultimately show ?thesis by (simp add: TrimSpace_def trim_left.simps [of ?t] trim_right.simps [of ?t])
qed

section \<open>Hexadecimal and MAC addresses\<close>

definition hex_digit :: "nat \<Rightarrow> char" where
  "hex_digit n = (if n < 10 then char_of (48 + n) else char_of (87 + n))"

definition hex_val :: "char \<Rightarrow> nat option" where
  "hex_val c = (let n = of_char c in
     if 48 \<le> n \<and> n \<le> (57 :: nat) then Some (n - 48)
     else if 97 \<le> n \<and> n \<le> 102 then Some (n - 87)
     else if 65 \<le> n \<and> n \<le> 70 then Some (n - 55)
     else None)"

definition hex_byte :: "byte \<Rightarrow> string" where
  "hex_byte b = [hex_digit (unat b div 16), hex_digit (unat b mod 16)]"

text \<open>\<^verbatim>\<open>net.HardwareAddr.String\<close>\<close>

definition mac_String :: "bytes \<Rightarrow> string" where
  "mac_String mac = Join '':'' (map hex_byte mac)"

text \<open>
  \<^verbatim>\<open>net.xtoi2\<close>: the next two hexadecimal digits; a third character must be \<open>e\<close>.
\<close>

definition xtoi2 :: "string \<Rightarrow> char \<Rightarrow> byte option" where
  "xtoi2 s e =
     (if length s > 2 \<and> s ! 2 \<noteq> e then None
      else (case s of
          a # b # _ \<Rightarrow>
            (case (hex_val a, hex_val b) of
               (Some x, Some y) \<Rightarrow> Some (byte_of_nat (16 * x + y))
             | _ \<Rightarrow> None)
        | _ \<Rightarrow> None))"

fun mac_colons :: "nat \<Rightarrow> char \<Rightarrow> string \<Rightarrow> bytes option" where
  "mac_colons 0 e s = Some []"
| "mac_colons (Suc n) e s =
     (case xtoi2 s e of
        None \<Rightarrow> None
      | Some b \<Rightarrow> map_option (Cons b) (mac_colons n e (drop 3 s)))"

fun mac_dots :: "nat \<Rightarrow> char \<Rightarrow> string \<Rightarrow> bytes option" where
  "mac_dots 0 e s = Some []"
| "mac_dots (Suc n) e s =
     (case (xtoi2 (take 2 s) (CHR 0x00), xtoi2 (drop 2 s) e) of
        (Some a, Some b) \<Rightarrow> map_option (\<lambda>r. a # b # r) (mac_dots n e (drop 5 s))
      | _ \<Rightarrow> None)"

text \<open>\<^verbatim>\<open>net.ParseMAC\<close>: colon, hyphen and dotted forms of 6, 8 or 20 bytes.\<close>

definition net_ParseMAC :: "string \<Rightarrow> bytes option" where
  "net_ParseMAC s =
     (if length s < 14 then None
      else if s ! 2 = CHR '':'' \<or> s ! 2 = CHR ''-'' then
        (let n = (length s + 1) div 3 in
         if (length s + 1) mod 3 \<noteq> 0 \<or> n \<notin> {6, 8, 20} then None
         else mac_colons n (s ! 2) s)
      else if s ! 4 = CHR ''.'' then
        (let n = 2 * (length s + 1) div 5 in
         if (length s + 1) mod 5 \<noteq> 0 \<or> n \<notin> {6, 8, 20} then None
         else mac_dots (n div 2) (s ! 4) s)
      else None)"

lemma hex_val_digit [simp]: "n < 16 \<Longrightarrow> hex_val (hex_digit n) = Some n"
  by (auto simp: hex_val_def hex_digit_def Let_def)

lemma length_hex_byte [simp]: "length (hex_byte b) = 2"
  by (simp add: hex_byte_def)

lemma xtoi2_hex_byte [simp]:
  "xtoi2 (hex_byte b) e = Some b" "xtoi2 (hex_byte b @ e # r) e = Some b"
proof -
  have w: "16 * (unat b div 16) + unat b mod 16 = unat b" by simp
  have d: "unat b div 16 < 16" using unat_byte_less [of b] by linarith
  show "xtoi2 (hex_byte b) e = Some b" "xtoi2 (hex_byte b @ e # r) e = Some b"
    using w d by (simp_all add: xtoi2_def hex_byte_def)
qed

lemma drop3_hex_byte [simp]:
  "drop 3 (hex_byte b) = []" "drop 3 (hex_byte b @ c # r) = r"
  by (simp_all add: hex_byte_def)

lemma mac_colons_String: "mac_colons (length mac) CHR '':'' (mac_String mac) = Some mac"
  unfolding mac_String_def
proof (induction mac)
  case Nil
  then show ?case by simp
next
  case (Cons b bs)
  then show ?case by (cases bs) auto
qed

lemma length_mac_String: "length (mac_String mac) = 3 * length mac - 1"
  unfolding mac_String_def
proof (induction mac)
  case Nil
  then show ?case by simp
next
  case (Cons b bs)
  then show ?case by (cases bs) auto
qed

lemma net_ParseMAC_String:
  assumes "length mac = 6"
  shows "net_ParseMAC (mac_String mac) = Some mac"
proof -
  from assms obtain a b r where mac: "mac = a # b # r"
    by (metis One_nat_def Suc_length_conv numeral_eq_Suc pred_numeral_simps(2))
  have "mac_String mac ! 2 = CHR '':''"
    by (simp add: mac mac_String_def hex_byte_def)
  then show ?thesis
    using assms mac_colons_String [of mac]
    by (simp add: net_ParseMAC_def Let_def length_mac_String)
qed

lemma mac_colons_length: "mac_colons n e s = Some m \<Longrightarrow> length m = n"
  by (induction n arbitrary: s m) (auto split: option.splits)

lemma mac_dots_length: "mac_dots n e s = Some m \<Longrightarrow> length m = 2 * n"
  by (induction n arbitrary: s m) (auto split: option.splits)

section \<open>Package base64: RawStdEncoding\<close>

definition b64_char :: "nat \<Rightarrow> char" where
  "b64_char n =
     (if n < 26 then char_of (65 + n)
      else if n < 52 then char_of (71 + n)
      else if n < 62 then char_of (n - 4)
      else if n = 62 then CHR ''+'' else CHR 0x2F)"

definition b64_val :: "char \<Rightarrow> nat option" where
  "b64_val c = (let n = of_char c in
     if 65 \<le> n \<and> n \<le> (90 :: nat) then Some (n - 65)
     else if 97 \<le> n \<and> n \<le> 122 then Some (n - 71)
     else if 48 \<le> n \<and> n \<le> 57 then Some (n + 4)
     else if n = 43 then Some 62
     else if n = 47 then Some 63
     else None)"

fun b64_encode :: "bytes \<Rightarrow> string" where
  "b64_encode [] = []"
| "b64_encode [a] =
     [b64_char (unat a div 4), b64_char (unat a mod 4 * 16)]"
| "b64_encode [a, b] =
     [b64_char (unat a div 4), b64_char (unat a mod 4 * 16 + unat b div 16),
      b64_char (unat b mod 16 * 4)]"
| "b64_encode (a # b # c # r) =
     b64_char (unat a div 4) # b64_char (unat a mod 4 * 16 + unat b div 16)
     # b64_char (unat b mod 16 * 4 + unat c div 64) # b64_char (unat c mod 64)
     # b64_encode r"

fun b64_values :: "string \<Rightarrow> nat list option" where
  "b64_values [] = Some []"
| "b64_values (c # cs) =
     (case b64_val c of None \<Rightarrow> None | Some v \<Rightarrow> map_option (Cons v) (b64_values cs))"

fun b64_join :: "nat list \<Rightarrow> bytes option" where
  "b64_join [] = Some []"
| "b64_join [w] = None"
| "b64_join [w, x] = Some [byte_of_nat (w * 4 + x div 16)]"
| "b64_join [w, x, y] =
     Some [byte_of_nat (w * 4 + x div 16), byte_of_nat (x mod 16 * 16 + y div 4)]"
| "b64_join (w # x # y # z # r) =
     map_option (\<lambda>bs. byte_of_nat (w * 4 + x div 16) # byte_of_nat (x mod 16 * 16 + y div 4)
       # byte_of_nat (y mod 4 * 64 + z) # bs) (b64_join r)"

text \<open>
  The decoder skips line breaks, rejects any other character outside the alphabet
  and a group of one character, and (not being strict) ignores the unused low
  bits of the last character.
\<close>

definition b64_decode :: "string \<Rightarrow> bytes option" where
  "b64_decode s =
     Option.bind (b64_values (filter (\<lambda>c. c \<noteq> CHR 0x0A \<and> c \<noteq> CHR 0x0D) s)) b64_join"

lemma b64_val_char: "n < 64 \<Longrightarrow> b64_val (b64_char n) = Some n"
  by (auto simp: b64_val_def b64_char_def Let_def)

lemma b64_char_code: "n < 64 \<Longrightarrow> 32 < (of_char (b64_char n) :: nat) \<and> (of_char (b64_char n) :: nat) < 128"
  by (auto simp: b64_char_def)

lemma b64_sextets:
  "unat (a :: byte) div 4 < 64"
  "unat (a :: byte) mod 4 * 16 + unat (b :: byte) div 16 < 64"
  "unat (b :: byte) mod 16 * 4 + unat (c :: byte) div 64 < 64"
  "unat (a :: byte) mod 4 * 16 < 64" "unat (b :: byte) mod 16 * 4 < 64"
  using unat_byte_less [of a] unat_byte_less [of b] unat_byte_less [of c] by linarith+

lemma b64_encode_code: "x \<in> set (b64_encode bs) \<Longrightarrow> 32 < (of_char x :: nat) \<and> (of_char x :: nat) < 128"
  by (induction bs rule: b64_encode.induct) (auto simp: b64_char_code b64_sextets)

lemma b64_regroup:
  fixes b :: byte
  shows "unat b div 16 div 16 = 0" "unat b div 16 mod 16 = unat b div 16"
    "unat b div 64 div 4 = 0" "unat b div 64 mod 4 = unat b div 64"
proof -
  have "unat b div 16 < 16" "unat b div 64 < 4"
    using unat_byte_less [of b] by linarith+
  then show "unat b div 16 div 16 = 0" "unat b div 16 mod 16 = unat b div 16"
    "unat b div 64 div 4 = 0" "unat b div 64 mod 4 = unat b div 64"
    by simp_all
qed

lemma b64_join_encode: "Option.bind (b64_values (b64_encode bs)) b64_join = Some bs"
proof (induction bs rule: b64_encode.induct)
  case (4 a b c r)
  then obtain vs where "b64_values (b64_encode r) = Some vs" "b64_join vs = Some r"
    by (auto simp: bind_eq_Some_conv)
  then show ?case
    by (simp add: b64_val_char b64_sextets b64_regroup)
qed (simp_all add: b64_val_char b64_sextets b64_regroup)

lemma b64_decode_encode: "b64_decode (b64_encode bs) = Some bs"
proof -
  have "filter (\<lambda>c. c \<noteq> CHR 0x0A \<and> c \<noteq> CHR 0x0D) (b64_encode bs) = b64_encode bs"
    using b64_encode_code [of _ bs] by (fastforce simp: filter_id_conv)
  then show ?thesis by (simp add: b64_decode_def b64_join_encode)
qed

end
