(* ===== verification/Netip.thy ===== *)
theory Netip
  imports Go_Strings
begin

text \<open>
  Go's \<^verbatim>\<open>net/netip\<close> for IPv4: addresses, prefixes, their text forms, \<^verbatim>\<open>Masked\<close> and
  \<^verbatim>\<open>Contains\<close>.  The program accepts IPv4 only: every caller of \<^verbatim>\<open>ParseAddr\<close> and
  \<^verbatim>\<open>ParsePrefix\<close> treats a parse error and a non-IPv4 result alike, so the parsers
  here fail on IPv6 text.  \<open>InvalidAddr\<close> and \<open>InvalidPrefix\<close> are Go's zero values.

  The meaning of a prefix is the set of addresses it contains (\<open>prefix_set\<close>).
  The three copies of the overlap test in the source are interpreted in the
  locale \<open>overlap_test\<close>, whose law says that it decides whether the sets meet.
\<close>

unbundle bit_operations_syntax

section \<open>Addresses\<close>

type_synonym ipv4 = "32 word"

datatype Addr = InvalidAddr | IPv4 ipv4

datatype Prefix = InvalidPrefix | PrefixV4 ipv4 nat

definition octets :: "ipv4 \<Rightarrow> nat list" where
  "octets w = map unat [drop_bit 24 w, take_bit 8 (drop_bit 16 w), take_bit 8 (drop_bit 8 w), take_bit 8 w]"

definition of_octets :: "nat \<Rightarrow> nat \<Rightarrow> nat \<Rightarrow> nat \<Rightarrow> ipv4" where
  "of_octets a b c d =
     push_bit 24 (word_of_nat a) OR push_bit 16 (word_of_nat b) OR push_bit 8 (word_of_nat c) OR word_of_nat d"

definition parse_octet :: "string \<Rightarrow> nat option" where
  "parse_octet s =
     (if length s > 1 \<and> hd s = CHR ''0'' then None
      else (case read_nat s of None \<Rightarrow> None | Some n \<Rightarrow> if n \<le> 255 then Some n else None))"

definition ParseAddr :: "string \<Rightarrow> Addr res" where
  "ParseAddr s =
     (case map parse_octet (Split CHR ''.'' s) of
        [Some a, Some b, Some c, Some d] \<Rightarrow> Inr (IPv4 (of_octets a b c d))
      | _ \<Rightarrow> Inl (Errf ''ParseAddr(%q)'' [s]))"

fun Addr_String :: "Addr \<Rightarrow> string" where
  "Addr_String InvalidAddr = ''invalid IP''"
| "Addr_String (IPv4 a) = Join ''.'' (map show_nat (octets a))"

section \<open>Prefixes\<close>

definition ParsePrefix :: "string \<Rightarrow> Prefix res" where
  "ParsePrefix s =
     (if CHR 0x2F \<notin> set s then Inl (Errf ''netip.ParsePrefix(%q): no slash'' [s])
      else
        (let bitsStr = rev (takeWhile (\<lambda>c. c \<noteq> CHR 0x2F) (rev s));
             ipStr = take (length s - length bitsStr - 1) s
         in and_then (ParseAddr ipStr) (\<lambda>ip.
              if length bitsStr > 1 \<and> (hd bitsStr = CHR ''0'' \<or> digit_val (hd bitsStr) = None)
              then Inl (Errf ''netip.ParsePrefix(%q): bad bits after slash'' [s])
              else (case read_nat bitsStr of
                      None \<Rightarrow> Inl (Errf ''netip.ParsePrefix(%q): bad bits after slash'' [s])
                    | Some n \<Rightarrow>
                        if n > 32 then Inl (Errf ''netip.ParsePrefix(%q): prefix length out of range'' [s])
                        else (case ip of IPv4 a \<Rightarrow> Inr (PrefixV4 a n)
                              | InvalidAddr \<Rightarrow> Inr InvalidPrefix)))))"

fun Prefix_Addr :: "Prefix \<Rightarrow> Addr" where
  "Prefix_Addr InvalidPrefix = InvalidAddr"
| "Prefix_Addr (PrefixV4 a n) = IPv4 a"

fun Bits :: "Prefix \<Rightarrow> int" where
  "Bits InvalidPrefix = -1"
| "Bits (PrefixV4 a n) = int n"

fun Masked :: "Prefix \<Rightarrow> Prefix" where
  "Masked InvalidPrefix = InvalidPrefix"
| "Masked (PrefixV4 a n) = PrefixV4 (push_bit (32 - n) (drop_bit (32 - n) a)) n"

fun Contains :: "Prefix \<Rightarrow> Addr \<Rightarrow> bool" where
  "Contains (PrefixV4 p n) (IPv4 a) \<longleftrightarrow> drop_bit (32 - n) (a XOR p) = 0"
| "Contains InvalidPrefix a \<longleftrightarrow> False"
| "Contains p InvalidAddr \<longleftrightarrow> False"

fun Prefix_String :: "Prefix \<Rightarrow> string" where
  "Prefix_String InvalidPrefix = ''invalid Prefix''"
| "Prefix_String (PrefixV4 a n) = Addr_String (IPv4 a) @ CHR 0x2F # show_nat n"

fun valid_addr :: "Addr \<Rightarrow> bool" where
  "valid_addr InvalidAddr \<longleftrightarrow> False"
| "valid_addr (IPv4 a) \<longleftrightarrow> True"

fun valid_prefix :: "Prefix \<Rightarrow> bool" where
  "valid_prefix InvalidPrefix \<longleftrightarrow> False"
| "valid_prefix (PrefixV4 a n) \<longleftrightarrow> n \<le> 32"

section \<open>Text round trips\<close>

lemma unat_ipv4_less: "unat (w :: ipv4) < 2 ^ 32"
  using unsigned_less [of w] by simp

lemma octets_less:
  assumes "n \<in> set (octets w)"
  shows "n < 256"
proof -
  have "unat (take_bit 8 x) < 256" for x :: ipv4
    using take_bit_nat_less_exp [of 8 "unat x"] by (simp add: unsigned_take_bit_eq)
  moreover have "unat (drop_bit 24 w) < 256"
    using unat_ipv4_less [of w]
    unfolding unat_drop_bit_eq drop_bit_eq_div [of 24 "unat w"]
    by (simp add: div_less_iff_less_mult)
  ultimately show ?thesis using assms by (auto simp: octets_def)
qed

lemma of_octets_octets:
  "of_octets (unat (drop_bit 24 w)) (unat (take_bit 8 (drop_bit 16 w)))
     (unat (take_bit 8 (drop_bit 8 w))) (unat (take_bit 8 w)) = w"
  unfolding of_octets_def
proof (rule bit_word_eqI)
  fix n assume "n < LENGTH(32)"
  then show "bit (push_bit 24 (word_of_nat (unat (drop_bit 24 w)))
      OR push_bit 16 (word_of_nat (unat (take_bit 8 (drop_bit 16 w))))
      OR push_bit 8 (word_of_nat (unat (take_bit 8 (drop_bit 8 w))))
      OR word_of_nat (unat (take_bit 8 w)) :: ipv4) n = bit w n"
    by (cases "24 \<le> n"; cases "16 \<le> n"; cases "8 \<le> n") (auto simp: bit_simps)
qed

lemma parse_octet_show: "n < 256 \<Longrightarrow> parse_octet (show_nat n) = Some n"
proof (cases "n = 0")
  case True
  have "length (show_nat 0) = 1" by (simp add: show_nat.simps [of 0])
  with True show ?thesis by (simp add: parse_octet_def)
next
  case False
  with show_nat_leading [of n] show "n < 256 \<Longrightarrow> ?thesis" by (simp add: parse_octet_def)
qed

lemma digit_neq: "c \<in> set (show_nat n) \<Longrightarrow> c \<noteq> CHR ''.'' \<and> c \<noteq> CHR 0x2F"
  using show_nat_digits [of c n] by auto

lemma ParseAddr_String: "ParseAddr (Addr_String (IPv4 w)) = Inr (IPv4 w)"
proof -
  have "Split CHR ''.'' (Join [CHR ''.''] (map show_nat (octets w))) = map show_nat (octets w)"
    by (rule Split_Join) (auto simp: octets_def dest: digit_neq)
  then have "map parse_octet (Split CHR ''.'' (Addr_String (IPv4 w))) = map Some (octets w)"
    using octets_less [of _ w] by (simp add: parse_octet_show)
  then show ?thesis
    using of_octets_octets [of w] by (simp add: ParseAddr_def octets_def)
qed

lemma Addr_String_no_slash: "CHR 0x2F \<notin> set (Addr_String (IPv4 w))"
  by (auto simp: octets_def dest: digit_neq)

lemma ParsePrefix_String:
  assumes "n \<le> 32"
  shows "ParsePrefix (Prefix_String (PrefixV4 a n)) = Inr (PrefixV4 a n)"
proof -
  let ?ip = "Addr_String (IPv4 a)" and ?b = "show_nat n"
  have b: "CHR 0x2F \<notin> set (rev ?b)"
    using digit_neq [of _ n] by auto
  then have "takeWhile (\<lambda>c. c \<noteq> CHR 0x2F) (rev ?b @ CHR 0x2F # rev ?ip) = rev ?b"
    by (subst takeWhile_append2) auto
  then have bits: "rev (takeWhile (\<lambda>c. c \<noteq> CHR 0x2F) (rev (?ip @ CHR 0x2F # ?b))) = ?b"
    by simp
  have lead: "\<not> (length ?b > 1 \<and> (hd ?b = CHR ''0'' \<or> digit_val (hd ?b) = None))"
  proof (cases "n = 0")
    case True
    then show ?thesis by (simp add: show_nat.simps [of 0])
  next
    case False
    have "hd ?b \<in> set ?b" by simp
    then have "digit_val (hd ?b) \<noteq> None"
      using show_nat_digits [of "hd ?b" n] by (simp add: digit_val_def Let_def)
    with False show_nat_leading [of n] show ?thesis by simp
  qed
  show ?thesis
    unfolding ParsePrefix_def Prefix_String.simps bits Let_def
    using assms lead ParseAddr_String [of a] by auto
qed

lemma ParseAddr_valid: "ParseAddr s = Inr a \<Longrightarrow> valid_addr a"
  by (auto simp: ParseAddr_def split: list.splits option.splits)

lemma ParsePrefix_valid: "ParsePrefix s = Inr p \<Longrightarrow> valid_prefix p"
  unfolding ParsePrefix_def Let_def and_then_def
  by (auto dest: ParseAddr_valid split: sum.splits if_splits option.splits Addr.splits)

interpretation addr_text: codec Addr_String ParseAddr valid_addr
proof
  fix x assume "valid_addr x"
  then show "ParseAddr (Addr_String x) = Inr x"
    using ParseAddr_String by (cases x) simp_all
qed (rule ParseAddr_valid)

interpretation prefix_text: codec Prefix_String ParsePrefix valid_prefix
proof
  fix x assume "valid_prefix x"
  then show "ParsePrefix (Prefix_String x) = Inr x"
    using ParsePrefix_String by (cases x) simp_all
qed (rule ParsePrefix_valid)

section \<open>Prefixes as sets of addresses\<close>

definition prefix_set :: "Prefix \<Rightarrow> ipv4 set" where
  "prefix_set p = {a. Contains p (IPv4 a)}"

lemma xor_eq_0_iff: "(a XOR b = 0) \<longleftrightarrow> a = (b :: 'a::len word)"
  by (metis xor.right_neutral xor.assoc xor_self_eq)

lemma Contains_iff:
  "Contains (PrefixV4 p n) (IPv4 a) \<longleftrightarrow> drop_bit (32 - n) a = drop_bit (32 - n) p"
  by (simp add: drop_bit_xor xor_eq_0_iff)

lemma prefix_set_V4:
  "a \<in> prefix_set (PrefixV4 p n) \<longleftrightarrow> drop_bit (32 - n) a = drop_bit (32 - n) p"
  unfolding prefix_set_def using Contains_iff by blast

lemma prefix_set_Invalid [simp]: "prefix_set InvalidPrefix = {}"
  by (simp add: prefix_set_def)

lemma prefix_set_self [simp]: "p \<in> prefix_set (PrefixV4 p n)"
  by (simp add: prefix_set_V4)

lemma Contains_prefix_set: "Contains p (IPv4 a) \<longleftrightarrow> a \<in> prefix_set p"
  by (simp add: prefix_set_def)

lemma drop_push_drop: "drop_bit n (push_bit n (drop_bit n a)) = drop_bit n (a :: 'a::len word)"
  by (rule bit_eqI) (auto simp: bit_simps dest: bit_imp_le_length)

lemma prefix_set_Masked [simp]: "prefix_set (Masked p) = prefix_set p"
  by (cases p) (auto simp: prefix_set_V4 drop_push_drop)

lemma Masked_idem [simp]: "Masked (Masked p) = Masked p"
  by (cases p) (simp_all add: drop_push_drop)

lemma prefix_set_coarser:
  assumes "m \<le> n" and "n \<le> 32" and "x \<in> prefix_set (PrefixV4 p n)"
  shows "x \<in> prefix_set (PrefixV4 q m) \<longleftrightarrow> p \<in> prefix_set (PrefixV4 q m)"
proof -
  have split: "drop_bit (32 - m) y = drop_bit (n - m) (drop_bit (32 - n) y)" for y :: ipv4
    using assms(1,2) by (simp add: drop_bit_drop_bit)
  from assms(3) have "drop_bit (32 - n) x = drop_bit (32 - n) p"
    by (simp add: prefix_set_V4)
  then show ?thesis
    by (simp add: prefix_set_V4 split)
qed

lemma prefix_sets_meet:
  assumes "valid_prefix p" and "valid_prefix q"
  shows "prefix_set p \<inter> prefix_set q \<noteq> {} \<longleftrightarrow>
    Contains p (Prefix_Addr q) \<or> Contains q (Prefix_Addr p)"
proof -
  obtain a m b n where pq: "p = PrefixV4 a m" "q = PrefixV4 b n" "m \<le> 32" "n \<le> 32"
    using assms by (cases p; cases q) auto
  have "Contains p (Prefix_Addr q) \<or> Contains q (Prefix_Addr p)"
    if "x \<in> prefix_set p" "x \<in> prefix_set q" for x
    using that prefix_set_coarser [of m n x b a] prefix_set_coarser [of n m x a b] pq
    by (cases "m \<le> n") (simp_all add: Contains_prefix_set del: Contains.simps)
  moreover have "b \<in> prefix_set p \<inter> prefix_set q" if "Contains p (Prefix_Addr q)"
    using that pq by (simp add: Contains_prefix_set del: Contains.simps)
  moreover have "a \<in> prefix_set p \<inter> prefix_set q" if "Contains q (Prefix_Addr p)"
    using that pq by (simp add: Contains_prefix_set del: Contains.simps)
  ultimately show ?thesis by blast
qed

text \<open>An overlap test decides whether two prefixes share an address.\<close>

locale overlap_test =
  fixes ov :: "Prefix \<Rightarrow> Prefix \<Rightarrow> bool"
  assumes ov_meet: "valid_prefix p \<Longrightarrow> valid_prefix q \<Longrightarrow>
    ov p q \<longleftrightarrow> prefix_set p \<inter> prefix_set q \<noteq> {}"
begin

lemma ov_sym: "valid_prefix p \<Longrightarrow> valid_prefix q \<Longrightarrow> ov p q \<longleftrightarrow> ov q p"
  by (auto simp: ov_meet)

lemma ov_none:
  "valid_prefix p \<Longrightarrow> \<forall>q \<in> set qs. valid_prefix q \<Longrightarrow>
    (\<forall>q \<in> set qs. \<not> ov p q) \<longleftrightarrow> prefix_set p \<inter> (\<Union>q \<in> set qs. prefix_set q) = {}"
  by (auto simp: ov_meet)

lemma ov_self: "valid_prefix p \<Longrightarrow> ov p p"
  by (cases p) (auto simp: ov_meet intro: prefix_set_self)

end

text \<open>The expression that all three copies of the test in the source evaluate.\<close>

lemma overlap_testI:
  assumes "\<And>p q. ov p q \<longleftrightarrow> Contains p (Prefix_Addr q) \<or> Contains q (Prefix_Addr p)"
  shows "overlap_test ov"
  by standard (simp add: assms prefix_sets_meet)

section \<open>Results whose error is ignored\<close>

text \<open>\<^verbatim>\<open>p, _ := netip.ParsePrefix(v)\<close> and \<^verbatim>\<open>a, _ := netip.ParseAddr(v)\<close>: zero values on an error.\<close>

definition parsed :: "string \<Rightarrow> Prefix" where
  "parsed v = (case ParsePrefix v of Inl _ \<Rightarrow> InvalidPrefix | Inr p \<Rightarrow> p)"

definition parsed_addr :: "string \<Rightarrow> Addr" where
  "parsed_addr v = (case ParseAddr v of Inl _ \<Rightarrow> InvalidAddr | Inr a \<Rightarrow> a)"

lemma parsed_valid: "ParsePrefix v = Inr p \<Longrightarrow> parsed v = p \<and> valid_prefix p"
  using ParsePrefix_valid by (simp add: parsed_def)

lemma parsed_String [simp]: "valid_prefix p \<Longrightarrow> parsed (Prefix_String p) = p"
  by (simp add: parsed_def prefix_text.dec_enc)

lemma parsed_addr_String [simp]: "parsed_addr (Addr_String (IPv4 a)) = IPv4 a"
  using addr_text.dec_enc [of "IPv4 a"] by (simp add: parsed_addr_def del: Addr_String.simps)

end
