(* ===== verification/Config.thy ===== *)
theory Config
  imports Netip
begin

text \<open>
  \<^verbatim>\<open>internal/config/config.go\<close>: the relay and client configurations, their defaults
  and validation, and the text forms of keys and addresses.

  \<open>checkRelay\<close> and \<open>checkClient\<close> are what \<^verbatim>\<open>LoadRelay\<close> and \<^verbatim>\<open>LoadClient\<close> do with the
  decoded document.  Go's \<^verbatim>\<open>int\<close> is 64 bits wide; the values here are bounded by the
  checks themselves, so they are \<open>int\<close>.
\<close>

unbundle bit_operations_syntax

section \<open>Data\<close>

definition DefaultMaxFrameSize :: int where "DefaultMaxFrameSize = 2048"

record RelayClient =
  rc_ID :: string
  rc_Key :: string
  rc_MAC :: string

record Relay =
  r_Listen :: string
  r_Path :: string
  r_HealthPath :: string
  r_MaxFrameSize :: int
  r_ClientQueueSize :: int
  r_HandshakeTimeoutMS :: int
  r_IdleTimeoutMS :: int
  r_MaxPendingHandshakes :: int
  r_Clients :: "RelayClient list"

record Client =
  c_Server :: string
  c_CAFile :: string
  c_ID :: string
  c_KeyFile :: string
  c_Device :: string
  c_MAC :: string
  c_Address :: string
  c_Gateway :: string
  c_Routes :: "string list"
  c_MaxFrameSize :: int

section \<open>Keys, identities and addresses\<close>

definition DecodeKey :: "string \<Rightarrow> bytes res" where
  "DecodeKey value =
     (case b64_decode (TrimSpace value) of
        None \<Rightarrow> Inl (Err ''key must be unpadded base64'')
      | Some key \<Rightarrow>
          if length key \<noteq> 32 then Inl (Err ''key must decode to exactly 32 bytes'') else Inr key)"

text \<open>\<open>readFile\<close> is the file system: the contents of a path, or an error.\<close>

definition LoadKey :: "(string \<Rightarrow> string res) \<Rightarrow> string \<Rightarrow> bytes res" where
  "LoadKey readFile path = and_then (readFile path) (\<lambda>contents. DecodeKey (TrimSpace contents))"

definition EncodeKey :: "bytes \<Rightarrow> string" where
  "EncodeKey key = b64_encode key"

text \<open>
  The loop ranges over code points; a byte above 127 is never part of an accepted
  one, so the test on bytes accepts the same strings.
\<close>

definition id_char :: "char \<Rightarrow> bool" where
  "id_char c \<longleftrightarrow> (let n = (of_char c :: nat) in
     (97 \<le> n \<and> n \<le> 122) \<or> (65 \<le> n \<and> n \<le> 90) \<or> (48 \<le> n \<and> n \<le> 57)
     \<or> c = CHR ''-'' \<or> c = CHR ''_'' \<or> c = CHR ''.'')"

definition ValidateID :: "string \<Rightarrow> unit res" where
  "ValidateID cid =
     (if length cid < 1 \<or> length cid > 64 then Inl (Err ''client id must contain 1-64 characters'')
      else if list_all id_char cid then Inr ()
      else Inl (Err (''client id may contain only letters, digits, '.', '-', and '_'' @ [CHR 0x27])))"

definition ParseMAC :: "string \<Rightarrow> bytes res" where
  "ParseMAC value =
     (case net_ParseMAC value of
        None \<Rightarrow> Inl (Err ''mac must be a six-byte Ethernet address'')
      | Some mac \<Rightarrow>
          if length mac \<noteq> 6 then Inl (Err ''mac must be a six-byte Ethernet address'')
          else if mac ! 0 AND 1 \<noteq> 0 then Inl (Err ''mac must be unicast'')
          else Inr mac)"

definition prefixesOverlap :: "Prefix \<Rightarrow> Prefix \<Rightarrow> bool" where
  "prefixesOverlap a b \<longleftrightarrow> Contains a (Prefix_Addr b) \<or> Contains b (Prefix_Addr a)"

section \<open>Relay configuration\<close>

definition relay_defaults :: "Relay \<Rightarrow> Relay" where
  "relay_defaults cfg =
     (let cfg = (if r_Listen cfg = '''' then cfg\<lparr>r_Listen := ''127.0.0.1:8080''\<rparr> else cfg);
          cfg = (if r_Path cfg = '''' then cfg\<lparr>r_Path := ''/wsn''\<rparr> else cfg);
          cfg = (if r_HealthPath cfg = '''' then cfg\<lparr>r_HealthPath := ''/healthz''\<rparr> else cfg);
          cfg = (if r_MaxFrameSize cfg = 0 then cfg\<lparr>r_MaxFrameSize := DefaultMaxFrameSize\<rparr> else cfg);
          cfg = (if r_ClientQueueSize cfg = 0 then cfg\<lparr>r_ClientQueueSize := 256\<rparr> else cfg);
          cfg = (if r_HandshakeTimeoutMS cfg = 0 then cfg\<lparr>r_HandshakeTimeoutMS := 10000\<rparr> else cfg);
          cfg = (if r_IdleTimeoutMS cfg = 0 then cfg\<lparr>r_IdleTimeoutMS := 90000\<rparr> else cfg)
      in if r_MaxPendingHandshakes cfg = 0 then cfg\<lparr>r_MaxPendingHandshakes := 32\<rparr> else cfg)"

definition relay_bounds :: "Relay \<Rightarrow> unit res" where
  "relay_bounds cfg =
     (if \<not> HasPrefix (r_Path cfg) ''/'' \<or> \<not> HasPrefix (r_HealthPath cfg) ''/''
      then Inl (Err ''relay paths must begin with /'')
      else if r_Path cfg = r_HealthPath cfg
      then Inl (Err ''relay path and health path must differ'')
      else if r_MaxFrameSize cfg < 64 \<or> r_MaxFrameSize cfg > 65535
      then Inl (Err ''max_frame_size must be between 64 and 65535'')
      else if r_ClientQueueSize cfg < 1 \<or> r_ClientQueueSize cfg > 65536
      then Inl (Err ''client_queue_size must be between 1 and 65536'')
      else if r_MaxPendingHandshakes cfg < 1 \<or> r_MaxPendingHandshakes cfg > 4096
      then Inl (Err ''max_pending_handshakes must be between 1 and 4096'')
      else if r_HandshakeTimeoutMS cfg < 1000 \<or> r_HandshakeTimeoutMS cfg > 60000
      then Inl (Err ''handshake_timeout_ms must be between 1000 and 60000'')
      else if r_IdleTimeoutMS cfg < 10000 \<or> r_IdleTimeoutMS cfg > 3600000
      then Inl (Err ''idle_timeout_ms must be between 10000 and 3600000'')
      else Inr ())"

text \<open>
  The loop over the clients: \<open>i\<close> is the index, \<open>ids\<close> and \<open>macs\<close> the keys of the two
  maps so far; the client's MAC is replaced by its normal form.
\<close>

fun check_clients :: "nat \<Rightarrow> string list \<Rightarrow> string list \<Rightarrow> RelayClient list \<Rightarrow> RelayClient list res" where
  "check_clients i ids macs [] = Inr []"
| "check_clients i ids macs (client # rest) =
     (case ValidateID (rc_ID client) of
        Inl e \<Rightarrow> Inl (Errw ''clients[%d]: %w'' [show_nat i] e)
      | Inr _ \<Rightarrow>
          if rc_ID client \<in> set ids then Inl (Errf ''duplicate client id %q'' [rc_ID client])
          else (case DecodeKey (rc_Key client) of
              Inl e \<Rightarrow> Inl (Errw ''client %q: %w'' [rc_ID client] e)
            | Inr _ \<Rightarrow>
                (case ParseMAC (rc_MAC client) of
                   Inl e \<Rightarrow> Inl (Errw ''client %q: %w'' [rc_ID client] e)
                 | Inr mac \<Rightarrow>
                     (let normalized = mac_String mac in
                      if normalized \<in> set macs then Inl (Errf ''duplicate client mac %q'' [normalized])
                      else and_then (check_clients (i + 1) (rc_ID client # ids) (normalized # macs) rest)
                             (\<lambda>rest'. Inr (client\<lparr>rc_MAC := normalized\<rparr> # rest'))))))"

definition checkRelay :: "Relay \<Rightarrow> Relay res" where
  "checkRelay cfg0 =
     (let cfg = relay_defaults cfg0 in
      and_then (relay_bounds cfg) (\<lambda>_.
      and_then (check_clients 0 [] [] (r_Clients cfg)) (\<lambda>clients.
      Inr (cfg\<lparr>r_Clients := clients\<rparr>))))"

section \<open>Client configuration\<close>

text \<open>\<^verbatim>\<open>filepath.IsAbs\<close> of the host the client runs on.\<close>

datatype GOOS = Unix | Windows

definition isSlash :: "char \<Rightarrow> bool" where
  "isSlash c \<longleftrightarrow> c = CHR 0x2F \<or> c = CHR 0x5C"

fun IsAbs :: "GOOS \<Rightarrow> string \<Rightarrow> bool" where
  "IsAbs Unix s \<longleftrightarrow> HasPrefix s ''/''"
| "IsAbs Windows s \<longleftrightarrow>
     (length s \<ge> 3 \<and> s ! 1 = CHR '':'' \<and> isSlash (s ! 2))
     \<or> (length s \<ge> 2 \<and> isSlash (s ! 0) \<and> isSlash (s ! 1))
     \<or> (length s \<ge> 4 \<and> isSlash (s ! 0) \<and> s ! 1 = CHR ''?'' \<and> s ! 2 = CHR ''?'' \<and> isSlash (s ! 3)
        \<and> list_ex isSlash (drop 4 s))"

fun check_routes :: "Prefix \<Rightarrow> string list \<Rightarrow> unit res" where
  "check_routes overlay [] = Inr ()"
| "check_routes overlay (route # rest) =
     (case ParsePrefix route of
        Inl _ \<Rightarrow> Inl (Errf ''invalid IPv4 route %q'' [route])
      | Inr prefix \<Rightarrow>
          if prefixesOverlap overlay (Masked prefix)
          then Inl (Errf ''route %q overlaps overlay %q'' [route, Prefix_String overlay])
          else check_routes overlay rest)"

definition client_frame_size :: "Client \<Rightarrow> Client res" where
  "client_frame_size cfg0 =
     (let cfg = (if c_MaxFrameSize cfg0 = 0 then cfg0\<lparr>c_MaxFrameSize := DefaultMaxFrameSize\<rparr> else cfg0) in
      if c_MaxFrameSize cfg < 64 \<or> c_MaxFrameSize cfg > 65535
      then Inl (Err ''max_frame_size must be between 64 and 65535'')
      else Inr cfg)"

definition checkClient :: "GOOS \<Rightarrow> Client \<Rightarrow> Client res" where
  "checkClient os cfg =
     and_then (ValidateID (c_ID cfg)) (\<lambda>_.
     if c_Server cfg = '''' \<or> \<not> HasPrefix (c_Server cfg) ''wss://''
     then Inl (Err ''server must use wss://'')
     else if c_CAFile cfg = '''' \<or> c_KeyFile cfg = '''' \<or> c_Device cfg = ''''
     then Inl (Err ''ca_file, key_file, and device are required'')
     else if \<not> IsAbs os (c_CAFile cfg) \<or> \<not> IsAbs os (c_KeyFile cfg)
     then Inl (Err ''ca_file and key_file must be absolute paths'')
     else and_then (ParseMAC (c_MAC cfg)) (\<lambda>mac.
     let cfg = cfg\<lparr>c_MAC := mac_String mac\<rparr> in
     case ParsePrefix (c_Address cfg) of
       Inl _ \<Rightarrow> Inl (Err ''address must be an IPv4 prefix'')
     | Inr address \<Rightarrow>
         (case ParseAddr (c_Gateway cfg) of
            Inl _ \<Rightarrow> Inl (Err ''gateway must be an IPv4 address'')
          | Inr gateway \<Rightarrow>
              if \<not> Contains (Masked address) gateway
              then Inl (Err ''gateway must be inside the overlay prefix'')
              else and_then (check_routes (Masked address) (c_Routes cfg)) (\<lambda>_. client_frame_size cfg))))"

section \<open>Text forms\<close>

definition unicast_mac :: "bytes \<Rightarrow> bool" where
  "unicast_mac mac \<longleftrightarrow> length mac = 6 \<and> mac ! 0 AND 1 = 0"

interpretation mac_text: codec mac_String ParseMAC unicast_mac
  by standard (auto simp: ParseMAC_def unicast_mac_def net_ParseMAC_String split: option.splits if_splits)

definition key32 :: "bytes \<Rightarrow> bool" where
  "key32 key \<longleftrightarrow> length key = 32"

lemma TrimSpace_b64 [simp]: "TrimSpace (b64_encode bs) = b64_encode bs"
  using b64_encode_code by (intro TrimSpace_ascii_id) blast

interpretation key_text: codec EncodeKey DecodeKey key32
  by standard (auto simp: DecodeKey_def EncodeKey_def key32_def b64_decode_encode split: option.splits if_splits)

interpretation config_overlap: overlap_test prefixesOverlap
  by (rule overlap_testI) (simp add: prefixesOverlap_def)

lemma ValidateID_ok: "ValidateID cid = Inr u \<longleftrightarrow> 1 \<le> length cid \<and> length cid \<le> 64 \<and> list_all id_char cid"
  by (auto simp: ValidateID_def Suc_le_eq)

lemma id_char_ascii: "id_char c \<Longrightarrow> 32 < (of_char c :: nat) \<and> (of_char c :: nat) < 128"
  by (auto simp: id_char_def Let_def)

section \<open>What an accepted relay configuration satisfies\<close>

definition relay_bounds_ok :: "Relay \<Rightarrow> bool" where
  "relay_bounds_ok cfg \<longleftrightarrow>
     HasPrefix (r_Path cfg) ''/'' \<and> HasPrefix (r_HealthPath cfg) ''/'' \<and> r_Path cfg \<noteq> r_HealthPath cfg
     \<and> 64 \<le> r_MaxFrameSize cfg \<and> r_MaxFrameSize cfg \<le> 65535
     \<and> 1 \<le> r_ClientQueueSize cfg \<and> r_ClientQueueSize cfg \<le> 65536
     \<and> 1 \<le> r_MaxPendingHandshakes cfg \<and> r_MaxPendingHandshakes cfg \<le> 4096
     \<and> 1000 \<le> r_HandshakeTimeoutMS cfg \<and> r_HandshakeTimeoutMS cfg \<le> 60000
     \<and> 10000 \<le> r_IdleTimeoutMS cfg \<and> r_IdleTimeoutMS cfg \<le> 3600000"

lemma relay_bounds_Inr: "relay_bounds cfg = Inr u \<longleftrightarrow> relay_bounds_ok cfg"
  by (auto simp: relay_bounds_def relay_bounds_ok_def)

text \<open>A client entry is acceptable on its own; \<open>mac_of\<close> is the address its text denotes.\<close>

definition entry_ok :: "RelayClient \<Rightarrow> bool" where
  "entry_ok c \<longleftrightarrow> ValidateID (rc_ID c) = Inr ()
     \<and> (\<exists>k. DecodeKey (rc_Key c) = Inr k) \<and> (\<exists>m. ParseMAC (rc_MAC c) = Inr m)"

definition mac_of :: "RelayClient \<Rightarrow> bytes" where
  "mac_of c = (case ParseMAC (rc_MAC c) of Inr m \<Rightarrow> m | Inl _ \<Rightarrow> [])"

definition normal_entry :: "RelayClient \<Rightarrow> RelayClient" where
  "normal_entry c = c\<lparr>rc_MAC := mac_String (mac_of c)\<rparr>"

definition clients_ok :: "RelayClient list \<Rightarrow> bool" where
  "clients_ok cs \<longleftrightarrow> list_all entry_ok cs \<and> distinct (map rc_ID cs) \<and> distinct (map mac_of cs)"

lemma entry_ok_mac: "entry_ok c \<Longrightarrow> ParseMAC (rc_MAC c) = Inr (mac_of c) \<and> unicast_mac (mac_of c)"
  by (auto simp: entry_ok_def mac_of_def dest: mac_text.dec_valid)

lemma normal_entry_sel [simp]:
  "rc_ID (normal_entry c) = rc_ID c" "rc_Key (normal_entry c) = rc_Key c"
  "rc_MAC (normal_entry c) = mac_String (mac_of c)"
  by (simp_all add: normal_entry_def)

lemma normal_entry_ok:
  assumes "entry_ok c"
  shows "entry_ok (normal_entry c)" "mac_of (normal_entry c) = mac_of c"
    "normal_entry (normal_entry c) = normal_entry c"
proof -
  have m: "ParseMAC (mac_String (mac_of c)) = Inr (mac_of c)"
    using entry_ok_mac [OF assms] mac_text.dec_enc by blast
  show "entry_ok (normal_entry c)" using assms m by (simp add: entry_ok_def)
  show *: "mac_of (normal_entry c) = mac_of c" using m by (simp add: mac_of_def [of "normal_entry c"])
  show "normal_entry (normal_entry c) = normal_entry c" by (simp add: normal_entry_def [of "normal_entry c"] *)
qed

lemma check_clients_Inr:
  "check_clients i ids macs cs = Inr cs' \<longleftrightarrow>
     list_all entry_ok cs \<and> cs' = map normal_entry cs
     \<and> distinct (map rc_ID cs) \<and> set (map rc_ID cs) \<inter> set ids = {}
     \<and> distinct (map (mac_String \<circ> mac_of) cs) \<and> set (map (mac_String \<circ> mac_of) cs) \<inter> set macs = {}"
proof (induction cs arbitrary: i ids macs cs')
  case Nil
  then show ?case by auto
next
  case (Cons c cs)
  show ?case
  proof (cases "entry_ok c \<and> rc_ID c \<notin> set ids \<and> mac_String (mac_of c) \<notin> set macs")
    case True
    then obtain k where "ValidateID (rc_ID c) = Inr ()" "DecodeKey (rc_Key c) = Inr k"
      "ParseMAC (rc_MAC c) = Inr (mac_of c)"
      by (auto simp: entry_ok_def mac_of_def)
    with True have "check_clients i ids macs (c # cs) = Inr cs' \<longleftrightarrow>
        (\<exists>r. check_clients (i + 1) (rc_ID c # ids) (mac_String (mac_of c) # macs) cs = Inr r
           \<and> cs' = normal_entry c # r)"
      by (auto simp: Let_def and_then_eq_Inr normal_entry_def)
    with True Cons.IH show ?thesis by auto
  next
    case False
    then have "check_clients i ids macs (c # cs) \<noteq> Inr cs'"
      by (auto simp: entry_ok_def mac_of_def Let_def split: sum.splits if_splits)
    with False show ?thesis by auto
  qed
qed

lemma check_clients_start:
  "check_clients 0 [] [] cs = Inr cs' \<longleftrightarrow> clients_ok cs \<and> cs' = map normal_entry cs"
proof -
  have "distinct (map (mac_String \<circ> mac_of) cs) \<longleftrightarrow> distinct (map mac_of cs)" if "list_all entry_ok cs"
    using mac_text.distinct_enc [of "map mac_of cs"] that entry_ok_mac
    by (auto simp: list_all_iff)
  then show ?thesis by (auto simp: check_clients_Inr clients_ok_def)
qed

lemma clients_ok_normal: "clients_ok cs \<Longrightarrow> clients_ok (map normal_entry cs)"
  by (auto simp: clients_ok_def list_all_iff normal_entry_ok comp_def
      intro: map_cong [THEN arg_cong [of _ _ distinct], THEN iffD2])

lemma checkRelay_Inr:
  "checkRelay cfg = Inr cfg' \<longleftrightarrow>
     relay_bounds_ok (relay_defaults cfg) \<and> clients_ok (r_Clients cfg)
     \<and> cfg' = (relay_defaults cfg)\<lparr>r_Clients := map normal_entry (r_Clients cfg)\<rparr>"
proof -
  have "r_Clients (relay_defaults cfg) = r_Clients cfg"
    by (simp add: relay_defaults_def Let_def)
  then show ?thesis
    by (auto simp: checkRelay_def Let_def and_then_eq_Inr relay_bounds_Inr check_clients_start)
qed

lemma relay_defaults_sel:
  "r_Listen (relay_defaults cfg) = (if r_Listen cfg = '''' then ''127.0.0.1:8080'' else r_Listen cfg)"
  "r_Path (relay_defaults cfg) = (if r_Path cfg = '''' then ''/wsn'' else r_Path cfg)"
  "r_HealthPath (relay_defaults cfg) = (if r_HealthPath cfg = '''' then ''/healthz'' else r_HealthPath cfg)"
  "r_MaxFrameSize (relay_defaults cfg) = (if r_MaxFrameSize cfg = 0 then 2048 else r_MaxFrameSize cfg)"
  "r_ClientQueueSize (relay_defaults cfg) = (if r_ClientQueueSize cfg = 0 then 256 else r_ClientQueueSize cfg)"
  "r_HandshakeTimeoutMS (relay_defaults cfg) =
     (if r_HandshakeTimeoutMS cfg = 0 then 10000 else r_HandshakeTimeoutMS cfg)"
  "r_IdleTimeoutMS (relay_defaults cfg) = (if r_IdleTimeoutMS cfg = 0 then 90000 else r_IdleTimeoutMS cfg)"
  "r_MaxPendingHandshakes (relay_defaults cfg) =
     (if r_MaxPendingHandshakes cfg = 0 then 32 else r_MaxPendingHandshakes cfg)"
  "r_Clients (relay_defaults cfg) = r_Clients cfg"
  by (simp_all add: relay_defaults_def Let_def DefaultMaxFrameSize_def)

lemma relay_defaults_again:
  "relay_defaults ((relay_defaults cfg)\<lparr>r_Clients := cs\<rparr>) = (relay_defaults cfg)\<lparr>r_Clients := cs\<rparr>"
  by (rule Relay.equality) (simp_all add: relay_defaults_sel)

lemma checkRelay_idem: "checkRelay cfg = Inr cfg' \<Longrightarrow> checkRelay cfg' = Inr cfg'"
proof -
  assume "checkRelay cfg = Inr cfg'"
  then have b: "relay_bounds_ok (relay_defaults cfg)" and c: "clients_ok (r_Clients cfg)"
    and cfg': "cfg' = (relay_defaults cfg)\<lparr>r_Clients := map normal_entry (r_Clients cfg)\<rparr>"
    by (simp_all add: checkRelay_Inr)
  have "map normal_entry (map normal_entry (r_Clients cfg)) = map normal_entry (r_Clients cfg)"
    using c normal_entry_ok by (simp add: clients_ok_def list_all_iff)
  then show ?thesis
    using b clients_ok_normal [OF c]
    by (simp add: checkRelay_Inr cfg' relay_defaults_again relay_bounds_ok_def)
qed

section \<open>What an accepted client configuration satisfies\<close>

lemma valid_Masked [simp]: "valid_prefix (Masked p) = valid_prefix p"
  by (cases p) simp_all

lemma check_routes_Inr:
  assumes "valid_prefix overlay"
  shows "check_routes overlay routes = Inr u \<longleftrightarrow>
    (\<forall>r \<in> set routes. \<exists>p. ParsePrefix r = Inr p \<and> prefix_set overlay \<inter> prefix_set p = {})"
proof (induction routes)
  case Nil
  then show ?case by simp
next
  case (Cons r rs)
  show ?case
  proof (cases "ParsePrefix r")
    case (Inl e)
    then show ?thesis by simp
  next
    case (Inr p)
    then have "valid_prefix (Masked p)"
      using ParsePrefix_valid by simp
    then have "prefixesOverlap overlay (Masked p) \<longleftrightarrow> prefix_set overlay \<inter> prefix_set p \<noteq> {}"
      using assms config_overlap.ov_meet by simp
    with Inr Cons show ?thesis by auto
  qed
qed

text \<open>The conditions under which \<open>checkClient\<close> accepts, field by field.\<close>

definition client_ok :: "GOOS \<Rightarrow> Client \<Rightarrow> bool" where
  "client_ok os cfg \<longleftrightarrow>
     ValidateID (c_ID cfg) = Inr () \<and> HasPrefix (c_Server cfg) ''wss://''
     \<and> c_CAFile cfg \<noteq> '''' \<and> c_KeyFile cfg \<noteq> '''' \<and> c_Device cfg \<noteq> ''''
     \<and> IsAbs os (c_CAFile cfg) \<and> IsAbs os (c_KeyFile cfg)
     \<and> (\<exists>m. ParseMAC (c_MAC cfg) = Inr m)
     \<and> (\<exists>p g. ParsePrefix (c_Address cfg) = Inr p \<and> ParseAddr (c_Gateway cfg) = Inr (IPv4 g)
          \<and> g \<in> prefix_set p
          \<and> (\<forall>r \<in> set (c_Routes cfg). \<exists>q. ParsePrefix r = Inr q \<and> prefix_set p \<inter> prefix_set q = {}))
     \<and> (c_MaxFrameSize cfg = 0 \<or> 64 \<le> c_MaxFrameSize cfg \<and> c_MaxFrameSize cfg \<le> 65535)"

definition normal_client :: "Client \<Rightarrow> Client" where
  "normal_client cfg =
     cfg\<lparr>c_MAC := (case ParseMAC (c_MAC cfg) of Inr m \<Rightarrow> mac_String m | Inl _ \<Rightarrow> c_MAC cfg),
         c_MaxFrameSize := (if c_MaxFrameSize cfg = 0 then 2048 else c_MaxFrameSize cfg)\<rparr>"

lemma client_frame_size_Inr:
  "client_frame_size cfg = Inr cfg' \<longleftrightarrow>
     (c_MaxFrameSize cfg = 0 \<or> 64 \<le> c_MaxFrameSize cfg \<and> c_MaxFrameSize cfg \<le> 65535)
     \<and> cfg' = cfg\<lparr>c_MaxFrameSize := (if c_MaxFrameSize cfg = 0 then 2048 else c_MaxFrameSize cfg)\<rparr>"
  by (auto simp: client_frame_size_def Let_def DefaultMaxFrameSize_def)

lemma checkClient_Inr: "checkClient os cfg = Inr cfg' \<longleftrightarrow> client_ok os cfg \<and> cfg' = normal_client cfg"
proof (cases "ParseMAC (c_MAC cfg)"; cases "ParsePrefix (c_Address cfg)"; cases "ParseAddr (c_Gateway cfg)")
  fix m p g
  assume m: "ParseMAC (c_MAC cfg) = Inr m" and p: "ParsePrefix (c_Address cfg) = Inr p"
    and g: "ParseAddr (c_Gateway cfg) = Inr g"
  have ne: "c_Server cfg = '''' \<Longrightarrow> \<not> HasPrefix (c_Server cfg) ''wss://''"
    by (simp add: HasPrefix_def)
  from g obtain a where a: "g = IPv4 a" using ParseAddr_valid by (cases g) force+
  have c: "Contains (Masked p) (IPv4 a) \<longleftrightarrow> a \<in> prefix_set p"
    by (simp add: Contains_prefix_set)
  have r: "check_routes (Masked p) (c_Routes cfg) = Inr u \<longleftrightarrow>
    (\<forall>r \<in> set (c_Routes cfg). \<exists>q. ParsePrefix r = Inr q \<and> prefix_set p \<inter> prefix_set q = {})" for u
    using ParsePrefix_valid [OF p] check_routes_Inr [of "Masked p"] by simp
  show ?thesis
    using ne by (auto simp: checkClient_def client_ok_def normal_client_def wsn_res
        m p g a c r client_frame_size_Inr Let_def)
qed (auto simp: checkClient_def client_ok_def wsn_res Let_def)

lemma normal_client_ok: "client_ok os cfg \<Longrightarrow> client_ok os (normal_client cfg)"
proof -
  assume ok: "client_ok os cfg"
  then obtain m where "ParseMAC (c_MAC cfg) = Inr m" by (auto simp: client_ok_def)
  moreover from this have "ParseMAC (mac_String m) = Inr m" by (rule mac_text.dec_canonical)
  ultimately show ?thesis using ok by (auto simp: client_ok_def normal_client_def)
qed

lemma normal_client_idem: "client_ok os cfg \<Longrightarrow> normal_client (normal_client cfg) = normal_client cfg"
  using mac_text.dec_canonical by (auto simp: client_ok_def normal_client_def)

section \<open>Properties\<close>

text \<open>
  C23. The relay configuration that is loaded is safe to run: every size and timeout is
  within its documented bounds, the two paths differ, identities and addresses are
  pairwise distinct, every key has 32 bytes, every address is unicast and in normal form; and
  loading it again gives it back unchanged.  A configuration is refused only when, after
  the defaults, one of these fails.
\<close>

theorem checkRelay_safe:
  "case checkRelay cfg of
     Inl e \<Rightarrow> \<not> (relay_bounds_ok (relay_defaults cfg) \<and> clients_ok (r_Clients cfg))
   | Inr cfg' \<Rightarrow> relay_bounds_ok cfg' \<and> distinct (map rc_ID (r_Clients cfg')) \<and> distinct (map rc_MAC (r_Clients cfg'))
       \<and> (\<forall>c \<in> set (r_Clients cfg'). ValidateID (rc_ID c) = Inr ()
            \<and> (\<exists>k. DecodeKey (rc_Key c) = Inr k \<and> length k = 32)
            \<and> (\<exists>m. ParseMAC (rc_MAC c) = Inr m \<and> unicast_mac m \<and> rc_MAC c = mac_String m))
       \<and> checkRelay cfg' = Inr cfg'"
proof (cases "checkRelay cfg")
  case (Inl e)
  then show ?thesis using checkRelay_Inr [of cfg] by auto
next
  case (Inr cfg')
  then have cfg': "relay_bounds_ok (relay_defaults cfg)" "clients_ok (r_Clients cfg)"
    "cfg' = (relay_defaults cfg)\<lparr>r_Clients := map normal_entry (r_Clients cfg)\<rparr>"
    by (simp_all add: checkRelay_Inr)
  have ok: "list_all entry_ok (r_Clients cfg)" using cfg'(2) by (simp add: clients_ok_def)
  have "distinct (map (mac_String \<circ> mac_of) (r_Clients cfg))"
    using mac_text.distinct_enc [of "map mac_of (r_Clients cfg)"] cfg'(2) ok entry_ok_mac
    by (auto simp: clients_ok_def list_all_iff)
  moreover have "ValidateID (rc_ID (normal_entry c)) = Inr () \<and> (\<exists>k. DecodeKey (rc_Key (normal_entry c)) = Inr k \<and> length k = 32)
      \<and> (\<exists>m. ParseMAC (rc_MAC (normal_entry c)) = Inr m \<and> unicast_mac m \<and> rc_MAC (normal_entry c) = mac_String m)"
    if "entry_ok c" for c
    using that entry_ok_mac [OF that] mac_text.dec_enc [of "mac_of c"] key_text.dec_valid [of "rc_Key c"]
    by (auto simp: entry_ok_def key32_def)
  moreover have "relay_bounds_ok cfg'" using cfg'(1,3) by (simp add: relay_bounds_ok_def)
  ultimately show ?thesis
    using Inr checkRelay_idem [OF Inr] cfg'(2,3) ok by (auto simp: clients_ok_def list_all_iff comp_def)
qed

text \<open>
  The client configuration that is loaded is consistent: the gateway is inside
  the overlay, no route shares an address with the overlay, the relay is reached over
  TLS, and loading it again gives it back unchanged.
\<close>

lemma checkClient_consistent:
  assumes "checkClient os cfg = Inr cfg'"
  shows "checkClient os cfg' = Inr cfg' \<and> HasPrefix (c_Server cfg') ''wss://''
    \<and> 64 \<le> c_MaxFrameSize cfg' \<and> c_MaxFrameSize cfg' \<le> 65535
    \<and> (\<exists>overlay g. ParsePrefix (c_Address cfg') = Inr overlay \<and> ParseAddr (c_Gateway cfg') = Inr (IPv4 g)
         \<and> g \<in> prefix_set overlay
         \<and> (\<forall>r \<in> set (c_Routes cfg'). \<exists>q. ParsePrefix r = Inr q \<and> prefix_set overlay \<inter> prefix_set q = {}))"
proof -
  have ok: "client_ok os cfg" and cfg': "cfg' = normal_client cfg" using assms by (simp_all add: checkClient_Inr)
  have "checkClient os cfg' = Inr cfg'"
    using normal_client_ok [OF ok] normal_client_idem [OF ok] by (simp add: checkClient_Inr cfg')
  with ok show ?thesis by (auto simp: cfg' client_ok_def normal_client_def)
qed

text \<open>
  C24. Keys and addresses survive being written and read: a 32-byte key and a unicast
  address are recovered from their text, and two texts that the program accepts denote
  the same key or address exactly when their normal forms are equal.
\<close>

theorem key_mac_roundtrip:
  "(length key = 32 \<longrightarrow> DecodeKey (EncodeKey key) = Inr key)
   \<and> (unicast_mac mac \<longrightarrow> ParseMAC (mac_String mac) = Inr mac)
   \<and> (ParseMAC t = Inr a \<and> ParseMAC u = Inr b \<longrightarrow> (mac_String a = mac_String b \<longleftrightarrow> a = b))"
  using key_text.dec_enc [of key] mac_text.dec_enc [of mac] mac_text.enc_normal [of t a u b] by (simp add: key32_def)

text \<open>
  The overlap test decides what it is meant to: on valid prefixes it answers yes exactly
  when some address is in both; it is symmetric and a prefix overlaps itself.
\<close>

lemma prefixesOverlap_correct:
  assumes "valid_prefix p" and "valid_prefix q"
  shows "(prefixesOverlap p q \<longleftrightarrow> (\<exists>a. a \<in> prefix_set p \<and> a \<in> prefix_set q))
    \<and> prefixesOverlap p q = prefixesOverlap q p \<and> prefixesOverlap p p"
  using config_overlap.ov_meet [OF assms] config_overlap.ov_sym [OF assms] config_overlap.ov_self [OF assms(1)]
  by auto

definition ex_relay_cfg :: Relay where
  "ex_relay_cfg = \<lparr>r_Listen = '''', r_Path = '''', r_HealthPath = '''', r_MaxFrameSize = 0, r_ClientQueueSize = 0,
     r_HandshakeTimeoutMS = 0, r_IdleTimeoutMS = 0, r_MaxPendingHandshakes = 0,
     r_Clients = [\<lparr>rc_ID = ''a'', rc_Key = ''AAAAAAAAAAAAAAAAAAAAAAAAAAAAAAAAAAAAAAAAAAA'',
                   rc_MAC = ''02-00-00-00-00-0A''\<rparr>]\<rparr>"

theorem checkRelay_safe_witness:
  "\<exists>cfg'. checkRelay ex_relay_cfg = Inr cfg' \<and> checkRelay cfg' = Inr cfg' \<and> 64 \<le> r_MaxFrameSize cfg'"
proof -
  have "\<not> isl (checkRelay ex_relay_cfg)" by code_simp
  then obtain cfg' where "checkRelay ex_relay_cfg = Inr cfg'" by (cases "checkRelay ex_relay_cfg") auto
  with checkRelay_safe [of ex_relay_cfg] show ?thesis by (simp add: relay_bounds_ok_def)
qed

definition ex_client_cfg :: Client where
  "ex_client_cfg = \<lparr>c_Server = ''wss://relay.example'', c_CAFile = ''/etc/ca.pem'', c_ID = ''a'', c_KeyFile = ''/etc/key'',
     c_Device = ''wsn0'', c_MAC = ''02:00:00:00:00:01'', c_Address = ''10.77.0.2/24'', c_Gateway = ''10.77.0.1'',
     c_Routes = [''192.168.5.0/24''], c_MaxFrameSize = 1600\<rparr>"

theorem key_mac_roundtrip_witness:
  "DecodeKey (EncodeKey (replicate 32 7)) = Inr (replicate 32 7)
   \<and> ParseMAC (mac_String [2, 0, 0, 0, 0, 1]) = Inr [2, 0, 0, 0, 0, 1]"
  using key_mac_roundtrip [of "replicate 32 7" "[2, 0, 0, 0, 0, 1]"] by (simp add: unicast_mac_def)

end
