(* ===== verification/Provision.thy ===== *)
theory Provision
  imports Config "HOL-Library.Char_ord" "HOL-Library.List_Lexorder" "HOL-Library.Multiset"
begin

text \<open>
  \<^verbatim>\<open>internal/provision/provision.go\<close>, what it computes: the deployment state, the
  normal forms of addresses, routes and search domains, and the effect of \<^verbatim>\<open>Init\<close>,
  \<^verbatim>\<open>AddClient\<close> and \<^verbatim>\<open>RevokeClient\<close> on the state.  The files these are stored in
  are in the theory \<open>Deploy\<close>.

  Strings are ordered by their bytes, as in Go.  The keys of a Go map that is only collected
  and sorted are the list \<open>sort (remdups keys)\<close>.  The bytes of \<^verbatim>\<open>crypto/rand\<close> are
  arguments.
\<close>

unbundle bit_operations_syntax

section \<open>State\<close>

record ProvisionedClient =
  pc_ID :: string
  pc_OS :: string
  pc_Role :: string
  pc_Address :: string
  pc_MAC :: string
  pc_Key :: string
  pc_Device :: string
  pc_Routes :: "string list"
  pc_Egress :: string

record State =
  st_Version :: int
  st_PublicIP :: string
  st_Overlay :: string
  st_Gateway :: string
  st_DNS :: string
  st_Search :: "string list"
  st_Clients :: "ProvisionedClient list"

record InitOptions =
  i_PublicIP :: string
  i_Overlay :: string
  i_Gateway :: string
  i_DNS :: string
  i_Search :: "string list"

record AddOptions =
  a_ID :: string
  a_OS :: string
  a_Role :: string
  a_Address :: string
  a_Device :: string
  a_Routes :: "string list"
  a_Egress :: string

section \<open>Addresses\<close>

definition usableAddress :: "Prefix \<Rightarrow> Addr \<Rightarrow> bool" where
  "usableAddress prefix address =
     (case (address, prefix) of
        (IPv4 addressValue, PrefixV4 networkValue bits) \<Rightarrow>
          if \<not> Contains prefix address \<or> address = Prefix_Addr prefix then False
          else
            (let netmask = (if bits > 0 then push_bit (32 - bits) (NOT 0) else 0 :: 32 word);
                 broadcast = networkValue OR NOT netmask
             in addressValue \<noteq> broadcast)
      | _ \<Rightarrow> False)"

definition PrefixFrom :: "Addr \<Rightarrow> int \<Rightarrow> Prefix" where
  "PrefixFrom address bits =
     (case address of
        IPv4 a \<Rightarrow> if 0 \<le> bits \<and> bits \<le> 32 then PrefixV4 a (nat bits) else InvalidPrefix
      | InvalidAddr \<Rightarrow> InvalidPrefix)"

definition normalizeAddress :: "string \<Rightarrow> Prefix \<Rightarrow> Prefix res" where
  "normalizeAddress v overlay =
     (case ParseAddr v of
        Inl _ \<Rightarrow> Inl (Err ''address must be a usable IPv4 address inside overlay'')
      | Inr address \<Rightarrow>
          if \<not> usableAddress overlay address
          then Inl (Err ''address must be a usable IPv4 address inside overlay'')
          else Inr (PrefixFrom address (Bits overlay)))"

definition provision_prefixesOverlap :: "Prefix \<Rightarrow> Prefix \<Rightarrow> bool" where
  "provision_prefixesOverlap a b \<longleftrightarrow> Contains a (Prefix_Addr b) \<or> Contains b (Prefix_Addr a)"

interpretation provision_overlap: overlap_test provision_prefixesOverlap
  by (rule overlap_testI) (simp add: provision_prefixesOverlap_def)

fun route_keys :: "Prefix \<Rightarrow> string list \<Rightarrow> string list res" where
  "route_keys overlay [] = Inr []"
| "route_keys overlay (v # rest) =
     (case ParsePrefix (TrimSpace v) of
        Inl _ \<Rightarrow> Inl (Errf ''invalid canonical IPv4 route %q'' [v])
      | Inr prefix \<Rightarrow>
          if prefix \<noteq> Masked prefix then Inl (Errf ''invalid canonical IPv4 route %q'' [v])
          else if provision_prefixesOverlap prefix overlay
          then Inl (Errf ''route %q overlaps overlay %q'' [Prefix_String prefix, Prefix_String overlay])
          else and_then (route_keys overlay rest) (\<lambda>ks. Inr (Prefix_String prefix # ks)))"

definition normalizeRoutes :: "string list \<Rightarrow> Prefix \<Rightarrow> string list res" where
  "normalizeRoutes values overlay =
     and_then (route_keys overlay values) (\<lambda>unique. Inr (sort (remdups unique)))"

section \<open>Names\<close>

definition domain_char :: "char \<Rightarrow> bool" where
  "domain_char c \<longleftrightarrow> (let n = (of_char c :: nat) in
     (97 \<le> n \<and> n \<le> 122) \<or> (65 \<le> n \<and> n \<le> 90) \<or> (48 \<le> n \<and> n \<le> 57) \<or> c = CHR ''-'')"

definition safe_label :: "string \<Rightarrow> bool" where
  "safe_label label \<longleftrightarrow>
     \<not> (length label < 1 \<or> length label > 63 \<or> hd label = CHR ''-'' \<or> label ! (length label - 1) = CHR ''-'')
     \<and> list_all domain_char label"

definition safeDomainName :: "string \<Rightarrow> bool" where
  "safeDomainName v =
     (if length v < 1 \<or> length v > 253 then False else list_all safe_label (Split CHR ''.'' v))"

fun domain_keys :: "string list \<Rightarrow> string list res" where
  "domain_keys [] = Inr []"
| "domain_keys (v # rest) =
     (let domain = trim_char CHR ''.'' (TrimSpace v) in
      if domain = '''' then domain_keys rest
      else if \<not> safeDomainName domain then Inl (Errf ''invalid DNS search domain %q'' [v])
      else and_then (domain_keys rest) (\<lambda>ks. Inr (ToLower domain # ks)))"

definition normalizeSearchDomains :: "string list \<Rightarrow> string list res" where
  "normalizeSearchDomains values = and_then (domain_keys values) (\<lambda>unique. Inr (sort (remdups unique)))"

definition normalizeResolver :: "string \<Rightarrow> string list \<Rightarrow> Prefix \<Rightarrow> (string \<times> string list) res" where
  "normalizeResolver v domains overlay =
     (let resolver = TrimSpace v in
      and_then (normalizeSearchDomains domains) (\<lambda>search.
      if resolver = '''' then
        (if length search > 0 then Inl (Err ''search domains require a dns server'') else Inr ('''', []))
      else (case ParseAddr resolver of
          Inl _ \<Rightarrow> Inl (Err ''dns must be an IPv4 address'')
        | Inr address \<Rightarrow>
            if Contains overlay address then Inl (Err ''dns must be a corporate address outside the overlay'')
            else if length search = 0 then Inl (Err ''dns requires at least one search domain'')
            else Inr (Addr_String address, search))))"

definition safeInterfaceName :: "string \<Rightarrow> bool" where
  "safeInterfaceName v = (if length v < 1 \<or> length v > 64 then False else list_all id_char v)"

section \<open>Randomness\<close>

definition randomMAC :: "bytes res \<Rightarrow> bytes res" where
  "randomMAC rnd = and_then rnd (\<lambda>mac. Inr (mac[0 := (mac ! 0 OR 2) AND 0xFE]))"

section \<open>Init\<close>

text \<open>What \<^verbatim>\<open>Init\<close> decides: the address the certificates are for, and the state to save.\<close>

definition init_state :: "InitOptions \<Rightarrow> (Addr \<times> State) res" where
  "init_state options =
     (case ParseAddr (i_PublicIP options) of
        Inl _ \<Rightarrow> Inl (Err ''public-ip must be an IPv4 address'')
      | Inr publicIP \<Rightarrow>
     (case ParsePrefix (i_Overlay options) of
        Inl _ \<Rightarrow> Inl (Err ''overlay must be a canonical IPv4 prefix with at least two usable addresses'')
      | Inr overlay \<Rightarrow>
          if overlay \<noteq> Masked overlay \<or> Bits overlay > 30
          then Inl (Err ''overlay must be a canonical IPv4 prefix with at least two usable addresses'')
          else
     (case ParseAddr (i_Gateway options) of
        Inl _ \<Rightarrow> Inl (Err ''gateway must be a usable address inside overlay'')
      | Inr gateway \<Rightarrow>
          if \<not> usableAddress overlay gateway
          then Inl (Err ''gateway must be a usable address inside overlay'')
          else
     and_then (normalizeResolver (i_DNS options) (i_Search options) overlay) (\<lambda>(dns, search).
     Inr (publicIP,
          \<lparr>st_Version = 1, st_PublicIP = Addr_String publicIP, st_Overlay = Prefix_String overlay,
           st_Gateway = Addr_String gateway, st_DNS = dns, st_Search = search, st_Clients = []\<rparr>)))))"

section \<open>AddClient\<close>

definition add_role :: "AddOptions \<Rightarrow> AddOptions res" where
  "add_role options0 =
     (if a_OS options0 \<noteq> ''linux'' \<and> a_OS options0 \<noteq> ''windows'' then Inl (Err ''os must be linux or windows'')
      else
        (let options = (if a_Role options0 = '''' then options0\<lparr>a_Role := ''client''\<rparr> else options0) in
         if a_Role options \<noteq> ''client'' \<and> a_Role options \<noteq> ''gateway''
         then Inl (Err ''role must be client or gateway'')
         else if a_Role options = ''gateway'' \<and> a_OS options \<noteq> ''linux''
         then Inl (Err ''gateway role requires linux'')
         else if a_Role options = ''gateway'' \<and> a_Egress options = ''''
         then Inl (Err ''gateway role requires egress interface'')
         else Inr options))"

fun add_conflicts :: "AddOptions \<Rightarrow> Prefix \<Rightarrow> ProvisionedClient list \<Rightarrow> unit res" where
  "add_conflicts options address [] = Inr ()"
| "add_conflicts options address (existing # rest) =
     (if pc_ID existing = a_ID options then Inl (Errf ''client %q already exists'' [a_ID options])
      else if pc_Address existing = Prefix_String address
      then Inl (Errf ''address %q is already assigned'' [Prefix_String address])
      else if a_Role options = ''gateway'' \<and> pc_Role existing = ''gateway''
      then Inl (Err ''deployment already has a gateway client'')
      else add_conflicts options address rest)"

definition add_gateway_address :: "State \<Rightarrow> AddOptions \<Rightarrow> Prefix \<Rightarrow> unit res" where
  "add_gateway_address state options address =
     (let gatewayAddress = parsed_addr (st_Gateway state) in
      if a_Role options = ''gateway'' \<and> Prefix_Addr address \<noteq> gatewayAddress
      then Inl (Err ''gateway client must use the configured gateway address'')
      else if a_Role options \<noteq> ''gateway'' \<and> Prefix_Addr address = gatewayAddress
      then Inl (Err ''regular client cannot use the configured gateway address'')
      else Inr ())"

definition add_routes :: "State \<Rightarrow> AddOptions \<Rightarrow> Prefix \<Rightarrow> string list res" where
  "add_routes state options overlay =
     and_then (normalizeRoutes (a_Routes options) overlay) (\<lambda>routes.
     if a_Role options = ''gateway'' \<and> length routes = 0
     then Inl (Err ''gateway requires at least one corporate destination route'')
     else if st_DNS state \<noteq> '''' \<and> a_Role options \<noteq> ''gateway''
       \<and> \<not> list_ex (\<lambda>route. Contains (parsed route) (parsed_addr (st_DNS state))) routes
     then Inl (Errf ''corporate DNS server %s is not inside any route of this client; add the CIDR containing it to -routes''
            [st_DNS state])
     else Inr routes)"

definition add_device :: "AddOptions \<Rightarrow> AddOptions res" where
  "add_device options0 =
     (let options =
        (if a_Device options0 = '''' then
           (if a_OS options0 = ''windows'' then options0\<lparr>a_Device := ''WSN-'' @ a_ID options0\<rparr>
            else options0\<lparr>a_Device := ''wsn0''\<rparr>)
         else options0)
      in if \<not> safeInterfaceName (a_Device options) then Inl (Err ''device contains unsupported characters'')
         else if a_OS options = ''linux'' \<and> length (a_Device options) \<ge> 16
         then Inl (Err ''Linux TAP device name must be shorter than 16 bytes'')
         else if a_Egress options \<noteq> '''' \<and> \<not> safeInterfaceName (a_Egress options)
         then Inl (Err ''egress contains unsupported characters'')
         else Inr options)"

text \<open>
  What \<^verbatim>\<open>AddClient\<close> decides, between loading the state and saving it: the new client and
  the new state.  \<open>key\<close> and \<open>rnd\<close> are what \<^verbatim>\<open>rand.Read\<close> gives for the key and for the
  address.
\<close>

definition add_client :: "State \<Rightarrow> AddOptions \<Rightarrow> bytes res \<Rightarrow> bytes res \<Rightarrow> (ProvisionedClient \<times> State) res" where
  "add_client state options key rnd =
     and_then (ValidateID (a_ID options)) (\<lambda>_.
     and_then (add_role options) (\<lambda>options.
     let overlay = parsed (st_Overlay state) in
     and_then (normalizeAddress (a_Address options) overlay) (\<lambda>address.
     and_then (add_conflicts options address (st_Clients state)) (\<lambda>_.
     and_then (add_gateway_address state options address) (\<lambda>_.
     and_then (add_routes state options overlay) (\<lambda>routes.
     and_then (add_device options) (\<lambda>options.
     and_then key (\<lambda>key.
     and_then (randomMAC rnd) (\<lambda>mac.
     let client = \<lparr>pc_ID = a_ID options, pc_OS = a_OS options, pc_Role = a_Role options,
           pc_Address = Prefix_String address, pc_MAC = mac_String mac, pc_Key = EncodeKey key,
           pc_Device = a_Device options, pc_Routes = routes, pc_Egress = a_Egress options\<rparr>
     in Inr (client, state\<lparr>st_Clients := sort_key pc_ID (st_Clients state @ [client])\<rparr>))))))))))"

section \<open>RevokeClient\<close>

fun revoke_loop :: "string \<Rightarrow> ProvisionedClient list \<Rightarrow> ProvisionedClient list \<times> bool" where
  "revoke_loop cid [] = ([], False)"
| "revoke_loop cid (client # rest) =
     (case revoke_loop cid rest of (result, found) \<Rightarrow>
        if pc_ID client = cid then (result, True) else (client # result, found))"

definition revoke_client :: "State \<Rightarrow> string \<Rightarrow> State res" where
  "revoke_client state cid =
     (case revoke_loop cid (st_Clients state) of (result, found) \<Rightarrow>
        if \<not> found then Inl (Errf ''client %q does not exist'' [cid])
        else Inr (state\<lparr>st_Clients := result\<rparr>))"

section \<open>Rendered configurations\<close>

text \<open>The relay configuration that \<^verbatim>\<open>writeRelayConfig\<close> saves.\<close>

definition relay_config :: "State \<Rightarrow> Relay" where
  "relay_config state =
     \<lparr>r_Listen = ''0.0.0.0:8080'', r_Path = ''/wsn'', r_HealthPath = ''/healthz'',
      r_MaxFrameSize = DefaultMaxFrameSize, r_ClientQueueSize = 256, r_HandshakeTimeoutMS = 10000,
      r_IdleTimeoutMS = 90000, r_MaxPendingHandshakes = 32,
      r_Clients = map (\<lambda>client. \<lparr>rc_ID = pc_ID client, rc_Key = pc_Key client, rc_MAC = pc_MAC client\<rparr>) (st_Clients state)\<rparr>"

text \<open>The client configuration that \<^verbatim>\<open>renderBundle\<close> puts into a bundle; a backslash is byte 92.\<close>

definition bundle_config :: "State \<Rightarrow> ProvisionedClient \<Rightarrow> Client" where
  "bundle_config state client =
     (let windows = (pc_OS client = ''windows'');
          configPath = (if windows then ''C:'' @ [CHR 0x5C] @ ''ProgramData'' @ [CHR 0x5C] @ ''WSN'' else ''/etc/wsn'');
          separator = (if windows then [CHR 0x5C] else ''/'')
      in \<lparr>c_Server = ''wss://'' @ st_PublicIP state @ ''/wsn'',
          c_CAFile = configPath @ separator @ ''relay-ca.crt'', c_ID = pc_ID client,
          c_KeyFile = configPath @ separator @ ''client.key'', c_Device = pc_Device client,
          c_MAC = pc_MAC client, c_Address = pc_Address client, c_Gateway = st_Gateway state,
          c_Routes = pc_Routes client, c_MaxFrameSize = DefaultMaxFrameSize\<rparr>)"

definition bundle_os :: "ProvisionedClient \<Rightarrow> GOOS" where
  "bundle_os client = (if pc_OS client = ''windows'' then Windows else Unix)"

section \<open>Usable addresses\<close>

lemma split_word:
  fixes a b :: "'a::len word"
  shows "a = b \<longleftrightarrow> drop_bit k a = drop_bit k b \<and> take_bit k a = take_bit k b"
proof
  assume eq: "drop_bit k a = drop_bit k b \<and> take_bit k a = take_bit k b"
  show "a = b"
  proof (rule bit_word_eqI)
    fix i assume "i < LENGTH('a)"
    show "bit a i = bit b i"
    proof (cases "i < k")
      case True
      then show ?thesis using eq bit_take_bit_iff [of k a i] bit_take_bit_iff [of k b i] by simp
    next
      case False
      then have "bit a i = bit (drop_bit k a) (i - k)" "bit b i = bit (drop_bit k b) (i - k)"
        by (simp_all add: bit_drop_bit_eq)
      then show ?thesis using eq by simp
    qed
  qed
qed simp

lemma not_netmask:
  assumes "n \<le> 32"
  shows "NOT (if n > 0 then push_bit (32 - n) (NOT 0) else 0 :: 32 word) = mask (32 - n)"
proof (rule bit_word_eqI)
  fix i assume "i < LENGTH(32)"
  then show "bit (NOT (if n > 0 then push_bit (32 - n) (NOT 0) else 0 :: 32 word)) i = bit (mask (32 - n) :: 32 word) i"
    using assms by (auto simp: bit_simps)
qed

lemma usableAddress_host:
  assumes "n \<le> 32" and "Masked (PrefixV4 p n) = PrefixV4 p n"
  shows "usableAddress (PrefixV4 p n) (IPv4 a) \<longleftrightarrow>
    a \<in> prefix_set (PrefixV4 p n) \<and> take_bit (32 - n) a \<noteq> 0 \<and> take_bit (32 - n) a \<noteq> mask (32 - n)"
proof -
  let ?k = "32 - n"
  have p: "push_bit ?k (drop_bit ?k p) = p" using assms(2) by simp
  have tp: "take_bit ?k p = 0" by (subst p [symmetric]) (rule bit_word_eqI, simp add: bit_simps)
  have tb: "take_bit ?k (p OR mask ?k) = mask ?k" using tp by (simp add: take_bit_or)
  have db: "drop_bit ?k (p OR mask ?k) = drop_bit ?k p"
    by (rule bit_word_eqI) (auto simp: bit_simps)
  have net: "a = p \<longleftrightarrow> take_bit ?k a = 0" if "drop_bit ?k a = drop_bit ?k p"
    using split_word [of a p ?k] that tp by simp
  have bc: "a = p OR mask ?k \<longleftrightarrow> take_bit ?k a = mask ?k" if "drop_bit ?k a = drop_bit ?k p"
    using split_word [of a "p OR mask ?k" ?k] that tb db by simp
  have "usableAddress (PrefixV4 p n) (IPv4 a) \<longleftrightarrow> a \<in> prefix_set (PrefixV4 p n) \<and> a \<noteq> p \<and> a \<noteq> p OR mask ?k"
    using not_netmask [OF assms(1)] by (auto simp: usableAddress_def Let_def Contains_prefix_set simp del: Contains.simps)
  then show ?thesis using net bc by (auto simp: prefix_set_V4)
qed

lemma usableAddress_IPv4: "usableAddress p a \<Longrightarrow> \<exists>x. a = IPv4 x \<and> x \<in> prefix_set p"
  by (auto simp: usableAddress_def Contains_prefix_set simp del: Contains.simps split: Addr.splits Prefix.splits if_splits)

lemma normalizeAddress_Inr:
  assumes "n \<le> 32"
  shows "normalizeAddress v (PrefixV4 p n) = Inr q \<longleftrightarrow>
    (\<exists>a. ParseAddr v = Inr (IPv4 a) \<and> usableAddress (PrefixV4 p n) (IPv4 a) \<and> q = PrefixV4 a n)"
proof (cases "ParseAddr v")
  case (Inr x)
  with assms show ?thesis
    using usableAddress_IPv4 [of "PrefixV4 p n" x] by (cases x) (auto simp: normalizeAddress_def PrefixFrom_def)
qed (simp add: normalizeAddress_def)

text \<open>
  Addresses handed out are host addresses: for a canonical prefix, \<^verbatim>\<open>usableAddress\<close> accepts an
  address exactly when it is inside and its host part is neither all zeros, the network,
  nor all ones, the broadcast address.
\<close>

lemma usableAddress_exact:
  assumes "n \<le> 32" and "Masked (PrefixV4 p n) = PrefixV4 p n"
  shows "usableAddress (PrefixV4 p n) (IPv4 a) \<longleftrightarrow>
    a \<in> prefix_set (PrefixV4 p n) \<and> take_bit (32 - n) a \<noteq> 0 \<and> take_bit (32 - n) a \<noteq> mask (32 - n)"
  using usableAddress_host [OF assms] .

section \<open>Routes\<close>

lemma route_keys_Inr:
  "route_keys overlay vs = Inr ks \<Longrightarrow>
     \<exists>ps. map (\<lambda>v. ParsePrefix (TrimSpace v)) vs = map Inr ps \<and> ks = map Prefix_String ps
       \<and> (\<forall>p \<in> set ps. Masked p = p \<and> \<not> provision_prefixesOverlap p overlay)"
proof (induction vs arbitrary: ks)
  case Nil
  then show ?case by simp
next
  case (Cons v vs)
  then obtain p ks' where p: "ParsePrefix (TrimSpace v) = Inr p" "Masked p = p" "\<not> provision_prefixesOverlap p overlay"
    and ks': "route_keys overlay vs = Inr ks'" "ks = Prefix_String p # ks'"
    by (auto simp: wsn_res split: sum.splits if_splits)
  from Cons.IH [OF ks'(1)] obtain ps where "map (\<lambda>v. ParsePrefix (TrimSpace v)) vs = map Inr ps" "ks' = map Prefix_String ps"
    "\<forall>p \<in> set ps. Masked p = p \<and> \<not> provision_prefixesOverlap p overlay" by blast
  with p ks' show ?case by (intro exI [of _ "p # ps"]) simp
qed

text \<open>A route in normal form, outside the overlay.\<close>

definition route_ok :: "Prefix \<Rightarrow> string \<Rightarrow> bool" where
  "route_ok overlay r \<longleftrightarrow>
     (\<exists>p. r = Prefix_String p \<and> valid_prefix p \<and> Masked p = p \<and> prefix_set p \<inter> prefix_set overlay = {})"

definition normal_routes :: "Prefix \<Rightarrow> string list \<Rightarrow> bool" where
  "normal_routes overlay rs \<longleftrightarrow> sorted rs \<and> distinct rs \<and> list_all (route_ok overlay) rs"

lemma normalizeRoutes_ok:
  assumes "valid_prefix overlay" and "normalizeRoutes vs overlay = Inr rs"
  shows "normal_routes overlay rs"
    and "set rs = {Prefix_String p | p v. v \<in> set vs \<and> ParsePrefix (TrimSpace v) = Inr p}"
proof -
  obtain ks where ks: "route_keys overlay vs = Inr ks" "rs = sort (remdups ks)"
    using assms(2) by (auto simp: normalizeRoutes_def wsn_res)
  obtain ps where ps: "map (\<lambda>v. ParsePrefix (TrimSpace v)) vs = map Inr ps" "ks = map Prefix_String ps"
    "\<forall>p \<in> set ps. Masked p = p \<and> \<not> provision_prefixesOverlap p overlay" using route_keys_Inr [OF ks(1)] by blast
  have mem: "p \<in> set ps \<longleftrightarrow> (\<exists>v \<in> set vs. ParsePrefix (TrimSpace v) = Inr p)" for p
  proof -
    have "p \<in> set ps \<longleftrightarrow> (Inr p :: Prefix res) \<in> set (map Inr ps)" by auto
    also have "\<dots> \<longleftrightarrow> (\<exists>v \<in> set vs. ParsePrefix (TrimSpace v) = Inr p)"
      unfolding ps(1) [symmetric] by (metis (no_types, lifting) imageE imageI image_set)
    finally show ?thesis .
  qed
  have val: "valid_prefix p" if "p \<in> set ps" for p using that mem ParsePrefix_valid by blast
  then have "route_ok overlay (Prefix_String p)" if "p \<in> set ps" for p
    using that ps(3) provision_overlap.ov_meet [OF val assms(1)] unfolding route_ok_def by blast
  then show "normal_routes overlay rs" by (auto simp: normal_routes_def ks(2) ps(2) list_all_iff)
  show "set rs = {Prefix_String p | p v. v \<in> set vs \<and> ParsePrefix (TrimSpace v) = Inr p}"
  proof -
    have "set rs = Prefix_String ` set ps" by (simp add: ks(2) ps(2))
    also have "set ps = {p. \<exists>v. v \<in> set vs \<and> ParsePrefix (TrimSpace v) = Inr p}" using mem by blast
    finally show ?thesis by blast
  qed
qed

lemma TrimSpace_prefix: "valid_prefix p \<Longrightarrow> TrimSpace (Prefix_String p) = Prefix_String p"
proof (cases p)
  case (PrefixV4 a n)
  have "32 < (of_char c :: nat) \<and> (of_char c :: nat) < 128" if "c \<in> set (Prefix_String p)" for c
  proof -
    have "c \<in> set (Join ''.'' (map show_nat (octets a))) \<or> c = CHR 0x2F \<or> c \<in> set (show_nat n)"
      using that PrefixV4 by auto
    then have "c = CHR ''.'' \<or> c = CHR 0x2F \<or> (\<exists>k. c \<in> set (show_nat k))"
      using set_Join [of "''.''" "map show_nat (octets a)"] by auto
    then show ?thesis using show_nat_digits by fastforce
  qed
  then show ?thesis by (intro TrimSpace_ascii_id) blast
qed simp

lemma route_keys_normal:
  assumes "valid_prefix overlay" and "list_all (route_ok overlay) rs"
  shows "route_keys overlay rs = Inr rs"
  using assms(2)
proof (induction rs)
  case (Cons r rs)
  then obtain p where p: "r = Prefix_String p" "valid_prefix p" "Masked p = p" "prefix_set p \<inter> prefix_set overlay = {}"
    by (auto simp: route_ok_def)
  have "ParsePrefix (TrimSpace r) = Inr p" using p TrimSpace_prefix prefix_text.dec_enc by simp
  moreover have "\<not> provision_prefixesOverlap p overlay" using p provision_overlap.ov_meet [OF p(2) assms(1)] by blast
  ultimately show ?case using Cons p by simp
qed simp

text \<open>
  C40. Route lists have one normal form.  For a valid overlay, the result is sorted and has no
  duplicates; it denotes exactly the prefixes given; each is canonical and has
  no address in common with the overlay; and normalizing it again changes nothing.
\<close>

theorem normalizeRoutes_normal_form:
  assumes "valid_prefix overlay" and "normalizeRoutes vs overlay = Inr rs"
  shows "sorted rs \<and> distinct rs
    \<and> set rs = {Prefix_String p | p v. v \<in> set vs \<and> ParsePrefix (TrimSpace v) = Inr p}
    \<and> (\<forall>r \<in> set rs. \<exists>p. ParsePrefix r = Inr p \<and> Masked p = p \<and> prefix_set p \<inter> prefix_set overlay = {})
    \<and> normalizeRoutes rs overlay = Inr rs"
proof -
  note n = normalizeRoutes_ok [OF assms]
  have "list_all (route_ok overlay) rs" using n(1) by (simp add: normal_routes_def)
  then have "normalizeRoutes rs overlay = Inr rs"
    using n(1) route_keys_normal [OF assms(1)] by (simp add: normalizeRoutes_def normal_routes_def sorted_sort_id)
  moreover have "\<exists>p. ParsePrefix r = Inr p \<and> Masked p = p \<and> prefix_set p \<inter> prefix_set overlay = {}" if "r \<in> set rs" for r
    using n(1) that prefix_text.dec_enc unfolding normal_routes_def list_all_iff route_ok_def by metis
  ultimately show ?thesis using n unfolding normal_routes_def by blast
qed

theorem normalizeRoutes_normal_form_witness:
  "normalizeRoutes ['' 192.168.7.0/24'', ''10.1.0.0/16'', ''192.168.7.0/24''] (PrefixV4 0x0A4D0000 24)
     = Inr [''10.1.0.0/16'', ''192.168.7.0/24'']
   \<and> normalizeRoutes [''10.1.0.0/16'', ''192.168.7.0/24''] (PrefixV4 0x0A4D0000 24) = Inr [''10.1.0.0/16'', ''192.168.7.0/24'']"
proof -
  have "normalizeRoutes ['' 192.168.7.0/24'', ''10.1.0.0/16'', ''192.168.7.0/24''] (PrefixV4 0x0A4D0000 24)
     = Inr [''10.1.0.0/16'', ''192.168.7.0/24'']" by code_simp
  with normalizeRoutes_normal_form [OF _ this] show ?thesis by simp
qed

section \<open>The invariant of the deployment state\<close>

definition search_ok :: "string list \<Rightarrow> bool" where
  "search_ok ds \<longleftrightarrow> sorted ds \<and> distinct ds \<and> (\<forall>d \<in> set ds. \<exists>x. safeDomainName x \<and> d = ToLower x)"

definition resolver_ok :: "Prefix \<Rightarrow> State \<Rightarrow> bool" where
  "resolver_ok overlay st \<longleftrightarrow>
     (st_DNS st = '''' \<and> st_Search st = [])
     \<or> (\<exists>d. st_DNS st = Addr_String (IPv4 d) \<and> d \<notin> prefix_set overlay \<and> st_Search st \<noteq> [] \<and> search_ok (st_Search st))"

text \<open>One client of a deployment with this overlay, gateway address and resolver.\<close>

definition pclient_ok :: "ipv4 \<Rightarrow> nat \<Rightarrow> ipv4 \<Rightarrow> State \<Rightarrow> ProvisionedClient \<Rightarrow> bool" where
  "pclient_ok net n gw st c \<longleftrightarrow>
     ValidateID (pc_ID c) = Inr ()
     \<and> (pc_OS c = ''linux'' \<or> pc_OS c = ''windows'') \<and> (pc_Role c = ''client'' \<or> pc_Role c = ''gateway'')
     \<and> (\<exists>a. pc_Address c = Prefix_String (PrefixV4 a n) \<and> usableAddress (PrefixV4 net n) (IPv4 a)
          \<and> (pc_Role c = ''gateway'' \<longleftrightarrow> a = gw))
     \<and> (\<exists>mac. pc_MAC c = mac_String mac \<and> unicast_mac mac)
     \<and> (\<exists>key. pc_Key c = EncodeKey key \<and> length key = 32)
     \<and> safeInterfaceName (pc_Device c) \<and> (pc_OS c = ''linux'' \<longrightarrow> length (pc_Device c) < 16)
     \<and> normal_routes (PrefixV4 net n) (pc_Routes c)
     \<and> (pc_Role c = ''gateway'' \<longrightarrow> pc_OS c = ''linux'' \<and> pc_Egress c \<noteq> '''' \<and> pc_Routes c \<noteq> [])
     \<and> (pc_Egress c \<noteq> '''' \<longrightarrow> safeInterfaceName (pc_Egress c))
     \<and> (pc_Role c = ''client'' \<and> st_DNS st \<noteq> '''' \<longrightarrow>
          list_ex (\<lambda>r. Contains (parsed r) (parsed_addr (st_DNS st))) (pc_Routes c))"

definition state_ok :: "State \<Rightarrow> bool" where
  "state_ok st \<longleftrightarrow>
     st_Version st = 1 \<and> (\<exists>ip. st_PublicIP st = Addr_String (IPv4 ip))
     \<and> (\<exists>net n gw. st_Overlay st = Prefix_String (PrefixV4 net n) \<and> n \<le> 30
          \<and> Masked (PrefixV4 net n) = PrefixV4 net n
          \<and> st_Gateway st = Addr_String (IPv4 gw) \<and> usableAddress (PrefixV4 net n) (IPv4 gw)
          \<and> resolver_ok (PrefixV4 net n) st
          \<and> list_all (pclient_ok net n gw st) (st_Clients st))
     \<and> sorted (map pc_ID (st_Clients st)) \<and> distinct (map pc_ID (st_Clients st))
     \<and> distinct (map pc_Address (st_Clients st))
     \<and> length (filter (\<lambda>c. pc_Role c = ''gateway'') (st_Clients st)) \<le> 1"

lemma domain_keys_Inr:
  "domain_keys vs = Inr ks \<Longrightarrow> d \<in> set ks \<Longrightarrow> \<exists>x. safeDomainName x \<and> d = ToLower x"
  by (induction vs arbitrary: ks) (auto simp: Let_def wsn_res split: if_splits)

lemma normalizeSearchDomains_Inr: "normalizeSearchDomains vs = Inr ds \<Longrightarrow> search_ok ds"
  using domain_keys_Inr by (auto simp: normalizeSearchDomains_def search_ok_def wsn_res)

lemma normalizeResolver_Inr:
  assumes "normalizeResolver v domains overlay = Inr (dns, search)"
  shows "(dns = '''' \<and> search = [])
    \<or> (\<exists>d. dns = Addr_String (IPv4 d) \<and> d \<notin> prefix_set overlay \<and> search \<noteq> [] \<and> search_ok search)"
proof (cases "TrimSpace v = ''''")
  case True
  then show ?thesis using assms by (auto simp: normalizeResolver_def Let_def wsn_res split: if_splits)
next
  case False
  then obtain a where a: "ParseAddr (TrimSpace v) = Inr a" "\<not> Contains overlay a" "search \<noteq> []" "dns = Addr_String a"
    "normalizeSearchDomains domains = Inr search"
    using assms by (cases "ParseAddr (TrimSpace v)") (auto simp: normalizeResolver_def Let_def wsn_res split: if_splits)
  then obtain d where "a = IPv4 d" using ParseAddr_valid by (cases a) force+
  with a normalizeSearchDomains_Inr [OF a(5)] show ?thesis by (auto simp: Contains_prefix_set simp del: Contains.simps Addr_String.simps)
qed

lemma init_state_ok:
  assumes "init_state options = Inr (ip, st)"
  shows "state_ok st"
proof -
  obtain a ov g dns search where a: "ParseAddr (i_PublicIP options) = Inr a" and ov: "ParsePrefix (i_Overlay options) = Inr ov"
    "Masked ov = ov" "Bits ov \<le> 30" and g: "ParseAddr (i_Gateway options) = Inr g" "usableAddress ov g"
    and r: "normalizeResolver (i_DNS options) (i_Search options) ov = Inr (dns, search)"
    and st: "st = \<lparr>st_Version = 1, st_PublicIP = Addr_String a, st_Overlay = Prefix_String ov,
           st_Gateway = Addr_String g, st_DNS = dns, st_Search = search, st_Clients = []\<rparr>"
    using assms by (auto simp: init_state_def wsn_res split: sum.splits if_splits)
  obtain ip' where "a = IPv4 ip'" using a ParseAddr_valid by (cases a) force+
  moreover obtain net n where "ov = PrefixV4 net n" using ov(1) ParsePrefix_valid by (cases ov) force+
  moreover obtain gw where "g = IPv4 gw" using g(1) ParseAddr_valid by (cases g) force+
  ultimately show ?thesis
    using ov g normalizeResolver_Inr [OF r] st
    unfolding state_ok_def resolver_ok_def by auto
qed

section \<open>Adding a client\<close>

lemma add_role_Inr:
  assumes "add_role options = Inr options'"
  shows "options' = options\<lparr>a_Role := (if a_Role options = '''' then ''client'' else a_Role options)\<rparr>"
    and "a_OS options' = ''linux'' \<or> a_OS options' = ''windows''"
    and "a_Role options' = ''client'' \<or> a_Role options' = ''gateway''"
    and "a_Role options' = ''gateway'' \<Longrightarrow> a_OS options' = ''linux'' \<and> a_Egress options' \<noteq> ''''"
  using assms by (auto simp: add_role_def Let_def split: if_splits)

lemma add_conflicts_Inr:
  "add_conflicts options address cs = Inr () \<longleftrightarrow>
     (\<forall>c \<in> set cs. pc_ID c \<noteq> a_ID options \<and> pc_Address c \<noteq> Prefix_String address
        \<and> \<not> (a_Role options = ''gateway'' \<and> pc_Role c = ''gateway''))"
  by (induction cs) auto

lemma add_device_Inr:
  assumes "add_device options = Inr options'"
  shows "\<exists>d. options' = options\<lparr>a_Device := d\<rparr> \<and> safeInterfaceName d"
    and "a_OS options' = ''linux'' \<Longrightarrow> length (a_Device options') < 16"
    and "a_Egress options' \<noteq> '''' \<Longrightarrow> safeInterfaceName (a_Egress options')"
  using assms by (auto simp: add_device_def Let_def split: if_splits intro: exI [of _ "a_Device options"])

lemma randomMAC_unicast:
  assumes "length raw = 6"
  shows "\<exists>mac. randomMAC (Inr raw) = Inr mac \<and> unicast_mac mac \<and> bit (mac ! 0) 1 \<and> drop 1 mac = drop 1 raw"
proof -
  let ?mac = "raw[0 := (raw ! 0 OR 2) AND 0xFE]"
  have "(raw ! 0 OR 2) AND 0xFE AND 1 = (0 :: byte)" by (simp add: and.assoc)
  moreover have "bit ((raw ! 0 OR 2) AND 0xFE) 1" by (simp add: bit_simps)
  ultimately show ?thesis using assms by (simp add: randomMAC_def unicast_mac_def and.assoc)
qed

lemma add_client_Inr:
  assumes add: "add_client st options key rnd = Inr (c, st')"
    and ov: "parsed (st_Overlay st) = PrefixV4 net n" and n: "n \<le> 32"
    and gw: "parsed_addr (st_Gateway st) = IPv4 gw"
  obtains k raw a where "key = Inr k" "rnd = Inr raw" "ValidateID (pc_ID c) = Inr ()" "pc_ID c = a_ID options"
    "pc_OS c = ''linux'' \<or> pc_OS c = ''windows''" "pc_Role c = ''client'' \<or> pc_Role c = ''gateway''"
    "pc_Role c = ''gateway'' \<Longrightarrow> pc_OS c = ''linux'' \<and> pc_Egress c \<noteq> '''' \<and> pc_Routes c \<noteq> []"
    "ParseAddr (a_Address options) = Inr (IPv4 a)" "usableAddress (PrefixV4 net n) (IPv4 a)"
    "pc_Address c = Prefix_String (PrefixV4 a n)" "pc_Role c = ''gateway'' \<longleftrightarrow> a = gw"
    "pc_Key c = EncodeKey k" "pc_MAC c = mac_String (raw[0 := (raw ! 0 OR 2) AND 0xFE])"
    "safeInterfaceName (pc_Device c)" "pc_OS c = ''linux'' \<Longrightarrow> length (pc_Device c) < 16"
    "pc_Egress c \<noteq> '''' \<Longrightarrow> safeInterfaceName (pc_Egress c)"
    "normalizeRoutes (a_Routes options) (PrefixV4 net n) = Inr (pc_Routes c)"
    "pc_Role c = ''client'' \<and> st_DNS st \<noteq> '''' \<Longrightarrow>
       list_ex (\<lambda>r. Contains (parsed r) (parsed_addr (st_DNS st))) (pc_Routes c)"
    "\<forall>d \<in> set (st_Clients st). pc_ID d \<noteq> pc_ID c \<and> pc_Address d \<noteq> pc_Address c
        \<and> \<not> (pc_Role c = ''gateway'' \<and> pc_Role d = ''gateway'')"
    "st' = st\<lparr>st_Clients := sort_key pc_ID (st_Clients st @ [c])\<rparr>"
proof -
  obtain o1 address routes o2 k raw where s: "ValidateID (a_ID options) = Inr ()" "add_role options = Inr o1"
    "normalizeAddress (a_Address o1) (PrefixV4 net n) = Inr address" "add_conflicts o1 address (st_Clients st) = Inr ()"
    "add_gateway_address st o1 address = Inr ()" "add_routes st o1 (PrefixV4 net n) = Inr routes"
    "add_device o1 = Inr o2" "key = Inr k" "rnd = Inr raw"
    and c: "c = \<lparr>pc_ID = a_ID o2, pc_OS = a_OS o2, pc_Role = a_Role o2, pc_Address = Prefix_String address,
        pc_MAC = mac_String (raw[0 := (raw ! 0 OR 2) AND 0xFE]), pc_Key = EncodeKey k,
        pc_Device = a_Device o2, pc_Routes = routes, pc_Egress = a_Egress o2\<rparr>"
    and st': "st' = st\<lparr>st_Clients := sort_key pc_ID (st_Clients st @ [c])\<rparr>"
    using add unfolding add_client_def ov by (auto simp: Let_def wsn_res randomMAC_def)
  obtain d where o2: "o2 = o1\<lparr>a_Device := d\<rparr>" "safeInterfaceName d" using add_device_Inr(1) [OF s(7)] by blast
  note o1 = add_role_Inr [OF s(2)]
  obtain a where a: "ParseAddr (a_Address o1) = Inr (IPv4 a)" "usableAddress (PrefixV4 net n) (IPv4 a)" "address = PrefixV4 a n"
    using s(3) normalizeAddress_Inr [OF n] by blast
  have gwa: "a_Role o1 = ''gateway'' \<longleftrightarrow> a = gw"
    using s(5) a(3) gw by (auto simp: add_gateway_address_def Let_def split: if_splits)
  have rt: "normalizeRoutes (a_Routes o1) (PrefixV4 net n) = Inr routes" "a_Role o1 = ''gateway'' \<Longrightarrow> routes \<noteq> []"
    "st_DNS st \<noteq> '''' \<and> a_Role o1 \<noteq> ''gateway'' \<Longrightarrow>
       list_ex (\<lambda>r. Contains (parsed r) (parsed_addr (st_DNS st))) routes"
    using s(6) by (auto simp: add_routes_def wsn_res split: if_splits)
  show thesis
    by (rule that [of k raw a])
      (use s(1,8,9) c st' o2 o1 a gwa rt add_device_Inr(2,3) [OF s(7)] s(4) [unfolded add_conflicts_Inr] in auto)
qed

lemma state_okE:
  assumes "state_ok st"
  obtains ip net n gw where "st_PublicIP st = Addr_String (IPv4 ip)" "st_Overlay st = Prefix_String (PrefixV4 net n)"
    "n \<le> 30" "Masked (PrefixV4 net n) = PrefixV4 net n" "st_Gateway st = Addr_String (IPv4 gw)"
    "usableAddress (PrefixV4 net n) (IPv4 gw)" "resolver_ok (PrefixV4 net n) st"
    "list_all (pclient_ok net n gw st) (st_Clients st)" "parsed (st_Overlay st) = PrefixV4 net n"
    "parsed_addr (st_Gateway st) = IPv4 gw"
proof -
  obtain ip net n gw where s: "st_PublicIP st = Addr_String (IPv4 ip)" "st_Overlay st = Prefix_String (PrefixV4 net n)"
    "n \<le> 30" "Masked (PrefixV4 net n) = PrefixV4 net n" "st_Gateway st = Addr_String (IPv4 gw)"
    "usableAddress (PrefixV4 net n) (IPv4 gw)" "resolver_ok (PrefixV4 net n) st"
    "list_all (pclient_ok net n gw st) (st_Clients st)" using assms unfolding state_ok_def by blast
  moreover have "parsed (st_Overlay st) = PrefixV4 net n" using s(2,3) parsed_String [of "PrefixV4 net n"] by simp
  moreover have "parsed_addr (st_Gateway st) = IPv4 gw" using s(5) parsed_addr_String by metis
  ultimately show thesis by (rule that)
qed

lemma pclient_ok_cong:
  "st_DNS st' = st_DNS st \<Longrightarrow> pclient_ok net n gw st' c = pclient_ok net n gw st c"
  by (simp add: pclient_ok_def)

lemma sort_clients:
  fixes c :: ProvisionedClient
  assumes "sorted (map pc_ID cs)" and "distinct (map pc_ID cs)" and "\<forall>d \<in> set cs. pc_ID d \<noteq> pc_ID c"
  shows "sorted (map pc_ID (sort_key pc_ID (cs @ [c])))" "distinct (map pc_ID (sort_key pc_ID (cs @ [c])))"
    "mset (sort_key pc_ID (cs @ [c])) = add_mset c (mset cs)"
proof -
  have m: "mset (sort_key pc_ID (cs @ [c])) = add_mset c (mset cs)" by simp
  show "sorted (map pc_ID (sort_key pc_ID (cs @ [c])))" by (rule sorted_sort_key)
  show "mset (sort_key pc_ID (cs @ [c])) = add_mset c (mset cs)" by (rule m)
  have "distinct (map pc_ID (cs @ [c]))" using assms(2,3) by auto
  then show "distinct (map pc_ID (sort_key pc_ID (cs @ [c])))"
    by (metis mset_map mset_sort distinct_count_atmost_1 mset_eq_imp_distinct_iff)
qed

lemma add_client_pclient:
  assumes ok: "state_ok st" and add: "add_client st options key rnd = Inr (c, st')"
    and key: "\<And>k. key = Inr k \<Longrightarrow> length k = 32" and rnd: "\<And>r. rnd = Inr r \<Longrightarrow> length r = 6"
    and s: "n \<le> 30" "parsed (st_Overlay st) = PrefixV4 net n" "parsed_addr (st_Gateway st) = IPv4 gw"
  shows "pclient_ok net n gw st c"
proof -
  have n: "n \<le> 32" using s(1) by simp
  show ?thesis
  proof (rule add_client_Inr [OF add s(2) n s(3)])
    fix k raw a
    assume a: "key = Inr k" "rnd = Inr raw" "ValidateID (pc_ID c) = Inr ()"
      "pc_OS c = ''linux'' \<or> pc_OS c = ''windows''" "pc_Role c = ''client'' \<or> pc_Role c = ''gateway''"
      "pc_Role c = ''gateway'' \<Longrightarrow> pc_OS c = ''linux'' \<and> pc_Egress c \<noteq> '''' \<and> pc_Routes c \<noteq> []"
      "usableAddress (PrefixV4 net n) (IPv4 a)" "pc_Address c = Prefix_String (PrefixV4 a n)" "pc_Role c = ''gateway'' \<longleftrightarrow> a = gw"
      "pc_Key c = EncodeKey k" "pc_MAC c = mac_String (raw[0 := (raw ! 0 OR 2) AND 0xFE])"
      "safeInterfaceName (pc_Device c)" "pc_OS c = ''linux'' \<Longrightarrow> length (pc_Device c) < 16"
      "pc_Egress c \<noteq> '''' \<Longrightarrow> safeInterfaceName (pc_Egress c)"
      "normalizeRoutes (a_Routes options) (PrefixV4 net n) = Inr (pc_Routes c)"
      "pc_Role c = ''client'' \<and> st_DNS st \<noteq> '''' \<Longrightarrow>
         list_ex (\<lambda>r. Contains (parsed r) (parsed_addr (st_DNS st))) (pc_Routes c)"
    have "unicast_mac (raw[0 := (raw ! 0 OR 2) AND 0xFE])"
      using randomMAC_unicast [OF rnd [OF a(2)]] by (simp add: randomMAC_def)
    moreover have "normal_routes (PrefixV4 net n) (pc_Routes c)"
      using normalizeRoutes_ok(1) [OF _ a(15)] n by simp
    moreover have "length k = 32" using key [OF a(1)] .
    moreover have "\<exists>x. pc_Address c = Prefix_String (PrefixV4 x n) \<and> usableAddress (PrefixV4 net n) (IPv4 x)
        \<and> (pc_Role c = ''gateway'' \<longleftrightarrow> x = gw)" using a(7-9) by blast
    ultimately show ?thesis
      using a(3-6,10-14,16) unfolding pclient_ok_def by blast
  qed
qed

lemma add_client_ok:
  assumes ok: "state_ok st" and add: "add_client st options key rnd = Inr (c, st')"
    and key: "\<And>k. key = Inr k \<Longrightarrow> length k = 32" and rnd: "\<And>r. rnd = Inr r \<Longrightarrow> length r = 6"
  shows "state_ok st'" and "mset (st_Clients st') = add_mset c (mset (st_Clients st))"
proof -
  obtain ip net n gw where s: "st_PublicIP st = Addr_String (IPv4 ip)" "st_Overlay st = Prefix_String (PrefixV4 net n)"
    "n \<le> 30" "Masked (PrefixV4 net n) = PrefixV4 net n" "st_Gateway st = Addr_String (IPv4 gw)"
    "usableAddress (PrefixV4 net n) (IPv4 gw)" "resolver_ok (PrefixV4 net n) st"
    "list_all (pclient_ok net n gw st) (st_Clients st)" "parsed (st_Overlay st) = PrefixV4 net n"
    "parsed_addr (st_Gateway st) = IPv4 gw" by (rule state_okE [OF ok])
  have c: "pclient_ok net n gw st c" by (rule add_client_pclient [OF ok add key rnd s(3,9,10)])
  have n: "n \<le> 32" using s(3) by simp
  have fresh: "\<forall>d \<in> set (st_Clients st). pc_ID d \<noteq> pc_ID c \<and> pc_Address d \<noteq> pc_Address c
      \<and> \<not> (pc_Role c = ''gateway'' \<and> pc_Role d = ''gateway'')"
    and st': "st' = st\<lparr>st_Clients := sort_key pc_ID (st_Clients st @ [c])\<rparr>"
    by (rule add_client_Inr [OF add s(9) n s(10)], simp)+
  note inv = ok [unfolded state_ok_def]
  have srt: "sorted (map pc_ID (st_Clients st'))" "distinct (map pc_ID (st_Clients st'))"
    and m: "mset (st_Clients st') = add_mset c (mset (st_Clients st))"
    using sort_clients [of "st_Clients st" c] inv fresh st' by simp_all
  show "mset (st_Clients st') = add_mset c (mset (st_Clients st))" by (rule m)
  have mem: "set (st_Clients st') = insert c (set (st_Clients st))" using m by (metis set_mset_add_mset_insert set_mset_mset)
  have "distinct (map pc_Address (st_Clients st @ [c]))" using inv fresh by auto
  moreover have "mset (map pc_Address (st_Clients st')) = mset (map pc_Address (st_Clients st @ [c]))" using m by simp
  ultimately have addr: "distinct (map pc_Address (st_Clients st'))" using mset_eq_imp_distinct_iff by blast
  let ?g = "\<lambda>c. pc_Role c = ''gateway''"
  have "mset (filter ?g (st_Clients st')) = mset (filter ?g (st_Clients st @ [c]))" using m by (simp add: mset_filter)
  then have "length (filter ?g (st_Clients st')) = length (filter ?g (st_Clients st @ [c]))" by (metis size_mset)
  moreover have "?g c \<Longrightarrow> filter ?g (st_Clients st) = []" using fresh by (simp add: filter_empty_conv)
  ultimately have one: "length (filter ?g (st_Clients st')) \<le> 1" using inv by (cases "?g c") auto
  have "pclient_ok net n gw st' = pclient_ok net n gw st"
    by (rule ext, rule pclient_ok_cong) (simp add: st')
  then have "list_all (pclient_ok net n gw st') (st_Clients st')"
    using s(8) c mem by (simp add: list_all_iff)
  moreover have "resolver_ok (PrefixV4 net n) st'" using s(7) st' by (simp add: resolver_ok_def)
  ultimately show "state_ok st'"
    using s(1-6) srt addr one inv st' unfolding state_ok_def by auto
qed

section \<open>Revoking a client\<close>

lemma revoke_loop_eq:
  "revoke_loop cid cs = (filter (\<lambda>c. pc_ID c \<noteq> cid) cs, \<exists>c \<in> set cs. pc_ID c = cid)"
  by (induction cs) auto

lemma revoke_client_Inr:
  "revoke_client st cid = Inr st' \<longleftrightarrow>
     (\<exists>c \<in> set (st_Clients st). pc_ID c = cid)
     \<and> st' = st\<lparr>st_Clients := filter (\<lambda>c. pc_ID c \<noteq> cid) (st_Clients st)\<rparr>"
  by (auto simp: revoke_client_def revoke_loop_eq)

lemma filter_filter_length: "length (filter P (filter Q xs)) \<le> length (filter P xs)"
  by (induction xs) auto

lemma sorted_map_filter: "sorted (map f xs) \<Longrightarrow> sorted (map f (filter P xs))"
  by (induction xs) (auto simp: sorted_wrt_append)

lemma revoke_client_ok:
  assumes ok: "state_ok st" and rev: "revoke_client st cid = Inr st'"
  shows "state_ok st'"
proof -
  have st': "st' = st\<lparr>st_Clients := filter (\<lambda>c. pc_ID c \<noteq> cid) (st_Clients st)\<rparr>"
    using rev by (simp add: revoke_client_Inr)
  obtain ip net n gw where s: "st_PublicIP st = Addr_String (IPv4 ip)" "st_Overlay st = Prefix_String (PrefixV4 net n)"
    "n \<le> 30" "Masked (PrefixV4 net n) = PrefixV4 net n" "st_Gateway st = Addr_String (IPv4 gw)"
    "usableAddress (PrefixV4 net n) (IPv4 gw)" "resolver_ok (PrefixV4 net n) st"
    "list_all (pclient_ok net n gw st) (st_Clients st)" by (rule state_okE [OF ok])
  have "pclient_ok net n gw st' = pclient_ok net n gw st"
    by (rule ext, rule pclient_ok_cong) (simp add: st')
  then have "list_all (pclient_ok net n gw st') (st_Clients st')" using s(8) st' by (simp add: list_all_iff)
  moreover have "resolver_ok (PrefixV4 net n) st'" using s(7) st' by (simp add: resolver_ok_def)
  moreover have "sorted (map pc_ID (st_Clients st'))" "distinct (map pc_ID (st_Clients st'))"
    "distinct (map pc_Address (st_Clients st'))"
    using ok by (simp_all add: st' state_ok_def sorted_map_filter distinct_map_filter)
  moreover have "length (filter (\<lambda>c. pc_Role c = ''gateway'') (st_Clients st')) \<le> 1"
    using ok filter_filter_length [of "\<lambda>c. pc_Role c = ''gateway''" "\<lambda>c. pc_ID c \<noteq> cid" "st_Clients st"]
    unfolding st' state_ok_def by simp
  ultimately show ?thesis
    using s(1-6) ok st' unfolding state_ok_def by auto
qed

section \<open>What is rendered can be loaded\<close>

lemma bundle_paths:
  "IsAbs (bundle_os c) (c_CAFile (bundle_config st c))" "IsAbs (bundle_os c) (c_KeyFile (bundle_config st c))"
  "c_CAFile (bundle_config st c) \<noteq> ''''" "c_KeyFile (bundle_config st c) \<noteq> ''''"
  by (auto simp: bundle_os_def bundle_config_def Let_def HasPrefix_def isSlash_def)

lemma usable_in_overlay:
  assumes "usableAddress (PrefixV4 net n) (IPv4 a)" and "usableAddress (PrefixV4 net n) (IPv4 g)"
  shows "g \<in> prefix_set (PrefixV4 a n)" and "prefix_set (PrefixV4 a n) = prefix_set (PrefixV4 net n)"
  using usableAddress_IPv4 [OF assms(1)] usableAddress_IPv4 [OF assms(2)] by (auto simp: prefix_set_V4)

lemma bundle_config_ok:
  assumes ok: "state_ok st" and c: "c \<in> set (st_Clients st)"
  shows "client_ok (bundle_os c) (bundle_config st c)"
proof -
  obtain ip net n gw where s: "st_PublicIP st = Addr_String (IPv4 ip)" "n \<le> 30" "st_Gateway st = Addr_String (IPv4 gw)"
    "usableAddress (PrefixV4 net n) (IPv4 gw)" "list_all (pclient_ok net n gw st) (st_Clients st)"
    by (rule state_okE [OF ok])
  then have p: "pclient_ok net n gw st c" using c by (simp add: list_all_iff)
  then obtain a where a: "pc_Address c = Prefix_String (PrefixV4 a n)" "usableAddress (PrefixV4 net n) (IPv4 a)"
    unfolding pclient_ok_def by blast
  have "\<exists>mac. pc_MAC c = mac_String mac \<and> unicast_mac mac" using p unfolding pclient_ok_def by blast
  then obtain mac where mac: "ParseMAC (pc_MAC c) = Inr mac" using mac_text.dec_enc by force
  have addr: "ParsePrefix (pc_Address c) = Inr (PrefixV4 a n)"
    using a(1) s(2) prefix_text.dec_enc [of "PrefixV4 a n"] by simp
  have gw: "ParseAddr (st_Gateway st) = Inr (IPv4 gw)" using s(3) addr_text.dec_enc [of "IPv4 gw"] by simp
  have "normal_routes (PrefixV4 net n) (pc_Routes c)" using p unfolding pclient_ok_def by blast
  then have "\<exists>q. ParsePrefix r = Inr q \<and> prefix_set (PrefixV4 a n) \<inter> prefix_set q = {}" if "r \<in> set (pc_Routes c)" for r
    using that prefix_text.dec_enc usable_in_overlay(2) [OF a(2) s(4)]
    unfolding normal_routes_def list_all_iff route_ok_def by (metis inf_commute)
  moreover have "gw \<in> prefix_set (PrefixV4 a n)" using usable_in_overlay(1) [OF a(2) s(4)] .
  moreover have "pc_Device c \<noteq> ''''" "ValidateID (pc_ID c) = Inr ()"
    using p by (auto simp: pclient_ok_def safeInterfaceName_def split: if_splits)
  ultimately show ?thesis
    using bundle_paths [where c = c and st = st] mac addr gw unfolding client_ok_def
    by (auto simp: bundle_config_def Let_def HasPrefix_def DefaultMaxFrameSize_def)
qed

lemma relay_config_entries:
  assumes ok: "state_ok st"
  shows "list_all entry_ok (r_Clients (relay_config st))" "distinct (map rc_ID (r_Clients (relay_config st)))"
    "distinct (map mac_of (r_Clients (relay_config st))) \<longleftrightarrow> distinct (map pc_MAC (st_Clients st))"
    "map normal_entry (r_Clients (relay_config st)) = r_Clients (relay_config st)"
proof -
  obtain net n gw where s: "list_all (pclient_ok net n gw st) (st_Clients st)" by (rule state_okE [OF ok])
  let ?f = "\<lambda>client. \<lparr>rc_ID = pc_ID client, rc_Key = pc_Key client, rc_MAC = pc_MAC client\<rparr>"
  have cs: "r_Clients (relay_config st) = map ?f (st_Clients st)" by (simp add: relay_config_def)
  have e: "entry_ok (?f c) \<and> unicast_mac (mac_of (?f c)) \<and> pc_MAC c = mac_String (mac_of (?f c))" if "c \<in> set (st_Clients st)" for c
  proof -
    have p: "pclient_ok net n gw st c" using s that by (simp add: list_all_iff)
    then obtain mac where mac: "pc_MAC c = mac_String mac" "unicast_mac mac" unfolding pclient_ok_def by blast
    obtain key where key: "pc_Key c = EncodeKey key" "length key = 32" using p unfolding pclient_ok_def by blast
    have m: "ParseMAC (pc_MAC c) = Inr mac" using mac mac_text.dec_enc by simp
    moreover have "DecodeKey (pc_Key c) = Inr key" using key key_text.dec_enc by (simp add: key32_def)
    moreover have "ValidateID (pc_ID c) = Inr ()" using p unfolding pclient_ok_def by blast
    ultimately show ?thesis using mac by (simp add: entry_ok_def mac_of_def)
  qed
  show "list_all entry_ok (r_Clients (relay_config st))" using e by (simp add: cs list_all_iff)
  show "distinct (map rc_ID (r_Clients (relay_config st)))"
    using ok by (simp add: cs comp_def state_ok_def)
  have "map pc_MAC (st_Clients st) = map mac_String (map (\<lambda>c. mac_of (?f c)) (st_Clients st))" using e by simp
  moreover have "distinct (map mac_String (map (\<lambda>c. mac_of (?f c)) (st_Clients st))) \<longleftrightarrow>
      distinct (map (\<lambda>c. mac_of (?f c)) (st_Clients st))"
    by (rule mac_text.distinct_enc) (use e in auto)
  ultimately have "distinct (map (\<lambda>c. mac_of (?f c)) (st_Clients st)) \<longleftrightarrow> distinct (map pc_MAC (st_Clients st))"
    by (simp only:)
  then show "distinct (map mac_of (r_Clients (relay_config st))) \<longleftrightarrow> distinct (map pc_MAC (st_Clients st))"
    by (simp add: cs comp_def)
  show "map normal_entry (r_Clients (relay_config st)) = r_Clients (relay_config st)"
    using e by (simp add: cs normal_entry_def)
qed

lemma relay_config_checked:
  assumes "state_ok st"
  shows "(\<exists>cfg. checkRelay (relay_config st) = Inr cfg) \<longleftrightarrow> distinct (map pc_MAC (st_Clients st))"
    and "distinct (map pc_MAC (st_Clients st)) \<Longrightarrow> checkRelay (relay_config st) = Inr (relay_config st)"
proof -
  note e = relay_config_entries [OF assms]
  have d: "relay_defaults (relay_config st) = relay_config st"
    by (rule Relay.equality) (simp_all add: relay_defaults_sel, simp_all add: relay_config_def DefaultMaxFrameSize_def)
  have b: "relay_bounds_ok (relay_config st)"
    by (simp add: relay_bounds_ok_def relay_config_def DefaultMaxFrameSize_def HasPrefix_def)
  show "(\<exists>cfg. checkRelay (relay_config st) = Inr cfg) \<longleftrightarrow> distinct (map pc_MAC (st_Clients st))"
    using e b by (simp add: checkRelay_Inr d clients_ok_def)
  show "checkRelay (relay_config st) = Inr (relay_config st)" if "distinct (map pc_MAC (st_Clients st))"
    using that e b by (simp add: checkRelay_Inr d clients_ok_def)
qed

end
