(* ===== verification/Files.thy ===== *)
theory Files
  imports Provision
begin

text \<open>
  The files the program writes and reads: \<^verbatim>\<open>SaveJSON\<close>, \<^verbatim>\<open>loadJSON\<close> and the loaders of
  \<^verbatim>\<open>internal/config/config.go\<close>, and \<^verbatim>\<open>os.WriteFile\<close> as \<^verbatim>\<open>provision.go\<close> uses it.

  A file has contents and a mode.  Contents that \<^verbatim>\<open>encoding/json\<close>, \<^verbatim>\<open>encoding/pem\<close> or an archive
  writer produces are the values themselves, so that decoding a file that was encoded gives the value back; a file
  that has been opened for writing and not yet written is \<open>Partial\<close>.  Every call that can
  fail consumes one element of \<open>faults\<close>, and \<open>True\<close> makes it fail; the list is arbitrary.
  Names of temporary files are drawn from a counter.

  \<open>unsynced\<close> holds the paths of the files that have been written and not flushed with \<^verbatim>\<open>Sync\<close> since.  \<open>trail\<close> records
  every state of the files with its unsynced paths, in order; \<open>history\<close>, the states alone, are what another
  process can see and what remains when the program is killed.  When the machine stops, less remains
  (\<open>crash_image\<close>): contents that were not flushed can be anything, and as no directory is ever flushed, every
  name can be back at any earlier file it stood for.
\<close>

section \<open>World\<close>

text \<open>The document \<^verbatim>\<open>bundle.json\<close> of a client bundle.\<close>

record BundleMeta =
  bm_id :: string
  bm_role :: string
  bm_device :: string
  bm_mac :: string
  bm_address :: string
  bm_gateway :: string
  bm_overlay :: string
  bm_routes :: "string list"
  bm_egress :: string
  bm_client_sha256 :: string
  bm_dns :: string
  bm_search :: "string list"
  bm_ca_sha256 :: string
  bm_tap_driver_sha256 :: "string option"
  bm_tapctl_sha256 :: "string option"

type_synonym FileMode = int

datatype content =
    StateJSON State
  | RelayJSON Relay
  | ClientJSON Client
  | MetaJSON BundleMeta
  | Blob string
  | PEM string bytes
  | Archive "(string \<times> content \<times> FileMode) list"
  | Partial

text \<open>File modes, in octal in the source.\<close>

abbreviation mode_0600 :: int where "mode_0600 \<equiv> 0x180"
abbreviation mode_0755 :: int where "mode_0755 \<equiv> 0x1ED"
abbreviation mode_0644 :: int where "mode_0644 \<equiv> 0x1A4"

type_synonym filesystem = "string \<rightharpoonup> content \<times> FileMode"

record world =
  files :: filesystem
  unsynced :: "string set"
  trail :: "(filesystem \<times> string set) list"
  faults :: "bool list"
  tmp_nr :: nat

definition history :: "world \<Rightarrow> filesystem list" where
  "history w = map fst (trail w)"

type_synonym 'a io = "world \<Rightarrow> 'a res \<times> world"

definition io_bind :: "'a io \<Rightarrow> ('a \<Rightarrow> 'b io) \<Rightarrow> 'b io" where
  "io_bind m f w = (case m w of (Inl e, w') \<Rightarrow> (Inl e, w') | (Inr x, w') \<Rightarrow> f x w')"

definition io_lift :: "'a res \<Rightarrow> 'a io" where
  "io_lift r w = (r, w)"

definition set_files :: "filesystem \<Rightarrow> string set \<Rightarrow> world \<Rightarrow> world" where
  "set_files F D w = w\<lparr>files := F, unsynced := D, trail := trail w @ [(F, D)]\<rparr>"

text \<open>A system call with the given effects on the files and on the unsynced paths, or a failure without one.\<close>

definition update_call :: "string \<Rightarrow> (filesystem \<Rightarrow> filesystem) \<Rightarrow> (string set \<Rightarrow> string set) \<Rightarrow> unit io" where
  "update_call what f g w =
     (case faults w of
        [] \<Rightarrow> (Inr (), set_files (f (files w)) (g (unsynced w)) w)
      | True # fs \<Rightarrow> (Inl (Err what), w\<lparr>faults := fs\<rparr>)
      | False # fs \<Rightarrow> (Inr (), set_files (f (files w)) (g (unsynced w)) (w\<lparr>faults := fs\<rparr>)))"

text \<open>Calls that write to a file, flush it, move it over another one, or remove it; and calls that do none of these.\<close>

definition write_call :: "string \<Rightarrow> string \<Rightarrow> (filesystem \<Rightarrow> filesystem) \<Rightarrow> unit io" where
  "write_call what path f = update_call what f (\<lambda>D. insert path D)"

definition sync_call :: "string \<Rightarrow> unit io" where
  "sync_call path = update_call ''sync'' (\<lambda>F. F) (\<lambda>D. D - {path})"

definition rename_call :: "string \<Rightarrow> string \<Rightarrow> (filesystem \<Rightarrow> filesystem) \<Rightarrow> unit io" where
  "rename_call old new f =
     update_call ''rename'' f (\<lambda>D. if old \<in> D then insert new (D - {old}) else D - {new})"

definition remove_call :: "string \<Rightarrow> unit io" where
  "remove_call path = update_call ''remove'' (\<lambda>F. F(path := None)) (\<lambda>D. D - {path})"

definition syscall :: "string \<Rightarrow> (filesystem \<Rightarrow> filesystem) \<Rightarrow> unit io" where
  "syscall what f = update_call what f (\<lambda>D. D)"

lemmas call_defs = write_call_def sync_call_def rename_call_def remove_call_def syscall_def

text \<open>A deferred call whose error is dropped.\<close>

definition deferred :: "unit io \<Rightarrow> 'a res \<times> world \<Rightarrow> 'a res \<times> world" where
  "deferred m rw = (fst rw, snd (m (snd rw)))"

definition join :: "string \<Rightarrow> string \<Rightarrow> string" where
  "join directory name = directory @ ''/'' @ name"

definition tmp_name :: "nat \<Rightarrow> string" where
  "tmp_name k = ''.wsn-'' @ show_nat k @ ''.tmp''"

text \<open>Changing one file in place, moving a file over another, and opening one with truncation, which keeps its mode.\<close>

definition change_file :: "string \<Rightarrow> (content \<times> FileMode \<Rightarrow> content \<times> FileMode) \<Rightarrow> filesystem \<Rightarrow> filesystem" where
  "change_file path g F p = (if p = path then map_option g (F p) else F p)"

definition move_file :: "string \<Rightarrow> string \<Rightarrow> filesystem \<Rightarrow> filesystem" where
  "move_file old new F p = (if p = old then None else if p = new then F old else F p)"

definition truncate_file :: "string \<Rightarrow> FileMode \<Rightarrow> filesystem \<Rightarrow> filesystem" where
  "truncate_file path mode F p =
     (if p = path then Some (Partial, case F p of None \<Rightarrow> mode | Some (_, m) \<Rightarrow> m) else F p)"

lemma file_updates [simp]:
  "change_file path g F = F(path := map_option g (F path))"
  "move_file old new F = F(new := F old, old := None)"
  "truncate_file path mode F = F(path \<mapsto> (Partial, case F path of None \<Rightarrow> mode | Some (_, m) \<Rightarrow> m))"
  by (auto simp: change_file_def move_file_def truncate_file_def fun_eq_iff)

section \<open>SaveJSON\<close>

text \<open>The steps after \<^verbatim>\<open>os.CreateTemp\<close>, on the temporary file.\<close>

definition save_tmp :: "string \<Rightarrow> string \<Rightarrow> content \<Rightarrow> FileMode \<Rightarrow> unit io" where
  "save_tmp tmp path v mode =
     io_bind (syscall ''chmod'' (change_file tmp (\<lambda>(c, _). (c, mode)))) (\<lambda>_.
     io_bind (write_call ''write'' tmp (change_file tmp (\<lambda>(_, m). (v, m)))) (\<lambda>_.
     io_bind (sync_call tmp) (\<lambda>_.
     io_bind (syscall ''close'' (\<lambda>F. F)) (\<lambda>_.
     rename_call tmp path (move_file tmp path)))))"

text \<open>From \<^verbatim>\<open>os.CreateTemp\<close> on, with the deferred removal of the temporary file.\<close>

definition save_new :: "string \<Rightarrow> string \<Rightarrow> content \<Rightarrow> FileMode \<Rightarrow> unit io" where
  "save_new directory name v mode w =
     (let tmp = join directory (tmp_name (tmp_nr w)) in
      io_bind (write_call ''create'' tmp (\<lambda>F. F(tmp \<mapsto> (Partial, mode_0600)))) (\<lambda>_ w.
        deferred (remove_call tmp)
          (save_tmp tmp (join directory name) v mode w))
        (w\<lparr>tmp_nr := Suc (tmp_nr w)\<rparr>))"

definition SaveJSON :: "string \<Rightarrow> string \<Rightarrow> content \<Rightarrow> FileMode \<Rightarrow> unit io" where
  "SaveJSON directory name v mode =
     io_bind (syscall ''marshal'' (\<lambda>F. F)) (\<lambda>_.
     io_bind (syscall ''mkdir'' (\<lambda>F. F)) (\<lambda>_.
     save_new directory name v mode))"

text \<open>\<^verbatim>\<open>os.WriteFile\<close>: open with truncation, which keeps the mode of a file that exists, then write and close.\<close>

definition WriteFile :: "string \<Rightarrow> string \<Rightarrow> content \<Rightarrow> FileMode \<Rightarrow> unit io" where
  "WriteFile directory name v mode =
     (let path = join directory name in
      io_bind (write_call ''open'' path (truncate_file path mode)) (\<lambda>_.
      io_bind (write_call ''write'' path (change_file path (\<lambda>(_, m). (v, m)))) (\<lambda>_.
      syscall ''close'' (\<lambda>F. F))))"

section \<open>Loading\<close>

definition read_json :: "string \<Rightarrow> (content \<Rightarrow> 'a option) \<Rightarrow> 'a io" where
  "read_json path decode =
     io_bind (syscall ''open'' (\<lambda>F. F)) (\<lambda>_ w.
       (case files w path of
          None \<Rightarrow> (Inl (Errf ''open %s'' [path]), w)
        | Some (c, _) \<Rightarrow>
            (case decode c of None \<Rightarrow> (Inl (Errf ''decode %s'' [path]), w) | Some v \<Rightarrow> (Inr v, w))))"

definition ReadFile :: "string \<Rightarrow> content io" where
  "ReadFile path = read_json path Some"

definition LoadRelay :: "string \<Rightarrow> Relay io" where
  "LoadRelay path =
     io_bind (read_json path (\<lambda>c. case c of RelayJSON r \<Rightarrow> Some r | _ \<Rightarrow> None)) (\<lambda>r. io_lift (checkRelay r))"

definition LoadClient :: "GOOS \<Rightarrow> string \<Rightarrow> Client io" where
  "LoadClient os path =
     io_bind (read_json path (\<lambda>c. case c of ClientJSON r \<Rightarrow> Some r | _ \<Rightarrow> None)) (\<lambda>r. io_lift (checkClient os r))"

text \<open>What loads is what is in the file, after the checks.\<close>

lemma LoadRelay_Inr:
  assumes "LoadRelay path w = (Inr cfg, w')"
  obtains raw m where "files w path = Some (RelayJSON raw, m)" "checkRelay raw = Inr cfg"
  using assms
  by (auto simp: LoadRelay_def read_json_def io_bind_def io_lift_def call_defs update_call_def set_files_def split: sum.splits prod.splits option.splits list.splits bool.splits content.splits)

lemma LoadRelay_no_faults:
  assumes "F path = Some (RelayJSON raw, mode)" and "checkRelay raw = Inr cfg"
  obtains w w' where "files w = F" "LoadRelay path w = (Inr cfg, w')"
proof -
  let ?w = "\<lparr>files = F, unsynced = {}, trail = [], faults = [], tmp_nr = 0\<rparr>"
  have "\<exists>w'. LoadRelay path ?w = (Inr cfg, w')"
    using assms by (simp add: LoadRelay_def read_json_def io_bind_def io_lift_def call_defs update_call_def set_files_def)
  then show thesis using that [of ?w] by auto
qed

section \<open>What a call leaves behind\<close>

text \<open>
  \<open>effect R w w'\<close>: every state of the file system that the call passes through, its last one
  included, is related by \<open>R\<close> to the one it started from.  \<open>passes\<close> says the same of states with their unsynced paths.
\<close>

definition effect :: "(filesystem \<Rightarrow> filesystem \<Rightarrow> bool) \<Rightarrow> world \<Rightarrow> world \<Rightarrow> bool" where
  "effect R w w' \<longleftrightarrow> (\<exists>hs. history w' = history w @ hs \<and> (\<forall>F \<in> set hs. R (files w) F))
     \<and> R (files w) (files w')"

definition snapshot :: "world \<Rightarrow> filesystem \<times> string set" where
  "snapshot w = (files w, unsynced w)"

definition passes :: "(filesystem \<times> string set \<Rightarrow> filesystem \<times> string set \<Rightarrow> bool) \<Rightarrow> world \<Rightarrow> world \<Rightarrow> bool" where
  "passes R w w' \<longleftrightarrow> (\<exists>ts. trail w' = trail w @ ts \<and> (\<forall>t \<in> set ts. R (snapshot w) t)) \<and> R (snapshot w) (snapshot w')"

lemma effect_refl: "(\<And>F. R F F) \<Longrightarrow> effect R w (w\<lparr>faults := fs\<rparr>)"
  by (simp add: effect_def history_def)

lemma effect_trans:
  assumes "effect R w w1" and "effect R w1 w2" and "\<And>F G H. R F G \<Longrightarrow> R G H \<Longrightarrow> R F H"
  shows "effect R w w2"
proof -
  obtain h1 h2 where h: "history w1 = history w @ h1" "\<forall>F \<in> set h1. R (files w) F"
    "history w2 = history w1 @ h2" "\<forall>F \<in> set h2. R (files w1) F" "R (files w) (files w1)" "R (files w1) (files w2)"
    using assms(1,2) unfolding effect_def by blast
  have "\<forall>F \<in> set h2. R (files w) F" using assms(3) [OF h(5)] h(4) by blast
  moreover have "R (files w) (files w2)" using h(5,6) by (rule assms(3))
  ultimately show ?thesis using h(1-3) unfolding effect_def by (intro conjI exI [of _ "h1 @ h2"]) auto
qed

lemma passes_trans:
  assumes "passes R w w1" and "passes R w1 w2" and "\<And>x y z. R x y \<Longrightarrow> R y z \<Longrightarrow> R x z"
  shows "passes R w w2"
proof -
  obtain t1 t2 where t: "trail w1 = trail w @ t1" "\<forall>t \<in> set t1. R (snapshot w) t"
    "trail w2 = trail w1 @ t2" "\<forall>t \<in> set t2. R (snapshot w1) t" "R (snapshot w) (snapshot w1)" "R (snapshot w1) (snapshot w2)"
    using assms(1,2) unfolding passes_def by blast
  have "\<forall>t \<in> set t2. R (snapshot w) t" using assms(3) [OF t(5)] t(4) by blast
  moreover have "R (snapshot w) (snapshot w2)" using t(5,6) by (rule assms(3))
  ultimately show ?thesis using t(1-3) unfolding passes_def by (intro conjI exI [of _ "t1 @ t2"]) auto
qed

lemma passes_effect:
  assumes "passes R w w'" and "\<And>x y. R x y \<Longrightarrow> S (fst x) (fst y)"
  shows "effect S w w'"
proof -
  obtain ts where ts: "trail w' = trail w @ ts" "\<forall>t \<in> set ts. R (snapshot w) t" "R (snapshot w) (snapshot w')"
    using assms(1) unfolding passes_def by blast
  have "\<forall>F \<in> set (map fst ts). S (files w) F" using ts(2) assms(2) by (fastforce simp: snapshot_def)
  then show ?thesis
    using ts(1) assms(2) [OF ts(3)] unfolding effect_def history_def by (intro conjI exI [of _ "map fst ts"]) (auto simp: snapshot_def)
qed

lemma set_files_sel [simp]:
  "files (set_files F D w) = F" "unsynced (set_files F D w) = D" "trail (set_files F D w) = trail w @ [(F, D)]"
  "faults (set_files F D w) = faults w" "tmp_nr (set_files F D w) = tmp_nr w"
  by (simp_all add: set_files_def)

lemma history_sel [simp]:
  "history (set_files F D w) = history w @ [F]" "history (w\<lparr>faults := fs\<rparr>) = history w" "history (w\<lparr>tmp_nr := k\<rparr>) = history w"
  by (simp_all add: history_def)

lemma snapshot_sel [simp]:
  "snapshot (set_files F D w) = (F, D)" "snapshot (w\<lparr>faults := fs\<rparr>) = snapshot w" "snapshot (w\<lparr>tmp_nr := k\<rparr>) = snapshot w"
  "fst (snapshot w) = files w" "snd (snapshot w) = unsynced w"
  by (simp_all add: snapshot_def)

text \<open>Symbolic execution, one system call at a time.\<close>

lemma call_wp:
  assumes "Q (Inl (Err what), w\<lparr>faults := tl (faults w)\<rparr>)"
    and "Q (Inr (), set_files (f (files w)) (g (unsynced w)) (w\<lparr>faults := tl (faults w)\<rparr>))"
  shows "Q (update_call what f g w)"
proof (cases "faults w")
  case Nil
  then have "w\<lparr>faults := tl (faults w)\<rparr> = w" by simp
  with assms(2) have "Q (Inr (), set_files (f (files w)) (g (unsynced w)) w)" by (simp only:)
  with Nil show ?thesis by (simp add: update_call_def)
next
  case (Cons b fs)
  then show ?thesis using assms by (cases b) (simp_all add: update_call_def)
qed

lemma bind_call_wp:
  assumes "Q (Inl (Err what), w\<lparr>faults := tl (faults w)\<rparr>)"
    and "Q (h () (set_files (f (files w)) (g (unsynced w)) (w\<lparr>faults := tl (faults w)\<rparr>)))"
  shows "Q (io_bind (update_call what f g) h w)"
  unfolding io_bind_def by (rule call_wp [where Q = "\<lambda>r. Q (case r of (Inl e, w') \<Rightarrow> (Inl e, w') | (Inr x, w') \<Rightarrow> h x w')"])
    (simp_all add: assms)

lemma bind_wp:
  assumes "P (m w)" and "\<And>e w'. P (Inl e, w') \<Longrightarrow> Q (Inl e, w')" and "\<And>x w'. P (Inr x, w') \<Longrightarrow> Q (f x w')"
  shows "Q (io_bind m f w)"
  unfolding io_bind_def by (cases "m w"; cases "fst (m w)") (use assms in auto)

section \<open>When the machine stops\<close>

text \<open>What can be found under a name after a crash, from the file it stood for and whether its contents were unsynced.\<close>

definition survives :: "(content \<times> FileMode) option \<Rightarrow> bool \<Rightarrow> (content \<times> FileMode) option \<Rightarrow> bool" where
  "survives x lost y \<longleftrightarrow> y = x \<or> (lost \<and> (\<exists>c m c'. x = Some (c, m) \<and> y = Some (c', m)))"

text \<open>
  The file systems that a machine stopping between \<open>w\<close> and \<open>w'\<close>, or after \<open>w'\<close>, can leave: every name on its own is at
  one of the files it stood for since \<open>w\<close>.
\<close>

definition crash_image :: "world \<Rightarrow> world \<Rightarrow> filesystem \<Rightarrow> bool" where
  "crash_image w w' G \<longleftrightarrow>
     (\<exists>ts. trail w' = trail w @ ts \<and> (\<forall>p. \<exists>t \<in> set (snapshot w # ts). survives (fst t p) (p \<in> snd t) (G p)))"

lemma survives_refl [simp]: "survives x lost x"
  by (simp add: survives_def)

lemma survives_flushed [simp]: "survives x False y \<longleftrightarrow> y = x"
  by (simp add: survives_def)

lemma crash_imageE:
  assumes "crash_image w w' G" and "passes R w w'" and "R (snapshot w) (snapshot w)"
  obtains t where "R (snapshot w) t" "survives (fst t p) (p \<in> snd t) (G p)"
proof -
  obtain ts where ts: "trail w' = trail w @ ts" "\<forall>t \<in> set ts. R (snapshot w) t" using assms(2) unfolding passes_def by blast
  moreover obtain us where "trail w' = trail w @ us" "\<forall>p. \<exists>t \<in> set (snapshot w # us). survives (fst t p) (p \<in> snd t) (G p)"
    using assms(1) unfolding crash_image_def by blast
  ultimately obtain t where "t \<in> set (snapshot w # ts)" "survives (fst t p) (p \<in> snd t) (G p)"
    by (metis same_append_eq)
  moreover from this(1) have "R (snapshot w) t" using ts(2) assms(3) by (metis set_ConsD)
  ultimately show thesis using that by blast
qed

section \<open>Saving is atomic\<close>

text \<open>
  Away from one temporary file, a save changes nothing but the target, and that in one step, to a file whose
  contents have been flushed.
\<close>

definition saves :: "string \<Rightarrow> string \<Rightarrow> content \<times> FileMode \<Rightarrow> filesystem \<times> string set \<Rightarrow> filesystem \<times> string set \<Rightarrow> bool" where
  "saves tmp path new x y \<longleftrightarrow> (\<forall>p. p \<noteq> tmp \<longrightarrow>
     (fst y p = fst x p \<and> (p \<in> snd y \<longleftrightarrow> p \<in> snd x)) \<or> (p = path \<and> fst y p = Some new \<and> p \<notin> snd y))"

definition saved :: "string \<Rightarrow> string \<Rightarrow> content \<times> FileMode \<Rightarrow> world \<Rightarrow> unit res \<times> world \<Rightarrow> bool" where
  "saved tmp path new w rw \<longleftrightarrow>
     passes (saves tmp path new) w (snd rw)
     \<and> (case fst rw of
          Inr _ \<Rightarrow> files (snd rw) path = Some new \<and> path \<notin> unsynced (snd rw) \<and> files (snd rw) tmp = None
            \<and> (\<forall>p. p \<noteq> tmp \<longrightarrow> p \<noteq> path \<longrightarrow> files (snd rw) p = files w p)
        | Inl _ \<Rightarrow> (\<forall>p. p \<noteq> tmp \<longrightarrow> files (snd rw) p = files w p))"

lemma save_tmp_saved:
  assumes "files w tmp = Some (c, m)" and "tmp \<noteq> path"
  shows "saved tmp path (v, mode) w (save_tmp tmp path v mode w)"
proof -
  note wp = bind_call_wp [where Q = "saved tmp path (v, mode) w"] call_wp [where Q = "saved tmp path (v, mode) w"]
  show ?thesis
    unfolding save_tmp_def call_defs
    by (intro wp) (use assms in \<open>simp_all add: saved_def passes_def saves_def\<close>)
qed

lemma saves_refl [simp]: "saves tmp path new x x"
  by (simp add: saves_def)

lemma saves_trans: "saves tmp path new x y \<Longrightarrow> saves tmp path new y z \<Longrightarrow> saves tmp path new x z"
  unfolding saves_def by metis

lemma saved_from:
  assumes "saved tmp path new w1 rw" and "passes (saves tmp path new) w w1"
    and "\<And>p. p \<noteq> tmp \<Longrightarrow> files w1 p = files w p"
  shows "saved tmp path new w rw"
proof -
  have "passes (saves tmp path new) w (snd rw)"
    by (rule passes_trans [OF assms(2)]) (use assms(1) saves_trans in \<open>auto simp: saved_def\<close>)
  with assms(1,3) show ?thesis unfolding saved_def by (auto split: sum.splits)
qed

lemma saved_remove:
  assumes "saved tmp path new w rw" and "tmp \<noteq> path"
  shows "saved tmp path new w (deferred (remove_call tmp) rw)"
proof -
  let ?Q = "\<lambda>r :: unit res \<times> world. saved tmp path new w (fst rw, snd r)"
  have "?Q (remove_call tmp (snd rw))"
    unfolding remove_call_def
    by (rule call_wp [where Q = ?Q])
      (use assms in \<open>auto simp: saved_def passes_def saves_def split: sum.splits\<close>)
  then show ?thesis by (simp add: deferred_def)
qed

definition plain :: "string \<Rightarrow> bool" where
  "plain name \<longleftrightarrow> \<not> HasPrefix name ''.wsn-''"

lemma tmp_not_plain: "plain name \<Longrightarrow> join d (tmp_name k) \<noteq> join d name"
  by (auto simp: plain_def join_def tmp_name_def HasPrefix_def)

lemma save_new_saved:
  assumes "plain name"
  shows "saved (join d (tmp_name (tmp_nr w))) (join d name) (v, mode) w (save_new d name v mode w)"
proof -
  let ?tmp = "join d (tmp_name (tmp_nr w))" and ?w1 = "w\<lparr>tmp_nr := Suc (tmp_nr w)\<rparr>"
  let ?Q = "saved ?tmp (join d name) (v, mode) w"
  let ?w2 = "set_files ((files ?w1)(?tmp \<mapsto> (Partial, mode_0600))) (insert ?tmp (unsynced ?w1)) (?w1\<lparr>faults := tl (faults ?w1)\<rparr>)"
  have ne: "?tmp \<noteq> join d name" using tmp_not_plain [OF assms] .
  have "passes (saves ?tmp (join d name) (v, mode)) w ?w2" by (simp add: passes_def saves_def)
  then have "?Q (deferred (remove_call ?tmp) (save_tmp ?tmp (join d name) v mode ?w2))"
    by (intro saved_remove [OF saved_from [OF save_tmp_saved [OF _ ne]] ne]) simp_all
  then show ?thesis
    unfolding save_new_def Let_def write_call_def
    by (intro bind_call_wp [where Q = ?Q]) (simp_all add: saved_def passes_def)
qed

lemma SaveJSON_saved:
  assumes "plain name"
  shows "saved (join d (tmp_name (tmp_nr w))) (join d name) (v, mode) w (SaveJSON d name v mode w)"
proof -
  let ?Q = "saved (join d (tmp_name (tmp_nr w))) (join d name) (v, mode) w"
  let ?w1 = "set_files (files w) (unsynced w) (w\<lparr>faults := tl (faults w)\<rparr>)"
  let ?w2 = "set_files (files ?w1) (unsynced ?w1) (?w1\<lparr>faults := tl (faults ?w1)\<rparr>)"
  have "passes (saves (join d (tmp_name (tmp_nr w))) (join d name) (v, mode)) w ?w2" by (simp add: passes_def saves_def)
  then have "?Q (save_new d name v mode ?w2)"
    using saved_from [OF save_new_saved [OF assms, of d ?w2 v mode]] by simp
  then show ?thesis
    unfolding SaveJSON_def syscall_def
    by (intro bind_call_wp [where Q = ?Q]) (simp_all add: saved_def passes_def saves_def)
qed

text \<open>
  C39. Saving is atomic.  Whatever system call fails and wherever the program is killed, the target of \<^verbatim>\<open>SaveJSON\<close> is
  what it was or holds the complete new value with the requested mode, and no file but the temporary one is touched.
  Wherever the machine stops, the same is found afterwards: the target is what a crash without the save leaves of the old
  file, or the complete new value, which was flushed before it was moved into place.  When the call reports success the
  target holds the new value and the temporary file is gone; when it reports an error the target is unchanged.
\<close>

theorem SaveJSON_atomic:
  assumes "plain name" and "SaveJSON d name v mode w = (r, w')"
  shows "(\<exists>hs. history w' = history w @ hs \<and>
      (\<forall>F \<in> set (files w' # hs). \<forall>p. p \<noteq> join d (tmp_name (tmp_nr w)) \<longrightarrow>
         F p = files w p \<or> (p = join d name \<and> F p = Some (v, mode))))
    \<and> (\<forall>G. crash_image w w' G \<longrightarrow> (\<forall>p. p \<noteq> join d (tmp_name (tmp_nr w)) \<longrightarrow>
         survives (files w p) (p \<in> unsynced w) (G p) \<or> (p = join d name \<and> G p = Some (v, mode))))
    \<and> (case r of
         Inr _ \<Rightarrow> files w' (join d name) = Some (v, mode) \<and> join d name \<notin> unsynced w' \<and> files w' (join d (tmp_name (tmp_nr w))) = None
       | Inl _ \<Rightarrow> files w' (join d name) = files w (join d name))"
proof (intro conjI allI impI)
  let ?tmp = "join d (tmp_name (tmp_nr w))"
  have s: "saved ?tmp (join d name) (v, mode) w (r, w')" using SaveJSON_saved [OF assms(1), of d w v mode] assms(2) by simp
  then have ps: "passes (saves ?tmp (join d name) (v, mode)) w w'" by (simp add: saved_def)
  have "effect (\<lambda>F G. \<forall>p. p \<noteq> ?tmp \<longrightarrow> G p = F p \<or> (p = join d name \<and> G p = Some (v, mode))) w w'"
    by (rule passes_effect [OF ps]) (auto simp: saves_def)
  then show "\<exists>hs. history w' = history w @ hs \<and> (\<forall>F \<in> set (files w' # hs). \<forall>p. p \<noteq> ?tmp \<longrightarrow>
      F p = files w p \<or> (p = join d name \<and> F p = Some (v, mode)))" unfolding effect_def by auto
  show "case r of Inr _ \<Rightarrow> files w' (join d name) = Some (v, mode) \<and> join d name \<notin> unsynced w' \<and> files w' ?tmp = None
      | Inl _ \<Rightarrow> files w' (join d name) = files w (join d name)"
    using s tmp_not_plain [OF assms(1), of d "tmp_nr w"] by (auto simp: saved_def split: sum.splits)
  fix G p assume G: "crash_image w w' G" and p: "p \<noteq> ?tmp"
  obtain t where "saves ?tmp (join d name) (v, mode) (snapshot w) t" "survives (fst t p) (p \<in> snd t) (G p)"
    by (rule crash_imageE [OF G ps saves_refl])
  then show "survives (files w p) (p \<in> unsynced w) (G p) \<or> (p = join d name \<and> G p = Some (v, mode))"
    using p unfolding saves_def by (cases "p \<in> snd t") (auto simp: survives_def)
qed

definition ex_world :: world where
  "ex_world = \<lparr>files = [''/d/x'' \<mapsto> (Blob ''old'', mode_0600)], unsynced = {}, trail = [],
     faults = [False, False, False, False, True], tmp_nr = 0\<rparr>"

theorem SaveJSON_atomic_witness:
  "\<exists>w'. SaveJSON ''/d'' ''x'' (Blob ''new'') mode_0600 ex_world = (Inl (Err ''write''), w')
     \<and> files w' ''/d/x'' = Some (Blob ''old'', mode_0600)
     \<and> (\<forall>G. crash_image ex_world w' G \<longrightarrow> G ''/d/x'' = Some (Blob ''old'', mode_0600) \<or> G ''/d/x'' = Some (Blob ''new'', mode_0600))"
proof -
  obtain r w' where r: "SaveJSON ''/d'' ''x'' (Blob ''new'') mode_0600 ex_world = (r, w')" by fastforce
  have "fst (SaveJSON ''/d'' ''x'' (Blob ''new'') mode_0600 ex_world) = Inl (Err ''write'')" by code_simp
  then have e: "r = Inl (Err ''write'')" using r by simp
  have x: "files ex_world (join ''/d'' ''x'') = Some (Blob ''old'', mode_0600)" "unsynced ex_world = {}"
    by (simp_all add: ex_world_def join_def)
  have pl: "plain ''x''" by (simp add: plain_def HasPrefix_def)
  note a = SaveJSON_atomic [OF pl r]
  have "G (join ''/d'' ''x'') = Some (Blob ''old'', mode_0600) \<or> G (join ''/d'' ''x'') = Some (Blob ''new'', mode_0600)"
    if "crash_image ex_world w' G" for G
    using a [THEN conjunct2, THEN conjunct1, rule_format, OF that tmp_not_plain [OF pl, symmetric]] x by simp
  moreover have "files w' (join ''/d'' ''x'') = Some (Blob ''old'', mode_0600)" using a e x by simp
  ultimately show ?thesis using r e by (auto simp: join_def)
qed

text \<open>
  No directory is flushed: the machine can stop after a save has reported success, and the old file is back.
\<close>

lemma save_can_be_undone:
  assumes "SaveJSON d name v mode w = (r, w')" and "plain name"
  shows "crash_image w w' (files w)"
proof -
  have "passes (saves (join d (tmp_name (tmp_nr w))) (join d name) (v, mode)) w w'"
    using SaveJSON_saved [OF assms(2), of d w v mode] assms(1) by (simp add: saved_def)
  then obtain ts where "trail w' = trail w @ ts" unfolding passes_def by blast
  then show ?thesis unfolding crash_image_def by (intro exI [of _ ts]) auto
qed

section \<open>Triples\<close>

text \<open>
  \<open>triple I A m B\<close>: started in a file system that satisfies \<open>I\<close> and \<open>A\<close>, the action \<open>m\<close> passes only through
  file systems that satisfy \<open>I\<close>, whether it succeeds or fails and wherever it is cut off; and if it
  succeeds with \<open>x\<close>, the final one satisfies \<open>B x\<close>.
\<close>

definition outcome ::
  "(filesystem \<Rightarrow> bool) \<Rightarrow> (filesystem \<Rightarrow> bool) \<Rightarrow> ('a \<Rightarrow> filesystem \<Rightarrow> bool) \<Rightarrow> world \<Rightarrow> 'a res \<times> world \<Rightarrow> bool" where
  "outcome I A B w rw \<longleftrightarrow> I (files w) \<longrightarrow> A (files w) \<longrightarrow>
     effect (\<lambda>F G. I F \<longrightarrow> I G) w (snd rw) \<and> (\<forall>x. fst rw = Inr x \<longrightarrow> B x (files (snd rw)))"

definition triple :: "(filesystem \<Rightarrow> bool) \<Rightarrow> (filesystem \<Rightarrow> bool) \<Rightarrow> 'a io \<Rightarrow> ('a \<Rightarrow> filesystem \<Rightarrow> bool) \<Rightarrow> bool" where
  "triple I A m B \<longleftrightarrow> (\<forall>w. outcome I A B w (m w))"

lemma tripleD:
  assumes "triple I A m B" and "m w = (r, w')" and "I (files w)" and "A (files w)"
  shows "\<exists>hs. history w' = history w @ hs \<and> (\<forall>F \<in> set hs. I F)" and "I (files w')" and "r = Inr x \<Longrightarrow> B x (files w')"
proof -
  have e: "effect (\<lambda>F G. I F \<longrightarrow> I G) w w'" and b: "\<forall>x. r = Inr x \<longrightarrow> B x (files w')"
    using assms unfolding triple_def outcome_def by (metis fst_conv snd_conv)+
  show "\<exists>hs. history w' = history w @ hs \<and> (\<forall>F \<in> set hs. I F)" "I (files w')"
    using e assms(3) unfolding effect_def by blast+
  show "r = Inr x \<Longrightarrow> B x (files w')" using b by blast
qed

lemma triple_bind:
  assumes "triple I A m B" and "\<And>x. triple I (B x) (f x) C"
  shows "triple I A (io_bind m f) C"
  unfolding triple_def
proof
  fix w
  obtain r1 w1 where m: "m w = (r1, w1)" by (cases "m w")
  have o1: "outcome I A B w (r1, w1)" using assms(1) m unfolding triple_def by metis
  show "outcome I A C w (io_bind m f w)"
  proof (cases r1)
    case (Inl e)
    then show ?thesis using o1 m by (simp add: io_bind_def outcome_def)
  next
    case (Inr x)
    then have run: "io_bind m f w = f x w1" using m by (simp add: io_bind_def)
    have o2: "outcome I (B x) C w1 (f x w1)" using assms(2) unfolding triple_def by blast
    show ?thesis
      unfolding run outcome_def
    proof (intro impI)
      assume pre: "I (files w)" "A (files w)"
      have e1: "effect (\<lambda>F G. I F \<longrightarrow> I G) w w1" and b: "B x (files w1)"
        using o1 pre Inr by (auto simp: outcome_def)
      have "I (files w1)" using e1 pre(1) by (simp add: effect_def)
      then have "effect (\<lambda>F G. I F \<longrightarrow> I G) w1 (snd (f x w1))" "\<forall>y. fst (f x w1) = Inr y \<longrightarrow> C y (files (snd (f x w1)))"
        using o2 b by (auto simp: outcome_def)
      then show "effect (\<lambda>F G. I F \<longrightarrow> I G) w (snd (f x w1)) \<and> (\<forall>y. fst (f x w1) = Inr y \<longrightarrow> C y (files (snd (f x w1))))"
        using effect_trans [OF e1] by blast
    qed
  qed
qed

lemma triple_weaken:
  assumes "triple I A m B" and "\<And>F. A' F \<Longrightarrow> A F" and "\<And>x F. B x F \<Longrightarrow> B' x F"
  shows "triple I A' m B'"
  using assms unfolding triple_def outcome_def by meson

lemma triple_lift: "triple I A (io_lift r) (\<lambda>x F. A F \<and> r = Inr x)"
  by (simp add: triple_def outcome_def io_lift_def effect_def)

lemma triple_update_call:
  assumes "\<And>F. I F \<Longrightarrow> A F \<Longrightarrow> I (f F) \<and> B (f F)"
  shows "triple I A (update_call what f g) (\<lambda>_. B)"
  unfolding triple_def
proof
  fix w
  let ?Q = "outcome I A (\<lambda>_. B) w"
  show "?Q (update_call what f g w)"
  proof (rule call_wp [where Q = ?Q])
    show "?Q (Inl (Err what), w\<lparr>faults := tl (faults w)\<rparr>)" by (simp add: outcome_def effect_def)
    have "I (files w) \<longrightarrow> A (files w) \<longrightarrow> I (f (files w)) \<and> B (f (files w))" using assms by blast
    then show "?Q (Inr (), set_files (f (files w)) (g (unsynced w)) (w\<lparr>faults := tl (faults w)\<rparr>))"
      by (auto simp: outcome_def effect_def)
  qed
qed

lemma triple_syscall: "(\<And>F. I F \<Longrightarrow> A F \<Longrightarrow> I (f F) \<and> B (f F)) \<Longrightarrow> triple I A (syscall what f) (\<lambda>_. B)"
  unfolding syscall_def by (rule triple_update_call)

lemma triple_write: "(\<And>F. I F \<Longrightarrow> A F \<Longrightarrow> I (f F) \<and> B (f F)) \<Longrightarrow> triple I A (write_call what path f) (\<lambda>_. B)"
  unfolding write_call_def by (rule triple_update_call)

lemma triple_pure:
  assumes "\<And>w. snd (m w) = w" and "\<And>w x. A (files w) \<Longrightarrow> fst (m w) = Inr x \<Longrightarrow> B x (files w)"
  shows "triple I A m B"
  using assms unfolding triple_def outcome_def effect_def by auto

lemma triple_read:
  "triple I A (read_json path decode) (\<lambda>x F. A F \<and> (\<exists>c m. F path = Some (c, m) \<and> decode c = Some x))"
  unfolding read_json_def
  by (rule triple_bind [OF triple_syscall [where B = A]], blast, rule triple_pure)
    (auto split: option.splits)

text \<open>The temporary files of a directory; invariants do not depend on them.\<close>

definition tmps :: "string \<Rightarrow> string set" where
  "tmps d = range (\<lambda>k. join d (tmp_name k))"

lemma plain_not_tmp: "plain name \<Longrightarrow> join d name \<notin> tmps d"
  using tmp_not_plain [of name d] by (auto simp: tmps_def) (metis)

lemma triple_SaveJSON:
  assumes "plain name"
    and "\<And>F G. I F \<Longrightarrow> A F \<Longrightarrow> \<forall>p. p \<notin> tmps d \<longrightarrow> G p = F p \<or> (p = join d name \<and> G p = Some (v, mode)) \<Longrightarrow> I G"
    and "\<And>F G. I F \<Longrightarrow> A F \<Longrightarrow> G (join d name) = Some (v, mode) \<Longrightarrow>
      \<forall>p. p \<notin> tmps d \<longrightarrow> p \<noteq> join d name \<longrightarrow> G p = F p \<Longrightarrow> B G"
  shows "triple I A (SaveJSON d name v mode) (\<lambda>_. B)"
  unfolding triple_def outcome_def
proof (intro allI impI)
  fix w :: world assume pre: "I (files w)" "A (files w)"
  let ?rw = "SaveJSON d name v mode w"
  note s = SaveJSON_saved [OF assms(1), of d w v mode, unfolded saved_def]
  have tmp: "join d (tmp_name (tmp_nr w)) \<in> tmps d" by (simp add: tmps_def)
  let ?R = "\<lambda>F G. \<forall>p. p \<noteq> join d (tmp_name (tmp_nr w)) \<longrightarrow> G p = F p \<or> (p = join d name \<and> G p = Some (v, mode))"
  have inv: "I G" if "?R (files w) G" for G
    using assms(2) [of "files w" G] pre that tmp by metis
  have "effect ?R w (snd ?rw)" by (rule passes_effect [OF s [THEN conjunct1]]) (auto simp: saves_def)
  then have "effect (\<lambda>F G. I F \<longrightarrow> I G) w (snd ?rw)" using inv unfolding effect_def by blast
  moreover have "B (files (snd ?rw))" if "fst ?rw = Inr x" for x
  proof (rule assms(3) [OF pre])
    show "files (snd ?rw) (join d name) = Some (v, mode)" using s that by simp
    show "\<forall>p. p \<notin> tmps d \<longrightarrow> p \<noteq> join d name \<longrightarrow> files (snd ?rw) p = files w p"
    proof (intro allI impI)
      fix p assume "p \<notin> tmps d" "p \<noteq> join d name"
      moreover have "p \<noteq> join d (tmp_name (tmp_nr w))" using \<open>p \<notin> tmps d\<close> tmp by blast
      ultimately show "files (snd ?rw) p = files w p" using s that by simp
    qed
  qed
  ultimately show "effect (\<lambda>F G. I F \<longrightarrow> I G) w (snd ?rw) \<and> (\<forall>x. fst ?rw = Inr x \<longrightarrow> B (files (snd ?rw)))" by blast
qed

lemma triple_WriteFile:
  assumes "\<And>F c m. I F \<Longrightarrow> A F \<Longrightarrow> m = (case F (join d name) of None \<Rightarrow> mode | Some (_, m) \<Rightarrow> m) \<Longrightarrow> I (F(join d name \<mapsto> (c, m)))"
    and "\<And>F m. I F \<Longrightarrow> A F \<Longrightarrow> m = (case F (join d name) of None \<Rightarrow> mode | Some (_, m) \<Rightarrow> m) \<Longrightarrow> B (F(join d name \<mapsto> (v, m)))"
  shows "triple I A (WriteFile d name v mode) (\<lambda>_. B)"
proof -
  let ?m = "\<lambda>F. case F (join d name) of None \<Rightarrow> mode | Some (_, m) \<Rightarrow> m"
  let ?M = "\<lambda>G. \<exists>F. I F \<and> A F \<and> G = F(join d name \<mapsto> (Partial, ?m F))"
  have "triple I A (write_call ''open'' (join d name) (truncate_file (join d name) mode)) (\<lambda>_. ?M)"
    by (rule triple_write, unfold file_updates) (use assms(1) in blast)
  moreover have "triple I ?M (io_bind (write_call ''write'' (join d name) (change_file (join d name) (\<lambda>(_, m). (v, m))))
      (\<lambda>_. syscall ''close'' (\<lambda>F. F))) (\<lambda>_. B)"
  proof (rule triple_bind)
    show "triple I ?M (write_call ''write'' (join d name) (change_file (join d name) (\<lambda>(_, m). (v, m)))) (\<lambda>_. B)"
      by (rule triple_write, unfold file_updates) (use assms in \<open>force simp del: fun_upd_apply simp add: fun_upd_same\<close>)
  qed (rule triple_syscall, simp)
  ultimately show ?thesis unfolding WriteFile_def Let_def by (rule triple_bind)
qed

lemma triple_bind_lift:
  assumes "\<And>x. r = Inr x \<Longrightarrow> triple I A (f x) C"
  shows "triple I A (io_bind (io_lift r) f) C"
proof (cases r)
  case (Inl e)
  then have "io_bind (io_lift r) f = (\<lambda>w. (Inl e, w))" by (simp add: io_bind_def io_lift_def fun_eq_iff)
  then show ?thesis by (simp add: triple_def outcome_def effect_def)
next
  case (Inr x)
  then have "io_bind (io_lift r) f = f x" by (simp add: io_bind_def io_lift_def fun_eq_iff)
  then show ?thesis using assms Inr by simp
qed

lemma triple_bind_read:
  assumes "\<And>c. triple I (\<lambda>F. A F \<and> (\<exists>m. F path = Some (c, m))) (f c) C"
  shows "triple I A (io_bind (ReadFile path) f) C"
  unfolding ReadFile_def
  by (rule triple_bind [OF triple_read [where A = A and decode = Some]], rule triple_weaken [OF assms]) auto

section \<open>Files that stay flushed\<close>

text \<open>\<open>avoids K m\<close>: whatever fails, \<open>m\<close> leaves none of the files in \<open>K\<close> unsynced, at any moment.\<close>

abbreviation flushed_step :: "string set \<Rightarrow> filesystem \<times> string set \<Rightarrow> filesystem \<times> string set \<Rightarrow> bool" where
  "flushed_step K x y \<equiv> K \<inter> snd x = {} \<longrightarrow> K \<inter> snd y = {}"

definition avoids :: "string set \<Rightarrow> 'a io \<Rightarrow> bool" where
  "avoids K m \<longleftrightarrow> (\<forall>w. passes (flushed_step K) w (snd (m w)))"

named_theorems avoids_rules \<open>rules for files that stay flushed\<close>

lemma avoids_pure: "(\<And>w. snd (m w) = w) \<Longrightarrow> avoids K m"
  by (simp add: avoids_def passes_def)

lemma avoids_lift [avoids_rules]: "avoids K (io_lift r)"
  by (rule avoids_pure) (simp add: io_lift_def)

lemma avoids_bind [avoids_rules]:
  assumes "avoids K m" and "\<And>x. avoids K (f x)"
  shows "avoids K (io_bind m f)"
  unfolding avoids_def
proof
  fix w
  obtain r w1 where m: "m w = (r, w1)" by (cases "m w")
  have 1: "passes (flushed_step K) w w1" using assms(1) m unfolding avoids_def by (metis snd_conv)
  show "passes (flushed_step K) w (snd (io_bind m f w))"
  proof (cases r)
    case (Inl e)
    then show ?thesis using 1 m by (simp add: io_bind_def)
  next
    case (Inr x)
    have "passes (flushed_step K) w1 (snd (f x w1))" using assms(2) unfolding avoids_def by blast
    from passes_trans [OF 1 this] show ?thesis using m Inr by (simp add: io_bind_def)
  qed
qed

lemma avoids_update_call: "(\<And>D. K \<inter> D = {} \<Longrightarrow> K \<inter> g D = {}) \<Longrightarrow> avoids K (update_call what f g)"
  unfolding avoids_def
  by (rule allI, rule call_wp [where Q = "\<lambda>r. passes (flushed_step K) w (snd r)" for w]) (simp_all add: passes_def)

lemma avoids_syscall [avoids_rules]: "avoids K (syscall what f)"
  unfolding syscall_def by (rule avoids_update_call)

lemma avoids_write [avoids_rules]: "path \<notin> K \<Longrightarrow> avoids K (write_call what path f)"
  unfolding write_call_def by (rule avoids_update_call) simp

lemma avoids_read_json [avoids_rules]: "avoids K (read_json path decode)"
  unfolding read_json_def by (intro avoids_bind avoids_syscall avoids_pure) (auto split: option.splits)

lemma avoids_ReadFile [avoids_rules]: "avoids K (ReadFile path)"
  unfolding ReadFile_def by (rule avoids_read_json)

lemma avoids_WriteFile [avoids_rules]: "join d name \<notin> K \<Longrightarrow> avoids K (WriteFile d name v mode)"
  unfolding WriteFile_def Let_def by (intro avoids_rules)

lemma avoids_SaveJSON [avoids_rules]:
  assumes "plain name" and "K \<inter> tmps d = {}"
  shows "avoids K (SaveJSON d name v mode)"
  unfolding avoids_def
proof
  fix w :: world
  let ?R = "saves (join d (tmp_name (tmp_nr w))) (join d name) (v, mode)"
  have "join d (tmp_name (tmp_nr w)) \<notin> K" using assms(2) by (auto simp: tmps_def)
  then have "flushed_step K x y" if "?R x y" for x y
    using that unfolding saves_def by (metis disjoint_iff)
  moreover have "passes ?R w (snd (SaveJSON d name v mode w))" using SaveJSON_saved [OF assms(1), of d w v mode] by (simp add: saved_def)
  ultimately show "passes (flushed_step K) w (snd (SaveJSON d name v mode w))" unfolding passes_def by blast
qed

lemma avoids_if [avoids_rules]: "(b \<Longrightarrow> avoids K m) \<Longrightarrow> (\<not> b \<Longrightarrow> avoids K m') \<Longrightarrow> avoids K (if b then m else m')"
  by simp

section \<open>Without faults\<close>

text \<open>When no call fails, the writers succeed.\<close>

lemma SaveJSON_no_faults:
  "faults w = [] \<Longrightarrow> fst (SaveJSON d name v mode w) = Inr () \<and> faults (snd (SaveJSON d name v mode w)) = []"
  by (simp add: SaveJSON_def save_new_def save_tmp_def io_bind_def call_defs update_call_def deferred_def Let_def)

lemma WriteFile_no_faults:
  "faults w = [] \<Longrightarrow> fst (WriteFile d name v mode w) = Inr () \<and> faults (snd (WriteFile d name v mode w)) = []"
  by (simp add: WriteFile_def io_bind_def call_defs update_call_def Let_def)

lemma ReadFile_no_faults:
  "faults w = [] \<Longrightarrow> files w path = Some (c, m) \<Longrightarrow>
     fst (ReadFile path w) = Inr c \<and> faults (snd (ReadFile path w)) = [] \<and> files (snd (ReadFile path w)) = files w"
  by (simp add: ReadFile_def read_json_def io_bind_def call_defs update_call_def)

section \<open>A guarded directory\<close>

text \<open>
  A directory in which every file of a given name keeps a property.  \<open>raw\<close> are the names whose property does
  not depend on the contents; they may be written in place, the others are only saved.
\<close>

definition guarded :: "string \<Rightarrow> (string \<Rightarrow> content \<times> FileMode \<Rightarrow> bool) \<Rightarrow> filesystem \<Rightarrow> bool" where
  "guarded d ok F \<longleftrightarrow> (\<forall>name x. plain name \<longrightarrow> F (join d name) = Some x \<longrightarrow> ok name x)"

lemma join_eq [simp]: "join d a = join d b \<longleftrightarrow> a = b"
  by (simp add: join_def)

locale guarded_dir =
  fixes ok :: "string \<Rightarrow> content \<times> FileMode \<Rightarrow> bool" and raw :: "string \<Rightarrow> bool"
  assumes raw_content: "raw name \<Longrightarrow> ok name (c, m) \<Longrightarrow> ok name (c', m)"
begin

lemma save_guarded:
  assumes "plain name" and "\<And>F. guarded d ok F \<Longrightarrow> A F \<Longrightarrow> ok name (v, mode)"
    and "\<And>F G. guarded d ok F \<Longrightarrow> A F \<Longrightarrow> G (join d name) = Some (v, mode) \<Longrightarrow>
      \<forall>p. p \<notin> tmps d \<longrightarrow> p \<noteq> join d name \<longrightarrow> G p = F p \<Longrightarrow> B G"
  shows "triple (guarded d ok) A (SaveJSON d name v mode) (\<lambda>_. B)"
proof (rule triple_SaveJSON [OF assms(1) _ assms(3)])
  fix F G assume F: "guarded d ok F" "A F"
    and G: "\<forall>p. p \<notin> tmps d \<longrightarrow> G p = F p \<or> (p = join d name \<and> G p = Some (v, mode))"
  show "guarded d ok G"
    unfolding guarded_def
  proof (intro allI impI)
    fix n x assume n: "plain n" "G (join d n) = Some x"
    then have "G (join d n) = F (join d n) \<or> (n = name \<and> G (join d n) = Some (v, mode))"
      using G plain_not_tmp [OF n(1)] by fastforce
    then show "ok n x" using n F assms(2) [OF F] unfolding guarded_def by (cases x) auto
  qed
qed

lemma write_guarded:
  assumes "raw name" and "ok name (v, mode)"
    and "\<And>F m. guarded d ok F \<Longrightarrow> A F \<Longrightarrow> B (F(join d name \<mapsto> (v, m)))"
  shows "triple (guarded d ok) A (WriteFile d name v mode) (\<lambda>_. B)"
proof (rule triple_WriteFile)
  fix F c m assume F: "guarded d ok F" "A F" and m: "m = (case F (join d name) of None \<Rightarrow> mode | Some (_, m) \<Rightarrow> m)"
  show "guarded d ok (F(join d name \<mapsto> (c, m)))"
    unfolding guarded_def
  proof (intro allI impI)
    fix n x assume n: "plain n" "(F(join d name \<mapsto> (c, m))) (join d n) = Some x"
    have "ok name (c, m)" if "n = name"
      using raw_content [OF assms(1)] assms(2) F(1) n(1) that m by (cases "F (join d name)") (auto simp: guarded_def)
    then show "ok n x" using n F(1) by (cases x; cases "n = name") (auto simp: guarded_def)
  qed
qed (use assms(3) in blast)

text \<open>
  What a guarded directory is after a crash: guarded, if the files whose property depends on the contents stay flushed.
\<close>

lemma crash_guarded:
  assumes "effect (\<lambda>F G. guarded d ok F \<longrightarrow> guarded d ok G) w w'" and "passes (flushed_step K) w w'"
    and "guarded d ok (files w)" and "K \<inter> unsynced w = {}" and K: "\<And>name. \<not> raw name \<Longrightarrow> join d name \<in> K"
    and G: "crash_image w w' G"
  shows "guarded d ok G"
  unfolding guarded_def
proof (intro allI impI)
  fix name x assume name: "plain name" "G (join d name) = Some x"
  obtain ts where ts: "trail w' = trail w @ ts" "\<forall>t \<in> set ts. K \<inter> snd t = {}"
    using assms(2,4) unfolding passes_def by auto
  have hs: "\<forall>t \<in> set ts. guarded d ok (fst t)"
    using assms(1,3) ts(1) unfolding effect_def history_def by auto
  obtain t where t: "t \<in> set (snapshot w # ts)" "survives (fst t (join d name)) (join d name \<in> snd t) (G (join d name))"
    using G ts(1) unfolding crash_image_def by (metis same_append_eq)
  have "guarded d ok (fst t)" "K \<inter> snd t = {}" using t(1) ts(2) hs assms(3,4) by auto
  show "ok name x"
  proof (cases "fst t (join d name) = Some x")
    case True
    then show ?thesis using \<open>guarded d ok (fst t)\<close> name(1) unfolding guarded_def by blast
  next
    case False
    then obtain c m c' where c: "join d name \<in> snd t" "fst t (join d name) = Some (c, m)" "x = (c', m)"
      using t(2) name(2) unfolding survives_def by auto
    then have "raw name" using K \<open>K \<inter> snd t = {}\<close> by blast
    moreover have "ok name (c, m)" using \<open>guarded d ok (fst t)\<close> name(1) c(2) unfolding guarded_def by blast
    ultimately show ?thesis using raw_content c(3) by blast
  qed
qed

end

end
