(* ===== verification/Deploy.thy ===== *)
theory Deploy
  imports Files
begin

text \<open>
  \<^verbatim>\<open>internal/provision/provision.go\<close>, what it does to the deployment directory: \<^verbatim>\<open>Init\<close>,
  \<^verbatim>\<open>AddClient\<close>, \<^verbatim>\<open>RevokeClient\<close>, \<^verbatim>\<open>List\<close>, \<^verbatim>\<open>RotateCertificate\<close> and the certificates they write.

  Key generation, signing and the encodings of \<^verbatim>\<open>crypto/x509\<close> are the functions of a record
  \<open>x509\<close> that every definition takes as an argument; random bytes and the time are arguments
  too.  \<open>t\<close> is the reading of \<^verbatim>\<open>time.Now().Add(-5 * time.Minute)\<close> in UTC.
\<close>

section \<open>Certificates\<close>

record civil =
  cv_year :: int
  cv_month :: nat
  cv_day :: nat
  cv_nanos :: int

definition leap :: "int \<Rightarrow> bool" where
  "leap y \<longleftrightarrow> 4 dvd y \<and> (100 dvd y \<longrightarrow> 400 dvd y)"

text \<open>\<^verbatim>\<open>Time.AddDate(n, 0, 0)\<close>: the 29th of February becomes the 1st of March where there is none.\<close>

definition add_years :: "int \<Rightarrow> civil \<Rightarrow> civil" where
  "add_years n t =
     (if cv_month t = 2 \<and> cv_day t = 29 \<and> \<not> leap (cv_year t + n)
      then t\<lparr>cv_year := cv_year t + n, cv_month := 3, cv_day := 1\<rparr>
      else t\<lparr>cv_year := cv_year t + n\<rparr>)"

datatype usage = CertSign | CRLSign | DigitalSignature | ServerAuth

record certificate =
  x_SerialNumber :: int
  x_CommonName :: string
  x_NotBefore :: civil
  x_NotAfter :: civil
  x_IsCA :: bool
  x_BasicConstraintsValid :: bool
  x_KeyUsage :: "usage list"
  x_ExtKeyUsage :: "usage list"
  x_IPAddresses :: "Addr list"
  x_RawSubjectPublicKeyInfo :: bytes

datatype private_key = Ed25519Key bytes | OtherKey

record x509 =
  CreateCertificate :: "certificate \<Rightarrow> certificate \<Rightarrow> bytes \<Rightarrow> bytes \<Rightarrow> bytes res"
  MarshalPKCS8PrivateKey :: "bytes \<Rightarrow> bytes res"
  ParseCertificate :: "bytes \<Rightarrow> certificate res"
  ParsePKCS8PrivateKey :: "bytes \<Rightarrow> private_key res"

text \<open>What one certificate takes from outside: a key pair, the bytes of a serial number, the time.\<close>

record entropy =
  e_Key :: "(bytes \<times> bytes) res"
  e_Serial :: "bytes res"
  e_Now :: civil

definition randomSerial :: "bytes res \<Rightarrow> int res" where
  "randomSerial rnd =
     and_then rnd (\<lambda>v. let serial = int (be_nat v) in if serial = 0 then Inr 1 else Inr serial)"

definition ca_template :: "int \<Rightarrow> civil \<Rightarrow> certificate" where
  "ca_template serial t =
     \<lparr>x_SerialNumber = serial, x_CommonName = ''WSN deployment CA'', x_NotBefore = t, x_NotAfter = add_years 10 t,
      x_IsCA = True, x_BasicConstraintsValid = True, x_KeyUsage = [CertSign, CRLSign, DigitalSignature],
      x_ExtKeyUsage = [], x_IPAddresses = [], x_RawSubjectPublicKeyInfo = []\<rparr>"

definition leaf_template :: "int \<Rightarrow> civil \<Rightarrow> Addr \<Rightarrow> certificate" where
  "leaf_template serial t publicIP =
     \<lparr>x_SerialNumber = serial, x_CommonName = ''WSN relay'', x_NotBefore = t, x_NotAfter = add_years 2 t,
      x_IsCA = False, x_BasicConstraintsValid = False, x_KeyUsage = [DigitalSignature],
      x_ExtKeyUsage = [ServerAuth], x_IPAddresses = [publicIP], x_RawSubjectPublicKeyInfo = []\<rparr>"

definition writePEM :: "string \<Rightarrow> string \<Rightarrow> string \<Rightarrow> bytes \<Rightarrow> FileMode \<Rightarrow> unit io" where
  "writePEM directory name blockType der mode = WriteFile directory name (PEM blockType der) mode"

definition generateLeafCertificate ::
  "x509 \<Rightarrow> entropy \<Rightarrow> string \<Rightarrow> Addr \<Rightarrow> certificate \<Rightarrow> bytes \<Rightarrow> unit io" where
  "generateLeafCertificate X e directory publicIP caCertificate caPrivate =
     io_bind (io_lift (e_Key e)) (\<lambda>(leafPublic, leafPrivate).
     io_bind (io_lift (randomSerial (e_Serial e))) (\<lambda>leafSerial.
     io_bind (io_lift (CreateCertificate X (leaf_template leafSerial (e_Now e) publicIP) caCertificate leafPublic caPrivate)) (\<lambda>leafDER.
     io_bind (writePEM directory ''relay.crt'' ''CERTIFICATE'' leafDER mode_0644) (\<lambda>_.
     io_bind (io_lift (MarshalPKCS8PrivateKey X leafPrivate)) (\<lambda>leafKey.
     writePEM directory ''relay.key'' ''PRIVATE KEY'' leafKey mode_0600)))))"

definition generateCertificates :: "x509 \<Rightarrow> entropy \<Rightarrow> entropy \<Rightarrow> string \<Rightarrow> Addr \<Rightarrow> unit io" where
  "generateCertificates X e e' directory publicIP =
     io_bind (io_lift (e_Key e)) (\<lambda>(caPublic, caPrivate).
     io_bind (io_lift (randomSerial (e_Serial e))) (\<lambda>caSerial.
     let caTemplate = ca_template caSerial (e_Now e) in
     io_bind (io_lift (CreateCertificate X caTemplate caTemplate caPublic caPrivate)) (\<lambda>caDER.
     io_bind (writePEM directory ''relay-ca.crt'' ''CERTIFICATE'' caDER mode_0644) (\<lambda>_.
     io_bind (io_lift (MarshalPKCS8PrivateKey X caPrivate)) (\<lambda>caKey.
     io_bind (writePEM directory ''relay-ca.key'' ''PRIVATE KEY'' caKey mode_0600) (\<lambda>_.
     generateLeafCertificate X e' directory publicIP caTemplate caPrivate))))))"

section \<open>State file\<close>

text \<open>
  \<^verbatim>\<open>json.Unmarshal\<close> of another document leaves the version zero or fails; both end in an error.
\<close>

definition loadState :: "string \<Rightarrow> State io" where
  "loadState directory =
     io_bind (ReadFile (join directory ''state.json'')) (\<lambda>c.
       io_lift (case c of
          StateJSON state \<Rightarrow>
            if st_Version state \<noteq> 1 then Inl (Err ''unsupported deployment state version'') else Inr state
        | _ \<Rightarrow> Inl (Err ''unmarshal'')))"

definition saveState :: "string \<Rightarrow> State \<Rightarrow> unit io" where
  "saveState directory state = SaveJSON directory ''state.json'' (StateJSON state) mode_0600"

definition writeRelayConfig :: "string \<Rightarrow> State \<Rightarrow> unit io" where
  "writeRelayConfig directory state = SaveJSON directory ''server.json'' (RelayJSON (relay_config state)) mode_0600"

section \<open>Commands\<close>

text \<open>Whether \<^verbatim>\<open>os.Stat\<close> returns without an error.\<close>

definition Stat :: "string \<Rightarrow> bool io" where
  "Stat path w =
     (case syscall ''stat'' (\<lambda>F. F) w of
        (Inl _, w') \<Rightarrow> (Inr False, w')
      | (Inr _, w') \<Rightarrow> (Inr (files w' path \<noteq> None), w'))"

definition Init :: "x509 \<Rightarrow> entropy \<Rightarrow> entropy \<Rightarrow> string \<Rightarrow> InitOptions \<Rightarrow> unit io" where
  "Init X e e' directory options =
     io_bind (Stat (join directory ''state.json'')) (\<lambda>present.
     if present then io_lift (Inl (Err ''deployment state already exists''))
     else
     io_bind (io_lift (init_state options)) (\<lambda>(publicIP, state).
     io_bind (syscall ''mkdir'' (\<lambda>F. F)) (\<lambda>_.
     io_bind (SaveJSON directory ''state.json'' (StateJSON state) mode_0600) (\<lambda>_.
     io_bind (generateCertificates X e e' directory publicIP) (\<lambda>_.
     writeRelayConfig directory state)))))"

definition AddClient :: "string \<Rightarrow> AddOptions \<Rightarrow> bytes res \<Rightarrow> bytes res \<Rightarrow> ProvisionedClient io" where
  "AddClient directory options key rnd =
     io_bind (loadState directory) (\<lambda>state.
     io_bind (io_lift (add_client state options key rnd)) (\<lambda>(client, state).
     io_bind (saveState directory state) (\<lambda>_.
     io_bind (writeRelayConfig directory state) (\<lambda>_.
     io_lift (Inr client)))))"

definition RevokeClient :: "string \<Rightarrow> string \<Rightarrow> unit io" where
  "RevokeClient directory cid =
     io_bind (loadState directory) (\<lambda>state.
     io_bind (io_lift (revoke_client state cid)) (\<lambda>state.
     io_bind (saveState directory state) (\<lambda>_.
     writeRelayConfig directory state)))"

definition List :: "string \<Rightarrow> ProvisionedClient list io" where
  "List directory = io_bind (loadState directory) (\<lambda>state. io_lift (Inr (st_Clients state)))"

text \<open>\<^verbatim>\<open>pem.Decode\<close> and the parsers of \<^verbatim>\<open>crypto/x509\<close> on the two files of the authority.\<close>

definition decode_ca :: "x509 \<Rightarrow> content \<Rightarrow> certificate res" where
  "decode_ca X c =
     (case c of PEM _ der \<Rightarrow> ParseCertificate X der | _ \<Rightarrow> Inl (Err ''invalid relay CA certificate''))"

definition decode_ca_key :: "x509 \<Rightarrow> content \<Rightarrow> bytes res" where
  "decode_ca_key X c =
     (case c of
        PEM _ der \<Rightarrow>
          and_then (ParsePKCS8PrivateKey X der) (\<lambda>parsedKey.
            case parsedKey of Ed25519Key k \<Rightarrow> Inr k | OtherKey \<Rightarrow> Inl (Err ''unsupported relay CA private key type''))
      | _ \<Rightarrow> Inl (Err ''invalid relay CA private key''))"

definition RotateCertificate :: "x509 \<Rightarrow> entropy \<Rightarrow> string \<Rightarrow> unit io" where
  "RotateCertificate X e directory =
     io_bind (loadState directory) (\<lambda>state.
     io_bind (io_lift (ParseAddr (st_PublicIP state))) (\<lambda>publicIP.
     io_bind (ReadFile (join directory ''relay-ca.crt'')) (\<lambda>caPEM.
     io_bind (io_lift (decode_ca X caPEM)) (\<lambda>caCertificate.
     io_bind (ReadFile (join directory ''relay-ca.key'')) (\<lambda>keyPEM.
     io_bind (io_lift (decode_ca_key X keyPEM)) (\<lambda>caPrivate.
     generateLeafCertificate X e directory publicIP caCertificate caPrivate))))))"

section \<open>The deployment directory\<close>

text \<open>
  What the files of a deployment are, whenever they exist: the two documents hold well-formed
  states and their rendering, and these and the private keys are readable by their owner only.
\<close>

definition dep_ok :: "string \<Rightarrow> content \<times> FileMode \<Rightarrow> bool" where
  "dep_ok name x \<longleftrightarrow>
     (name = ''state.json'' \<longrightarrow> snd x = mode_0600 \<and> (\<exists>st. fst x = StateJSON st \<and> state_ok st))
     \<and> (name = ''server.json'' \<longrightarrow> snd x = mode_0600 \<and> (\<exists>st. fst x = RelayJSON (relay_config st) \<and> state_ok st))
     \<and> (name = ''relay-ca.key'' \<or> name = ''relay.key'' \<longrightarrow> snd x = mode_0600)"

definition dep_raw :: "string \<Rightarrow> bool" where
  "dep_raw name \<longleftrightarrow> name \<noteq> ''state.json'' \<and> name \<noteq> ''server.json''"

interpretation dep: guarded_dir dep_ok dep_raw
  by unfold_locales (simp add: dep_ok_def dep_raw_def)

abbreviation dep_inv :: "string \<Rightarrow> filesystem \<Rightarrow> bool" where
  "dep_inv d \<equiv> guarded d dep_ok"

text \<open>The relay configuration on disk is the one of the state on disk.\<close>

definition synced :: "string \<Rightarrow> State \<Rightarrow> filesystem \<Rightarrow> bool" where
  "synced d st F \<longleftrightarrow> F (join d ''state.json'') = Some (StateJSON st, mode_0600)
     \<and> F (join d ''server.json'') = Some (RelayJSON (relay_config st), mode_0600)"

lemma plain_names [simp]:
  "plain ''state.json''" "plain ''server.json''" "plain ''relay-ca.crt''" "plain ''relay-ca.key''" "plain ''relay.crt''" "plain ''relay.key''"
  by (simp_all add: plain_def HasPrefix_def)

lemma dep_invD: "dep_inv d F \<Longrightarrow> plain n \<Longrightarrow> F (join d n) = Some (c, m) \<Longrightarrow> dep_ok n (c, m)"
  unfolding guarded_def by blast

lemma dep_inv_state:
  assumes "dep_inv d F" and "F (join d ''state.json'') = Some (StateJSON st, m)"
  shows "state_ok st" and "m = mode_0600"
  using assms unfolding guarded_def dep_ok_def by force+

lemma triple_mkdir: "triple I A (syscall what (\<lambda>F. F)) (\<lambda>_. A)"
  by (rule triple_syscall) simp

lemma triple_Stat: "triple I A (Stat path) (\<lambda>_. A)"
proof -
  have "outcome I A (\<lambda>_. A) w (Stat path w)" for w
  proof -
    let ?Q = "\<lambda>r. outcome I A (\<lambda>_. A) w (case r of (Inl _, w') \<Rightarrow> (Inr False, w') | (Inr _, w') \<Rightarrow> (Inr (files w' path \<noteq> None), w'))"
    have "?Q (syscall ''stat'' (\<lambda>F. F) w)" unfolding syscall_def by (rule call_wp [where Q = ?Q]) (simp_all add: outcome_def effect_def)
    then show ?thesis by (simp add: Stat_def)
  qed
  then show ?thesis by (simp add: triple_def)
qed

lemma triple_loadState:
  assumes "\<And>st. st_Version st = 1 \<Longrightarrow> triple I (\<lambda>F. A F \<and> (\<exists>m. F (join d ''state.json'') = Some (StateJSON st, m))) (f st) C"
  shows "triple I A (io_bind (loadState d) f) C"
proof -
  have "triple I A (loadState d) (\<lambda>st F. st_Version st = 1 \<and> A F \<and> (\<exists>m. F (join d ''state.json'') = Some (StateJSON st, m)))"
    unfolding loadState_def
    by (rule triple_bind_read, rule triple_weaken [OF triple_lift]) (auto split: content.splits if_splits)
  moreover have "triple I (\<lambda>F. st_Version st = 1 \<and> A F \<and> (\<exists>m. F (join d ''state.json'') = Some (StateJSON st, m))) (f st) C" for st
    using assms [of st] unfolding triple_def outcome_def by blast
  ultimately show ?thesis by (rule triple_bind)
qed

text \<open>Saving the state and then rendering it leaves the two documents in agreement.\<close>

lemma triple_save_both:
  assumes "\<And>F. dep_inv d F \<Longrightarrow> A F \<Longrightarrow> state_ok st" and "triple (dep_inv d) (synced d st) m C"
  shows "triple (dep_inv d) A (io_bind (saveState d st) (\<lambda>_. io_bind (writeRelayConfig d st) (\<lambda>_. m))) C"
proof (rule triple_bind)
  let ?B = "\<lambda>F. state_ok st \<and> F (join d ''state.json'') = Some (StateJSON st, mode_0600)"
  show "triple (dep_inv d) A (saveState d st) (\<lambda>_. ?B)"
    unfolding saveState_def by (rule dep.save_guarded) (use assms(1) in \<open>auto simp: dep_ok_def\<close>)
  have "triple (dep_inv d) ?B (writeRelayConfig d st) (\<lambda>_. synced d st)"
    unfolding writeRelayConfig_def
    by (rule dep.save_guarded) (auto simp: dep_ok_def synced_def plain_not_tmp)
  then show "triple (dep_inv d) ?B (io_bind (writeRelayConfig d st) (\<lambda>_. m)) C"
    by (rule triple_bind) (rule assms(2))
qed


lemma io_bind_unit: "io_bind m (\<lambda>_. io_lift (Inr ())) = (m :: unit io)"
  by (auto simp: io_bind_def io_lift_def fun_eq_iff split: sum.splits prod.splits)

lemma triple_return: "(\<And>F. A F \<Longrightarrow> B x F) \<Longrightarrow> triple I A (io_lift (Inr x)) B"
  by (rule triple_weaken [OF triple_lift]) auto

text \<open>The state file at the start, whatever it is.\<close>

abbreviation starts :: "string \<Rightarrow> (content \<times> FileMode) option \<Rightarrow> filesystem \<Rightarrow> bool" where
  "starts d S F \<equiv> F (join d ''state.json'') = S"

lemma triple_AddClient:
  assumes "\<And>k. key = Inr k \<Longrightarrow> length k = 32" and "\<And>r. rnd = Inr r \<Longrightarrow> length r = 6"
  shows "triple (dep_inv d) (starts d S) (AddClient d options key rnd)
    (\<lambda>c F. \<exists>st m st'. S = Some (StateJSON st, m) \<and> st_Version st = 1 \<and> add_client st options key rnd = Inr (c, st') \<and> synced d st' F)"
  unfolding AddClient_def
proof (rule triple_loadState, rule triple_bind_lift)
  fix st x assume v: "st_Version st = 1" and add: "add_client st options key rnd = Inr x"
  obtain c st' where x: "x = (c, st')" by (cases x)
  let ?A = "\<lambda>F. starts d S F \<and> (\<exists>m. F (join d ''state.json'') = Some (StateJSON st, m))"
  let ?post = "\<lambda>y F. \<exists>st m st'. S = Some (StateJSON st, m) \<and> st_Version st = 1 \<and> add_client st options key rnd = Inr (y, st') \<and> synced d st' F"
  have "triple (dep_inv d) ?A (io_bind (saveState d st') (\<lambda>_. io_bind (writeRelayConfig d st') (\<lambda>_. io_lift (Inr c)))) ?post"
  proof (cases "\<exists>m. S = Some (StateJSON st, m)")
    case False
    then show ?thesis unfolding triple_def outcome_def by auto
  next
    case True
    show ?thesis
    proof (rule triple_save_both)
      show "state_ok st'" if "dep_inv d F" "?A F" for F
        using dep_inv_state(1) [OF that(1)] that(2) add_client_ok(1) [OF _ add [unfolded x] assms] by blast
      show "triple (dep_inv d) (synced d st') (io_lift (Inr c)) ?post"
        by (rule triple_return) (use True v add x in blast)
    qed
  qed
  then show "triple (dep_inv d) ?A (case x of (client, state) \<Rightarrow>
      io_bind (saveState d state) (\<lambda>_. io_bind (writeRelayConfig d state) (\<lambda>_. io_lift (Inr client)))) ?post"
    by (simp add: x)
qed

lemma triple_RevokeClient:
  "triple (dep_inv d) (starts d S) (RevokeClient d cid)
    (\<lambda>_ F. \<exists>st m st'. S = Some (StateJSON st, m) \<and> st_Version st = 1 \<and> revoke_client st cid = Inr st' \<and> synced d st' F)"
  unfolding RevokeClient_def
proof (rule triple_loadState, rule triple_bind_lift)
  fix st st' assume v: "st_Version st = 1" and rev: "revoke_client st cid = Inr st'"
  let ?A = "\<lambda>F. starts d S F \<and> (\<exists>m. F (join d ''state.json'') = Some (StateJSON st, m))"
  let ?post = "\<lambda>_ F. \<exists>st m st'. S = Some (StateJSON st, m) \<and> st_Version st = 1 \<and> revoke_client st cid = Inr st' \<and> synced d st' F"
  show "triple (dep_inv d) ?A (io_bind (saveState d st') (\<lambda>_. writeRelayConfig d st')) ?post"
  proof (cases "\<exists>m. S = Some (StateJSON st, m)")
    case False
    then show ?thesis unfolding triple_def outcome_def by auto
  next
    case True
    have "triple (dep_inv d) ?A (io_bind (saveState d st') (\<lambda>_. io_bind (writeRelayConfig d st') (\<lambda>_. io_lift (Inr ())))) ?post"
    proof (rule triple_save_both)
      show "state_ok st'" if "dep_inv d F" "?A F" for F
        using dep_inv_state(1) [OF that(1)] that(2) revoke_client_ok [OF _ rev] by blast
      show "triple (dep_inv d) (synced d st') (io_lift (Inr ())) ?post"
        by (rule triple_return) (use True v rev in blast)
    qed
    then show ?thesis by (simp add: io_bind_unit)
  qed
qed

lemma triple_List: "triple I A (List d) (\<lambda>cs F. A F \<and> (\<exists>st m. F (join d ''state.json'') = Some (StateJSON st, m) \<and> cs = st_Clients st))"
  unfolding List_def by (rule triple_loadState, rule triple_return) blast

text \<open>Certificates.  \<open>B\<close> is anything that the four files do not concern.\<close>

lemma triple_writePEM:
  assumes "dep_raw name" and "name = ''relay-ca.key'' \<or> name = ''relay.key'' \<Longrightarrow> mode = mode_0600"
    and "\<And>F m. A F \<Longrightarrow> B (F(join d name \<mapsto> (PEM what der, m)))"
  shows "triple (dep_inv d) A (writePEM d name what der mode) (\<lambda>_. B)"
  unfolding writePEM_def
  by (rule dep.write_guarded) (use assms in \<open>auto simp: dep_ok_def dep_raw_def\<close>)

text \<open>A relay certificate for \<open>ip\<close>, signed with \<open>ca\<close> and its key.\<close>

definition leaf_for :: "x509 \<Rightarrow> certificate \<Rightarrow> bytes \<Rightarrow> Addr \<Rightarrow> content \<Rightarrow> content \<Rightarrow> bool" where
  "leaf_for X ca key ip crt priv \<longleftrightarrow>
     (\<exists>serial t pub k der kder. CreateCertificate X (leaf_template serial t ip) ca pub key = Inr der \<and> 0 < serial
        \<and> MarshalPKCS8PrivateKey X k = Inr kder \<and> crt = PEM ''CERTIFICATE'' der \<and> priv = PEM ''PRIVATE KEY'' kder)"

definition leaf_at :: "x509 \<Rightarrow> certificate \<Rightarrow> bytes \<Rightarrow> Addr \<Rightarrow> string \<Rightarrow> filesystem \<Rightarrow> bool" where
  "leaf_at X ca key ip d F \<longleftrightarrow>
     (\<exists>crt m priv m'. F (join d ''relay.crt'') = Some (crt, m) \<and> F (join d ''relay.key'') = Some (priv, m')
        \<and> leaf_for X ca key ip crt priv)"

lemma randomSerial_pos: "randomSerial r = Inr s \<Longrightarrow> 0 < s"
  by (auto simp: randomSerial_def wsn_res Let_def split: if_splits)

lemma triple_generateLeafCertificate:
  assumes frame: "\<And>F name x. A F \<Longrightarrow> name = ''relay.crt'' \<or> name = ''relay.key'' \<Longrightarrow> A (F(join d name \<mapsto> x))"
    and crt: "\<And>der A B. (\<And>F m. A F \<Longrightarrow> B (F(join d ''relay.crt'' \<mapsto> (PEM ''CERTIFICATE'' der, m)))) \<Longrightarrow>
      triple I A (writePEM d ''relay.crt'' ''CERTIFICATE'' der mode_0644) (\<lambda>_. B)"
    and key: "\<And>der A B. (\<And>F m. A F \<Longrightarrow> B (F(join d ''relay.key'' \<mapsto> (PEM ''PRIVATE KEY'' der, m)))) \<Longrightarrow>
      triple I A (writePEM d ''relay.key'' ''PRIVATE KEY'' der mode_0600) (\<lambda>_. B)"
  shows "triple I A (generateLeafCertificate X e d ip ca k0) (\<lambda>_ F. A F \<and> leaf_at X ca k0 ip d F)"
  unfolding generateLeafCertificate_def
proof (rule triple_bind_lift, simp only: split_paired_all prod.case, rule triple_bind_lift, rule triple_bind_lift)
  fix pub priv serial der
  assume s: "randomSerial (e_Serial e) = Inr serial"
    and der: "CreateCertificate X (leaf_template serial (e_Now e) ip) ca pub k0 = Inr der"
  let ?B = "\<lambda>F. A F \<and> (\<exists>m. F (join d ''relay.crt'') = Some (PEM ''CERTIFICATE'' der, m))"
  have "triple I A (writePEM d ''relay.crt'' ''CERTIFICATE'' der mode_0644) (\<lambda>_. ?B)"
    by (rule crt) (use frame in auto)
  then show "triple I A (io_bind (writePEM d ''relay.crt'' ''CERTIFICATE'' der mode_0644) (\<lambda>_.
      io_bind (io_lift (MarshalPKCS8PrivateKey X priv)) (\<lambda>leafKey. writePEM d ''relay.key'' ''PRIVATE KEY'' leafKey mode_0600)))
      (\<lambda>_ F. A F \<and> leaf_at X ca k0 ip d F)"
  proof (rule triple_bind, intro triple_bind_lift key)
    fix kder F m assume "MarshalPKCS8PrivateKey X priv = Inr kder" and F: "?B F"
    then have "leaf_for X ca k0 ip (PEM ''CERTIFICATE'' der) (PEM ''PRIVATE KEY'' kder)"
      using der randomSerial_pos [OF s] unfolding leaf_for_def by blast
    then show "A (F(join d ''relay.key'' \<mapsto> (PEM ''PRIVATE KEY'' kder, m)))
        \<and> leaf_at X ca k0 ip d (F(join d ''relay.key'' \<mapsto> (PEM ''PRIVATE KEY'' kder, m)))"
      using F frame unfolding leaf_at_def by auto
  qed
qed


lemmas triple_leaf_dep = triple_generateLeafCertificate
  [OF _ triple_writePEM [where name = "''relay.crt''"] triple_writePEM [where name = "''relay.key''"]]

definition ca_at :: "x509 \<Rightarrow> certificate \<Rightarrow> bytes \<Rightarrow> string \<Rightarrow> filesystem \<Rightarrow> bool" where
  "ca_at X ca key d F \<longleftrightarrow>
     (\<exists>serial t pub der kder m m'. ca = ca_template serial t \<and> CreateCertificate X ca ca pub key = Inr der
        \<and> MarshalPKCS8PrivateKey X key = Inr kder \<and> F (join d ''relay-ca.crt'') = Some (PEM ''CERTIFICATE'' der, m)
        \<and> F (join d ''relay-ca.key'') = Some (PEM ''PRIVATE KEY'' kder, m'))"

lemma ca_at_frame:
  "name = ''relay.crt'' \<or> name = ''relay.key'' \<Longrightarrow> ca_at X ca key d (F(join d name \<mapsto> x)) \<longleftrightarrow> ca_at X ca key d F"
  by (auto simp: ca_at_def)

lemma triple_generateCertificates:
  assumes frame: "\<And>F name x. A F \<Longrightarrow> name \<in> {''relay-ca.crt'', ''relay-ca.key'', ''relay.crt'', ''relay.key''} \<Longrightarrow> A (F(join d name \<mapsto> x))"
  shows "triple (dep_inv d) A (generateCertificates X e e' d ip)
    (\<lambda>_ F. A F \<and> (\<exists>ca key. ca_at X ca key d F \<and> leaf_at X ca key ip d F))"
  unfolding generateCertificates_def Let_def
proof (rule triple_bind_lift, simp only: split_paired_all prod.case, rule triple_bind_lift, rule triple_bind_lift)
  fix pub priv serial der
  let ?ca = "ca_template serial (e_Now e)"
  assume der: "CreateCertificate X ?ca ?ca pub priv = Inr der"
  let ?B = "\<lambda>F. A F \<and> (\<exists>m. F (join d ''relay-ca.crt'') = Some (PEM ''CERTIFICATE'' der, m))"
  let ?C = "\<lambda>F. A F \<and> ca_at X ?ca priv d F"
  let ?D = "\<lambda>_ F. A F \<and> (\<exists>ca key. ca_at X ca key d F \<and> leaf_at X ca key ip d F)"
  have "triple (dep_inv d) A (writePEM d ''relay-ca.crt'' ''CERTIFICATE'' der mode_0644) (\<lambda>_. ?B)"
    by (rule triple_writePEM) (use frame in \<open>auto simp: dep_raw_def\<close>)
  moreover have "triple (dep_inv d) ?B (writePEM d ''relay-ca.key'' ''PRIVATE KEY'' kder mode_0600) (\<lambda>_. ?C)"
    if "MarshalPKCS8PrivateKey X priv = Inr kder" for kder
    by (rule triple_writePEM) (use frame that der in \<open>auto simp: dep_raw_def ca_at_def\<close>)
  moreover have "triple (dep_inv d) ?C (generateLeafCertificate X e' d ip ?ca priv) ?D"
  proof (rule triple_weaken [OF triple_leaf_dep [where A = ?C]])
    show "?C (F(join d name \<mapsto> x))" if "?C F" "name = ''relay.crt'' \<or> name = ''relay.key''" for F name x
    proof
      show "A (F(join d name \<mapsto> x))" by (rule frame) (use that in auto)
      show "ca_at X ?ca priv d (F(join d name \<mapsto> x))" using that ca_at_frame by simp
    qed
  qed (auto simp: dep_raw_def)
  ultimately show "triple (dep_inv d) A (io_bind (writePEM d ''relay-ca.crt'' ''CERTIFICATE'' der mode_0644) (\<lambda>_.
      io_bind (io_lift (MarshalPKCS8PrivateKey X priv)) (\<lambda>caKey.
      io_bind (writePEM d ''relay-ca.key'' ''PRIVATE KEY'' caKey mode_0600) (\<lambda>_.
      generateLeafCertificate X e' d ip ?ca priv)))) ?D"
    by (intro triple_bind [where B = "\<lambda>_. ?B"] triple_bind_lift triple_bind [where A = ?B and B = "\<lambda>_. ?C"])
qed


lemma triple_Init:
  "triple (dep_inv d) (\<lambda>_. True) (Init X e e' d options)
    (\<lambda>_ F. \<exists>ip st ca key. init_state options = Inr (ip, st) \<and> synced d st F \<and> ca_at X ca key d F \<and> leaf_at X ca key ip d F)"
  unfolding Init_def
proof (rule triple_bind [OF triple_Stat])
  fix present
  let ?post = "\<lambda>_ F. \<exists>ip st ca key. init_state options = Inr (ip, st) \<and> synced d st F \<and> ca_at X ca key d F \<and> leaf_at X ca key ip d F"
  have "triple (dep_inv d) (\<lambda>_. True) (io_bind (syscall ''mkdir'' (\<lambda>F. F)) (\<lambda>_.
      io_bind (SaveJSON d ''state.json'' (StateJSON st) mode_0600) (\<lambda>_.
      io_bind (generateCertificates X e e' d ip) (\<lambda>_. writeRelayConfig d st)))) ?post"
    if st: "init_state options = Inr (ip, st)" for ip st
  proof (rule triple_bind [OF triple_mkdir], rule triple_bind)
    let ?A = "\<lambda>F. F (join d ''state.json'') = Some (StateJSON st, mode_0600)"
    let ?B = "\<lambda>_ F. ?A F \<and> (\<exists>ca key. ca_at X ca key d F \<and> leaf_at X ca key ip d F)"
    show "triple (dep_inv d) (\<lambda>_. True) (SaveJSON d ''state.json'' (StateJSON st) mode_0600) (\<lambda>_. ?A)"
      by (rule dep.save_guarded) (use init_state_ok [OF st] in \<open>auto simp: dep_ok_def\<close>)
    have certs: "triple (dep_inv d) ?A (generateCertificates X e e' d ip) ?B"
      by (rule triple_generateCertificates) auto
    have render: "triple (dep_inv d) (?B u) (writeRelayConfig d st) ?post" for u
      unfolding writeRelayConfig_def
    proof (rule dep.save_guarded)
      fix F G :: filesystem
      assume F: "?B u F" and G: "G (join d ''server.json'') = Some (RelayJSON (relay_config st), mode_0600)"
        "\<forall>p. p \<notin> tmps d \<longrightarrow> p \<noteq> join d ''server.json'' \<longrightarrow> G p = F p"
      have same: "G (join d n) = F (join d n)" if "plain n" "n \<noteq> ''server.json''" for n
        using G(2) plain_not_tmp [OF that(1)] that(2) by simp
      obtain ca key where "ca_at X ca key d F" "leaf_at X ca key ip d F" using F by blast
      then have "ca_at X ca key d G" "leaf_at X ca key ip d G" by (simp_all add: ca_at_def leaf_at_def same)
      moreover have "synced d st G" using F G(1) by (simp add: synced_def same)
      ultimately show "\<exists>ip st ca key. init_state options = Inr (ip, st) \<and> synced d st G \<and> ca_at X ca key d G \<and> leaf_at X ca key ip d G"
        using st by blast
    qed (use init_state_ok [OF st] in \<open>auto simp: dep_ok_def\<close>)
    show "triple (dep_inv d) ?A (io_bind (generateCertificates X e e' d ip) (\<lambda>_. writeRelayConfig d st)) ?post"
      by (rule triple_bind [OF certs render])
  qed
  moreover have "triple (dep_inv d) (\<lambda>_. True) (io_lift (Inl err)) ?post" for err
    by (rule triple_weaken [OF triple_lift]) auto
  ultimately show "triple (dep_inv d) (\<lambda>_. True) (if present then io_lift (Inl (Err ''deployment state already exists''))
      else io_bind (io_lift (init_state options)) (\<lambda>(publicIP, state). io_bind (syscall ''mkdir'' (\<lambda>F. F)) (\<lambda>_.
      io_bind (SaveJSON d ''state.json'' (StateJSON state) mode_0600) (\<lambda>_.
      io_bind (generateCertificates X e e' d publicIP) (\<lambda>_. writeRelayConfig d state))))) ?post"
    by (auto intro!: triple_bind_lift)
qed

text \<open>Rotation, for any invariant that the two files of the relay certificate do not concern.\<close>

lemma triple_RotateCertificate:
  assumes frame: "\<And>F name x. A F \<Longrightarrow> name = ''relay.crt'' \<or> name = ''relay.key'' \<Longrightarrow> A (F(join d name \<mapsto> x))"
    and crt: "\<And>der A B. (\<And>F m. A F \<Longrightarrow> B (F(join d ''relay.crt'' \<mapsto> (PEM ''CERTIFICATE'' der, m)))) \<Longrightarrow>
      triple I A (writePEM d ''relay.crt'' ''CERTIFICATE'' der mode_0644) (\<lambda>_. B)"
    and key: "\<And>der A B. (\<And>F m. A F \<Longrightarrow> B (F(join d ''relay.key'' \<mapsto> (PEM ''PRIVATE KEY'' der, m)))) \<Longrightarrow>
      triple I A (writePEM d ''relay.key'' ''PRIVATE KEY'' der mode_0600) (\<lambda>_. B)"
  shows "triple I A (RotateCertificate X e d)
    (\<lambda>_ F. A F \<and> (\<exists>st m ip crt mc ca kp mk k. F (join d ''state.json'') = Some (StateJSON st, m) \<and> ParseAddr (st_PublicIP st) = Inr ip
       \<and> F (join d ''relay-ca.crt'') = Some (crt, mc) \<and> decode_ca X crt = Inr ca
       \<and> F (join d ''relay-ca.key'') = Some (kp, mk) \<and> decode_ca_key X kp = Inr k \<and> leaf_at X ca k ip d F))"
  unfolding RotateCertificate_def
proof (intro triple_loadState triple_bind_lift triple_bind_read)
  fix st :: State and ip crt ca kp k
  assume a: "ParseAddr (st_PublicIP st) = Inr ip" "decode_ca X crt = Inr ca" "decode_ca_key X kp = Inr k"
  let ?A = "\<lambda>F. ((A F \<and> (\<exists>m. F (join d ''state.json'') = Some (StateJSON st, m))) \<and> (\<exists>m. F (join d ''relay-ca.crt'') = Some (crt, m)))
     \<and> (\<exists>m. F (join d ''relay-ca.key'') = Some (kp, m))"
  show "triple I ?A (generateLeafCertificate X e d ip ca k)
    (\<lambda>_ F. A F \<and> (\<exists>st m ip crt mc ca kp mk k. F (join d ''state.json'') = Some (StateJSON st, m) \<and> ParseAddr (st_PublicIP st) = Inr ip
       \<and> F (join d ''relay-ca.crt'') = Some (crt, mc) \<and> decode_ca X crt = Inr ca
       \<and> F (join d ''relay-ca.key'') = Some (kp, mk) \<and> decode_ca_key X kp = Inr k \<and> leaf_at X ca k ip d F))"
  proof (rule triple_weaken [OF triple_generateLeafCertificate [where A = ?A, OF _ crt key]])
    show "?A (F(join d name \<mapsto> x))" if "?A F" "name = ''relay.crt'' \<or> name = ''relay.key''" for F name x
      using that frame by auto
  qed (use a in blast)+
qed


section \<open>Rotation in a guarded directory\<close>

lemmas triple_Rotate_dep = triple_RotateCertificate
  [where A = "\<lambda>_. True", OF _ triple_writePEM [where name = "''relay.crt''"] triple_writePEM [where name = "''relay.key''"]]

lemma triple_effect: "triple I A m B \<Longrightarrow> I (files w) \<Longrightarrow> A (files w) \<Longrightarrow> effect (\<lambda>F G. I F \<longrightarrow> I G) w (snd (m w))"
  unfolding triple_def outcome_def by blast

section \<open>Crash states of an update\<close>

text \<open>The pairs of documents that an update of the state to \<open>st'\<close> can leave: the state is replaced first.\<close>

definition update_states :: "string \<Rightarrow> (content \<times> FileMode) option \<Rightarrow> (content \<times> FileMode) option \<Rightarrow> State \<Rightarrow> filesystem \<Rightarrow> bool" where
  "update_states d S V st' F \<longleftrightarrow>
     (F (join d ''state.json'') = S \<and> F (join d ''server.json'') = V)
     \<or> (F (join d ''state.json'') = Some (StateJSON st', mode_0600)
         \<and> (F (join d ''server.json'') = V \<or> F (join d ''server.json'') = Some (RelayJSON (relay_config st'), mode_0600)))"

lemma triple_update:
  assumes "triple (update_states d S V st') (synced d st') m C"
  shows "triple (update_states d S V st') (\<lambda>F. F (join d ''state.json'') = S \<and> F (join d ''server.json'') = V)
    (io_bind (saveState d st') (\<lambda>_. io_bind (writeRelayConfig d st') (\<lambda>_. m))) C"
proof (rule triple_bind)
  let ?I = "update_states d S V st'"
  let ?A = "\<lambda>F. F (join d ''state.json'') = S \<and> F (join d ''server.json'') = V"
  let ?B = "\<lambda>F. F (join d ''state.json'') = Some (StateJSON st', mode_0600) \<and> F (join d ''server.json'') = V"
  have nt: "join d ''state.json'' \<notin> tmps d" "join d ''server.json'' \<notin> tmps d" by (simp_all add: plain_not_tmp)
  show "triple ?I ?A (saveState d st') (\<lambda>_. ?B)"
    unfolding saveState_def
  proof (rule triple_SaveJSON)
    fix F G assume F: "?A F" and G: "\<forall>p. p \<notin> tmps d \<longrightarrow> G p = F p \<or> (p = join d ''state.json'' \<and> G p = Some (StateJSON st', mode_0600))"
    show "?I G" using F G [rule_format, OF nt(1)] G [rule_format, OF nt(2)] by (auto simp: update_states_def)
  qed (use nt in simp_all)
  have "triple ?I ?B (writeRelayConfig d st') (\<lambda>_. synced d st')"
    unfolding writeRelayConfig_def
  proof (rule triple_SaveJSON)
    fix F G assume F: "?B F"
      and G: "\<forall>p. p \<notin> tmps d \<longrightarrow> G p = F p \<or> (p = join d ''server.json'' \<and> G p = Some (RelayJSON (relay_config st'), mode_0600))"
    show "?I G" using F G [rule_format, OF nt(1)] G [rule_format, OF nt(2)] by (auto simp: update_states_def)
  qed (use nt in \<open>simp_all add: synced_def\<close>)
  then show "triple ?I ?B (io_bind (writeRelayConfig d st') (\<lambda>_. m)) C"
    by (rule triple_bind) (rule assms)
qed


lemma triple_vacuous: "(\<And>F. \<not> A F) \<Longrightarrow> triple I A m B"
  by (simp add: triple_def outcome_def)

lemma triple_known_state:
  assumes "st_Version st = 1 \<Longrightarrow> triple I (\<lambda>F. F (join d ''state.json'') = Some (StateJSON st, m) \<and> A F) (f st) C"
  shows "triple I (\<lambda>F. F (join d ''state.json'') = Some (StateJSON st, m) \<and> A F) (io_bind (loadState d) f) C"
proof (rule triple_loadState)
  fix st2 :: State assume v: "st_Version st2 = 1"
  show "triple I (\<lambda>F. (F (join d ''state.json'') = Some (StateJSON st, m) \<and> A F) \<and> (\<exists>m. F (join d ''state.json'') = Some (StateJSON st2, m))) (f st2) C"
  proof (cases "st2 = st")
    case True
    have "triple I (\<lambda>F. F (join d ''state.json'') = Some (StateJSON st, m) \<and> A F) (f st2) C" using assms v True by simp
    then show ?thesis by (rule triple_weaken) auto
  next
    case False
    then show ?thesis by (intro triple_vacuous) auto
  qed
qed

lemma triple_AddClient_update:
  assumes "add_client st options key rnd = Inr (c, st')"
  shows "triple (update_states d (Some (StateJSON st, m)) V st')
    (\<lambda>F. F (join d ''state.json'') = Some (StateJSON st, m) \<and> F (join d ''server.json'') = V)
    (AddClient d options key rnd) (\<lambda>y F. y = c \<and> synced d st' F)"
  unfolding AddClient_def
proof (rule triple_known_state, rule triple_bind_lift)
  fix x assume "add_client st options key rnd = Inr x"
  then have x: "x = (c, st')" using assms by simp
  show "triple (update_states d (Some (StateJSON st, m)) V st')
    (\<lambda>F. F (join d ''state.json'') = Some (StateJSON st, m) \<and> F (join d ''server.json'') = V)
    (case x of (client, state) \<Rightarrow> io_bind (saveState d state) (\<lambda>_. io_bind (writeRelayConfig d state) (\<lambda>_. io_lift (Inr client))))
    (\<lambda>y F. y = c \<and> synced d st' F)"
    unfolding x prod.case by (rule triple_update, rule triple_return) simp
qed

lemma triple_RevokeClient_update:
  assumes "revoke_client st cid = Inr st'"
  shows "triple (update_states d (Some (StateJSON st, m)) V st')
    (\<lambda>F. F (join d ''state.json'') = Some (StateJSON st, m) \<and> F (join d ''server.json'') = V)
    (RevokeClient d cid) (\<lambda>_. synced d st')"
  unfolding RevokeClient_def
proof (rule triple_known_state, rule triple_bind_lift)
  fix x assume "revoke_client st cid = Inr x"
  then have x: "x = st'" using assms by simp
  have "triple (update_states d (Some (StateJSON st, m)) V st')
    (\<lambda>F. F (join d ''state.json'') = Some (StateJSON st, m) \<and> F (join d ''server.json'') = V)
    (io_bind (saveState d st') (\<lambda>_. io_bind (writeRelayConfig d st') (\<lambda>_. io_lift (Inr ())))) (\<lambda>_. synced d st')"
    by (rule triple_update, rule triple_return) simp
  then show "triple (update_states d (Some (StateJSON st, m)) V st')
    (\<lambda>F. F (join d ''state.json'') = Some (StateJSON st, m) \<and> F (join d ''server.json'') = V)
    (io_bind (saveState d x) (\<lambda>_. writeRelayConfig d x)) (\<lambda>_. synced d st')"
    unfolding x io_bind_unit .
qed

text \<open>
  C30. Order of a revocation.  Wherever \<^verbatim>\<open>RevokeClient\<close> fails or is cut off, the two documents are both old,
  or the state is new and the relay configuration old, or both are new: the state is replaced first, and
  each document in one step.  When it reports success both are new, and the identity is in neither.
\<close>

theorem revocation_order:
  assumes "files w (join d ''state.json'') = Some (StateJSON st, m)" and "revoke_client st cid = Inr st'"
    and "RevokeClient d cid w = (r, w')"
  shows "(\<exists>hs. history w' = history w @ hs \<and> (\<forall>F \<in> set (files w' # hs).
      (F (join d ''state.json'') = files w (join d ''state.json'') \<and> F (join d ''server.json'') = files w (join d ''server.json''))
      \<or> (F (join d ''state.json'') = Some (StateJSON st', mode_0600) \<and> F (join d ''server.json'') = files w (join d ''server.json''))
      \<or> (F (join d ''state.json'') = Some (StateJSON st', mode_0600) \<and> F (join d ''server.json'') = Some (RelayJSON (relay_config st'), mode_0600))))
    \<and> (r = Inr () \<longrightarrow>
        files w' (join d ''state.json'') = Some (StateJSON st', mode_0600)
        \<and> files w' (join d ''server.json'') = Some (RelayJSON (relay_config st'), mode_0600)
        \<and> cid \<notin> pc_ID ` set (st_Clients st') \<and> cid \<notin> rc_ID ` set (r_Clients (relay_config st')))"
proof -
  let ?V = "files w (join d ''server.json'')"
  note t = tripleD [OF triple_RevokeClient_update [OF assms(2), where m = m and V = ?V] assms(3)]
  have i: "update_states d (Some (StateJSON st, m)) ?V st' (files w)" using assms(1) by (simp add: update_states_def)
  obtain hs where hs: "history w' = history w @ hs" "\<forall>F \<in> set hs. update_states d (Some (StateJSON st, m)) ?V st' F"
    using t(1) [OF i] assms(1) by blast
  moreover have "update_states d (Some (StateJSON st, m)) ?V st' (files w')" using t(2) [OF i] assms(1) by blast
  ultimately have all: "\<forall>F \<in> set (files w' # hs). update_states d (Some (StateJSON st, m)) ?V st' F" by simp
  have "synced d st' (files w')" if "r = Inr ()" using t(3) [OF i _ that] assms(1) by blast
  moreover have "cid \<notin> pc_ID ` set (st_Clients st')" using assms(2) by (auto simp: revoke_client_Inr)
  moreover have "cid \<notin> rc_ID ` set (r_Clients (relay_config st'))" using calculation(2) by (auto simp: relay_config_def)
  ultimately show ?thesis
    using hs(1) all assms(1) unfolding update_states_def synced_def by (intro conjI exI [of _ hs]) auto
qed


section \<open>Rotation\<close>

lemma triple_WriteFile_others:
  assumes "path = join d name" and "\<And>F m. A F \<Longrightarrow> B (F(path \<mapsto> (v, m)))" and "path \<in> P"
  shows "triple (\<lambda>F. \<forall>p. p \<notin> P \<longrightarrow> F p = F0 p) A (WriteFile d name v mode) (\<lambda>_. B)"
  by (rule triple_WriteFile) (use assms in auto)

text \<open>
  Rotation keeps the authority.  \<^verbatim>\<open>RotateCertificate\<close> changes no file but \<^verbatim>\<open>relay.crt\<close> and \<^verbatim>\<open>relay.key\<close>, whatever
  fails, so that clients keep trusting the deployment; when it reports success, the two hold
  a certificate for the public address of the stored state, signed with the stored authority.
\<close>

lemma rotation_keeps_authority:
  assumes "RotateCertificate X e d w = (r, w')"
  shows "(\<exists>hs. history w' = history w @ hs \<and> (\<forall>F \<in> set (files w' # hs). \<forall>p.
      p \<noteq> join d ''relay.crt'' \<and> p \<noteq> join d ''relay.key'' \<longrightarrow> F p = files w p))
    \<and> (r = Inr () \<longrightarrow> (\<exists>st m ip crt mc ca kp mk k serial t pub der priv kder m1 m2.
        files w (join d ''state.json'') = Some (StateJSON st, m) \<and> ParseAddr (st_PublicIP st) = Inr ip
        \<and> files w (join d ''relay-ca.crt'') = Some (crt, mc) \<and> decode_ca X crt = Inr ca
        \<and> files w (join d ''relay-ca.key'') = Some (kp, mk) \<and> decode_ca_key X kp = Inr k
        \<and> CreateCertificate X (leaf_template serial t ip) ca pub k = Inr der \<and> MarshalPKCS8PrivateKey X priv = Inr kder
        \<and> files w' (join d ''relay.crt'') = Some (PEM ''CERTIFICATE'' der, m1)
        \<and> files w' (join d ''relay.key'') = Some (PEM ''PRIVATE KEY'' kder, m2)))"
proof -
  let ?P = "{join d ''relay.crt'', join d ''relay.key''}"
  let ?I = "\<lambda>F. \<forall>p. p \<notin> ?P \<longrightarrow> F p = files w p"
  have "triple ?I (\<lambda>_. True) (RotateCertificate X e d)
    (\<lambda>_ F. True \<and> (\<exists>st m ip crt mc ca kp mk k. F (join d ''state.json'') = Some (StateJSON st, m) \<and> ParseAddr (st_PublicIP st) = Inr ip
       \<and> F (join d ''relay-ca.crt'') = Some (crt, mc) \<and> decode_ca X crt = Inr ca
       \<and> F (join d ''relay-ca.key'') = Some (kp, mk) \<and> decode_ca_key X kp = Inr k \<and> leaf_at X ca k ip d F))"
    by (rule triple_RotateCertificate, simp; unfold writePEM_def, rule triple_WriteFile_others [OF refl]; simp)
  note t = tripleD [OF this assms]
  have fr: "?I (files w')" using t(2) by simp
  obtain hs where hs: "history w' = history w @ hs" "\<forall>F \<in> set hs. ?I F" using t(1) by auto
  have "\<exists>st m ip crt mc ca kp mk k. files w' (join d ''state.json'') = Some (StateJSON st, m) \<and> ParseAddr (st_PublicIP st) = Inr ip
       \<and> files w' (join d ''relay-ca.crt'') = Some (crt, mc) \<and> decode_ca X crt = Inr ca
       \<and> files w' (join d ''relay-ca.key'') = Some (kp, mk) \<and> decode_ca_key X kp = Inr k \<and> leaf_at X ca k ip d (files w')" if "r = Inr ()"
    using t(3) [OF _ _ that] by simp
  then show ?thesis
    using hs fr unfolding leaf_at_def leaf_for_def by (intro conjI exI [of _ hs] impI) (auto, blast+)
qed

section \<open>Examples\<close>

definition ex_x509 :: x509 where
  "ex_x509 = \<lparr>CreateCertificate = (\<lambda>t _ pub _. Inr (pub @ [of_int (x_SerialNumber t)])), MarshalPKCS8PrivateKey = Inr,
     ParseCertificate = (\<lambda>der. Inr (ca_template 7 \<lparr>cv_year = 2025, cv_month = 1, cv_day = 1, cv_nanos = 0\<rparr>)),
     ParsePKCS8PrivateKey = (\<lambda>der. Inr (Ed25519Key der))\<rparr>"

definition ex_entropy :: entropy where
  "ex_entropy = \<lparr>e_Key = Inr ([9], [8]), e_Serial = Inr [0, 7], e_Now = \<lparr>cv_year = 2024, cv_month = 2, cv_day = 29, cv_nanos = 0\<rparr>\<rparr>"

definition ex_init :: InitOptions where
  "ex_init = \<lparr>i_PublicIP = ''192.0.2.1'', i_Overlay = ''10.0.0.0/24'', i_Gateway = ''10.0.0.1'', i_DNS = '''', i_Search = []\<rparr>"

definition ex_empty :: "bool list \<Rightarrow> world" where
  "ex_empty fs = \<lparr>files = Map.empty, unsynced = {}, trail = [], faults = fs, tmp_nr = 0\<rparr>"

definition ex_pc :: ProvisionedClient where
  "ex_pc = \<lparr>pc_ID = ''a'', pc_OS = ''linux'', pc_Role = '''', pc_Address = '''', pc_MAC = '''',
     pc_Key = '''', pc_Device = '''', pc_Routes = [], pc_Egress = ''''\<rparr>"

definition ex_state :: State where
  "ex_state = \<lparr>st_Version = 1, st_PublicIP = ''1.2.3.4'', st_Overlay = '''', st_Gateway = '''',
     st_DNS = '''', st_Search = [], st_Clients = [ex_pc]\<rparr>"

definition ex_deployed :: "bool list \<Rightarrow> world" where
  "ex_deployed fs = \<lparr>files = [''/d/state.json'' \<mapsto> (StateJSON ex_state, mode_0600),
       ''/d/server.json'' \<mapsto> (RelayJSON (relay_config ex_state), mode_0600),
       ''/d/relay-ca.crt'' \<mapsto> (PEM ''CERTIFICATE'' [1], mode_0644), ''/d/relay-ca.key'' \<mapsto> (PEM ''PRIVATE KEY'' [2], mode_0600)],
     unsynced = {}, trail = [], faults = fs, tmp_nr = 0\<rparr>"

lemma ex_deployed_files:
  "files (ex_deployed fs) (join ''/d'' ''state.json'') = Some (StateJSON ex_state, mode_0600)"
  "files (ex_deployed fs) (join ''/d'' ''server.json'') = Some (RelayJSON (relay_config ex_state), mode_0600)"
  by (simp_all add: ex_deployed_def join_def)

lemma ex_revoked: "revoke_client ex_state ''a'' = Inr (ex_state\<lparr>st_Clients := []\<rparr>)"
  by (simp add: revoke_client_def ex_state_def ex_pc_def)

lemma RevokeClient_no_faults:
  assumes "faults w = []" and "files w (join d ''state.json'') = Some (StateJSON st, m)" and "st_Version st = 1"
    and "revoke_client st cid = Inr st'"
  shows "fst (RevokeClient d cid w) = Inr ()"
proof -
  obtain w1 where w1: "ReadFile (join d ''state.json'') w = (Inr (StateJSON st), w1)" "faults w1 = []"
    using ReadFile_no_faults [OF assms(1,2)] by (cases "ReadFile (join d ''state.json'') w") auto
  obtain w2 where w2: "saveState d st' w1 = (Inr (), w2)" "faults w2 = []"
    using SaveJSON_no_faults [OF w1(2), of d "''state.json''" "StateJSON st'" mode_0600] unfolding saveState_def
    by (cases "SaveJSON d ''state.json'' (StateJSON st') mode_0600 w1") auto
  have "fst (writeRelayConfig d st' w2) = Inr ()" using SaveJSON_no_faults [OF w2(2)] by (simp add: writeRelayConfig_def)
  then show ?thesis using w1 w2 assms(3,4) by (simp add: RevokeClient_def loadState_def io_bind_def io_lift_def)
qed

theorem revocation_order_witness:
  "\<exists>w'. RevokeClient ''/d'' ''a'' (ex_deployed []) = (Inr (), w')
     \<and> files w' (join ''/d'' ''server.json'') = Some (RelayJSON (relay_config (ex_state\<lparr>st_Clients := []\<rparr>)), mode_0600)"
proof -
  obtain r w' where r: "RevokeClient ''/d'' ''a'' (ex_deployed []) = (r, w')" by fastforce
  moreover have "fst (RevokeClient ''/d'' ''a'' (ex_deployed [])) = Inr ()"
    by (rule RevokeClient_no_faults [OF _ ex_deployed_files(1) _ ex_revoked]) (simp_all add: ex_deployed_def ex_state_def)
  ultimately have "r = Inr ()" by simp
  moreover note revocation_order [OF ex_deployed_files(1) ex_revoked r]
  ultimately show ?thesis using r by simp
qed

text \<open>The middle state is reachable: an error of the second save leaves the state without the client and the relay with it.\<close>

lemma revocation_can_drift:
  "\<exists>w'. RevokeClient ''/d'' ''a'' (ex_deployed (replicate 10 False @ [True])) = (Inl (Err ''marshal''), w')
     \<and> files w' ''/d/state.json'' = Some (StateJSON (ex_state\<lparr>st_Clients := []\<rparr>), mode_0600)
     \<and> files w' ''/d/server.json'' = Some (RelayJSON (relay_config ex_state), mode_0600)"
proof -
  let ?rw = "RevokeClient ''/d'' ''a'' (ex_deployed (replicate 10 False @ [True]))"
  have "fst ?rw = Inl (Err ''marshal'')" by code_simp
  moreover have "files (snd ?rw) ''/d/state.json'' = Some (StateJSON (ex_state\<lparr>st_Clients := []\<rparr>), mode_0600)" by code_simp
  moreover have "files (snd ?rw) ''/d/server.json'' = Some (RelayJSON (relay_config ex_state), mode_0600)" by code_simp
  ultimately show ?thesis by (intro exI [of _ "snd ?rw"] conjI) (simp_all add: prod_eq_iff)
qed

end
