(* ===== verification/Crypto.thy ===== *)
theory Crypto
  imports Prelude
begin

text \<open>
  Go's \<^verbatim>\<open>crypto/sha256\<close>, \<^verbatim>\<open>crypto/hmac\<close> and \<^verbatim>\<open>crypto/subtle\<close>: SHA-256 as FIPS 180-4
  defines it on 32-bit words, HMAC as FIPS 198-1 with the 64-byte block of
  SHA-256, and the constant-time comparison behind \<^verbatim>\<open>hmac.Equal\<close>.
\<close>

unbundle bit_operations_syntax

section \<open>SHA-256\<close>

type_synonym hash_state =
  "32 word \<times> 32 word \<times> 32 word \<times> 32 word \<times> 32 word \<times> 32 word \<times> 32 word \<times> 32 word"

text \<open>The round constants, eight to a row, first in the highest bits.\<close>

definition sha_row :: "int \<Rightarrow> 32 word list" where
  "sha_row x = map (\<lambda>i. word_of_int (drop_bit i x)) [224, 192, 160, 128, 96, 64, 32, 0]"

definition sha_K :: "32 word list" where
  "sha_K = concat (map sha_row
    [0x428a2f9871374491b5c0fbcfe9b5dba53956c25b59f111f1923f82a4ab1c5ed5,
     0xd807aa9812835b01243185be550c7dc372be5d7480deb1fe9bdc06a7c19bf174,
     0xe49b69c1efbe47860fc19dc6240ca1cc2de92c6f4a7484aa5cb0a9dc76f988da,
     0x983e5152a831c66db00327c8bf597fc7c6e00bf3d5a7914706ca635114292967,
     0x27b70a852e1b21384d2c6dfc53380d13650a7354766a0abb81c2c92e92722c85,
     0xa2bfe8a1a81a664bc24b8b70c76c51a3d192e819d6990624f40e3585106aa070,
     0x19a4c1161e376c082748774c34b0bcb5391c0cb34ed8aa4a5b9cca4f682e6ff3,
     0x748f82ee78a5636f84c878148cc7020890befffaa4506cebbef9a3f7c67178f2])"

definition sha_init :: hash_state where
  "sha_init = (0x6a09e667, 0xbb67ae85, 0x3c6ef372, 0xa54ff53a,
               0x510e527f, 0x9b05688c, 0x1f83d9ab, 0x5be0cd19)"

definition sha_pad :: "bytes \<Rightarrow> bytes" where
  "sha_pad m =
     (let r = length m mod 64; z = (if r < 56 then 55 - r else 119 - r)
      in m @ 0x80 # replicate z 0
           @ map (\<lambda>i. ucast (drop_bit i (word_of_nat (8 * length m) :: 64 word))) [56, 48, 40, 32, 24, 16, 8, 0])"

fun be_words :: "bytes \<Rightarrow> 32 word list" where
  "be_words (a # b # c # d # r) = (push_bit 24 (ucast a) OR push_bit 16 (ucast b) OR push_bit 8 (ucast c) OR ucast d) # be_words r"
| "be_words _ = []"

definition sigma0 :: "32 word \<Rightarrow> 32 word" where
  "sigma0 x = word_rotr 7 x XOR word_rotr 18 x XOR drop_bit 3 x"

definition sigma1 :: "32 word \<Rightarrow> 32 word" where
  "sigma1 x = word_rotr 17 x XOR word_rotr 19 x XOR drop_bit 10 x"

definition Sigma0 :: "32 word \<Rightarrow> 32 word" where
  "Sigma0 x = word_rotr 2 x XOR word_rotr 13 x XOR word_rotr 22 x"

definition Sigma1 :: "32 word \<Rightarrow> 32 word" where
  "Sigma1 x = word_rotr 6 x XOR word_rotr 11 x XOR word_rotr 25 x"

text \<open>The message schedule: the last sixteen words are kept, newest last.\<close>

fun sha_schedule :: "nat \<Rightarrow> 32 word list \<Rightarrow> 32 word list" where
  "sha_schedule 0 ws = []"
| "sha_schedule (Suc n) ws =
     hd ws # sha_schedule n
       (tl ws @ [sigma1 (ws ! 14) + ws ! 9 + sigma0 (ws ! 1) + ws ! 0])"

fun sha_round :: "hash_state \<Rightarrow> 32 word \<times> 32 word \<Rightarrow> hash_state" where
  "sha_round (a, b, c, d, e, f, g, h) (k, w) =
     (let t1 = h + Sigma1 e + ((e AND f) XOR (NOT e AND g)) + k + w;
          t2 = Sigma0 a + ((a AND b) XOR (a AND c) XOR (b AND c))
      in (t1 + t2, a, b, c, d + t1, e, f, g))"

fun sha_add :: "hash_state \<Rightarrow> hash_state \<Rightarrow> hash_state" where
  "sha_add (a, b, c, d, e, f, g, h) (a', b', c', d', e', f', g', h') =
     (a + a', b + b', c + c', d + d', e + e', f + f', g + g', h + h')"

definition sha_block :: "hash_state \<Rightarrow> bytes \<Rightarrow> hash_state" where
  "sha_block s blk = sha_add s (foldl sha_round s (zip sha_K (sha_schedule 64 (be_words blk))))"

fun sha_blocks :: "nat \<Rightarrow> hash_state \<Rightarrow> bytes \<Rightarrow> hash_state" where
  "sha_blocks 0 s m = s"
| "sha_blocks (Suc n) s m = sha_blocks n (sha_block s (take 64 m)) (drop 64 m)"

fun sha_out :: "hash_state \<Rightarrow> bytes" where
  "sha_out (a, b, c, d, e, f, g, h) =
     concat (map (\<lambda>w. map (\<lambda>i. ucast (drop_bit i w)) [24, 16, 8, 0]) [a, b, c, d, e, f, g, h])"

definition sha256 :: "bytes \<Rightarrow> bytes" where
  "sha256 m = (let p = sha_pad m in sha_out (sha_blocks (length p div 64) sha_init p))"

section \<open>HMAC\<close>

definition hmac_key :: "bytes \<Rightarrow> bytes" where
  "hmac_key k = (let k' = if length k > 64 then sha256 k else k in k' @ replicate (64 - length k') 0)"

definition hmac_sha256 :: "bytes \<Rightarrow> bytes \<Rightarrow> bytes" where
  "hmac_sha256 k m =
     sha256 (map (\<lambda>b. b XOR 0x5c) (hmac_key k) @ sha256 (map (\<lambda>b. b XOR 0x36) (hmac_key k) @ m))"

text \<open>\<^verbatim>\<open>subtle.ConstantTimeCompare\<close>, the body of \<^verbatim>\<open>hmac.Equal\<close>.\<close>

definition ConstantTimeCompare :: "bytes \<Rightarrow> bytes \<Rightarrow> bool" where
  "ConstantTimeCompare x y \<longleftrightarrow>
     length x = length y \<and> foldl (\<lambda>v (a, b). v OR (a XOR b)) 0 (zip x y) = 0"

section \<open>Facts\<close>

lemma length_sha_out [simp]: "length (sha_out s) = 32"
  by (cases s rule: sha_out.cases) simp

lemma length_sha256 [simp, wsn_len]: "length (sha256 m) = 32"
  by (simp add: sha256_def Let_def)

lemma length_hmac [simp, wsn_len]: "length (hmac_sha256 k m) = 32"
  by (simp add: hmac_sha256_def)

lemma length_sha_pad: "length (sha_pad m) mod 64 = 0"
proof -
  define q r where "q = length m div 64" and "r = length m mod 64"
  then have m: "length m = 64 * q + r" and r: "r < 64" by simp_all
  show ?thesis
  proof (cases "r < 56")
    case True
    then have "length (sha_pad m) = 64 * (q + 1)"
      by (simp add: sha_pad_def Let_def r_def [symmetric] m)
    then show ?thesis by simp
  next
    case False
    with r have "length (sha_pad m) = 64 * (q + 2)"
      by (simp add: sha_pad_def Let_def r_def [symmetric] m)
    then show ?thesis by simp
  qed
qed

lemma or_eq_0_iff: "(a OR b = 0) \<longleftrightarrow> a = 0 \<and> (b :: 'a::len word) = 0"
  by (auto simp: bit_eq_iff bit_simps)

lemma word_xor_eq_0: "(a XOR b = 0) \<longleftrightarrow> a = (b :: 'a::len word)"
  by (metis xor.right_neutral xor.assoc xor_self_eq)

lemma or_xor_fold_0:
  "foldl (\<lambda>v (a, b). v OR (a XOR b)) v (zip x y) = 0 \<longleftrightarrow>
     v = 0 \<and> (\<forall>(a, b) \<in> set (zip x y). a = (b :: byte))"
  by (induction x y arbitrary: v rule: list_induct2') (auto simp: or_eq_0_iff word_xor_eq_0)

lemma ConstantTimeCompare_eq: "ConstantTimeCompare x y \<longleftrightarrow> x = y"
proof
  assume "ConstantTimeCompare x y"
  then have "length x = length y" "\<forall>(a, b) \<in> set (zip x y). a = b"
    by (simp_all add: ConstantTimeCompare_def or_xor_fold_0)
  then show "x = y" by (induction x y rule: list_induct2) auto
next
  assume "x = y"
  then show "ConstantTimeCompare x y"
    by (auto simp: ConstantTimeCompare_def or_xor_fold_0 zip_same)
qed

end
