(* ===== verification/Bundle.thy ===== *)
theory Bundle
  imports Deploy Crypto "HOL-Library.AList"
begin

text \<open>
  \<^verbatim>\<open>internal/provision/provision.go\<close>, the bundles: \<^verbatim>\<open>Bundle\<close> with everything it renders, \<^verbatim>\<open>ServerBundle\<close>,
  \<^verbatim>\<open>Enroll\<close> with its roll back, and the archive writers.

  The private temporary directory a bundle is staged in is the list of its files; every
  write to it can fail.  \<open>enc\<close> gives the bytes of a file, \<open>asset\<close> the embedded files of
  \<^verbatim>\<open>assets/\<close>.  \<^verbatim>\<open>os.ReadDir\<close> lists a directory by name; when it fails it returns
  what it has read, here the first \<open>part\<close> entries, and the archive writers ignore the error.
\<close>

type_synonym staging = "(string \<times> content \<times> FileMode) list"

record BundleOptions =
  b_ID :: string
  b_ClientBinary :: string
  b_TapInstaller :: string
  b_Tapctl :: string
  b_Output :: string

text \<open>What lies outside the program: bytes of files, embedded assets, certificates, a partial listing.\<close>

record platform =
  enc :: "content \<Rightarrow> bytes"
  asset :: "string \<Rightarrow> string option"
  certs :: x509
  part :: nat

section \<open>Helpers\<close>

definition stage :: "string \<Rightarrow> content \<Rightarrow> FileMode \<Rightarrow> staging \<Rightarrow> staging io" where
  "stage name c mode s = io_bind (syscall ''write'' (\<lambda>F. F)) (\<lambda>_. io_lift (Inr (AList.update name (c, mode) s)))"

definition copyFile :: "string \<Rightarrow> string \<Rightarrow> FileMode \<Rightarrow> staging \<Rightarrow> staging io" where
  "copyFile source name mode s = io_bind (ReadFile source) (\<lambda>c. stage name c mode s)"

definition hex_EncodeToString :: "bytes \<Rightarrow> string" where
  "hex_EncodeToString bs = concat (map hex_byte bs)"

definition upper_char :: "char \<Rightarrow> char" where
  "upper_char c = (let n = (of_char c :: nat) in if 97 \<le> n \<and> n \<le> 122 then char_of (n - 32) else c)"

definition fileSHA256 :: "platform \<Rightarrow> string \<Rightarrow> string io" where
  "fileSHA256 P path =
     io_bind (ReadFile path) (\<lambda>c. io_lift (Inr (hex_EncodeToString (sha256 (enc P c)))))"

definition Fingerprint :: "platform \<Rightarrow> string \<Rightarrow> string io" where
  "Fingerprint P path =
     io_bind (ReadFile path) (\<lambda>c. io_lift (case c of
         PEM _ der \<Rightarrow> and_then (ParseCertificate (certs P) der) (\<lambda>certificate.
           Inr (map upper_char (hex_EncodeToString (sha256 (x_RawSubjectPublicKeyInfo certificate)))))
       | _ \<Rightarrow> Inl (Err ''invalid PEM certificate'')))"

definition verifyClientBinary :: "platform \<Rightarrow> string \<Rightarrow> string \<Rightarrow> unit io" where
  "verifyClientBinary P path operatingSystem =
     io_bind (ReadFile path) (\<lambda>c. io_lift (
       let header = take 4 (enc P c) in
       if length header < 4 then Inl (Errw ''read %s: %w'' [path] (Err ''unexpected EOF''))
       else if operatingSystem = ''linux'' then
         (if header \<noteq> [0x7F, 0x45, 0x4C, 0x46] then Inl (Errf ''%s is not a Linux ELF binary'' [path]) else Inr ())
       else if operatingSystem = ''windows'' then
         (if header ! 0 \<noteq> 0x4D \<or> header ! 1 \<noteq> 0x5A then Inl (Errf ''%s is not a Windows PE binary'' [path]) else Inr ())
       else Inr ()))"

text \<open>\<^verbatim>\<open>bytes.ReplaceAll\<close> of carriage return and line feed by line feed, from left to right.\<close>

fun toUnixNewlines :: "string \<Rightarrow> string" where
  "toUnixNewlines (a # b # rest) =
     (if a = CHR 0x0D \<and> b = CHR 0x0A then CHR 0x0A # toUnixNewlines rest else a # toUnixNewlines (b # rest))"
| "toUnixNewlines s = s"

definition linuxArchiveMode :: "string \<Rightarrow> FileMode" where
  "linuxArchiveMode name =
     (if name = ''wsn-client'' \<or> HasSuffix name ''.sh'' then mode_0755
      else if name \<in> {''client.json'', ''client.key'', ''server.json'', ''relay.key''} then mode_0600
      else mode_0644)"

section \<open>Rendering\<close>

definition env_line :: "string \<Rightarrow> string \<Rightarrow> string" where
  "env_line name v = name @ ''='' @ [CHR 0x27] @ v @ [CHR 0x27, CHR 0x0A]"

text \<open>The resolver of a client; a gateway keeps its own.\<close>

definition bundle_dns :: "State \<Rightarrow> ProvisionedClient \<Rightarrow> string" where
  "bundle_dns state client = (if pc_Role client = ''gateway'' then '''' else st_DNS state)"

definition bundle_search :: "State \<Rightarrow> ProvisionedClient \<Rightarrow> string list" where
  "bundle_search state client = (if pc_Role client = ''gateway'' then [] else st_Search state)"

definition network_env :: "State \<Rightarrow> ProvisionedClient \<Rightarrow> string" where
  "network_env state client =
     (let networkRoutes = (if pc_Role client = ''gateway'' then [] else pc_Routes client) in
      env_line ''WSN_DEVICE'' (pc_Device client) @ env_line ''WSN_MAC'' (pc_MAC client)
      @ env_line ''WSN_ADDRESS'' (pc_Address client) @ env_line ''WSN_GATEWAY'' (st_Gateway state)
      @ env_line ''WSN_ROUTES'' (Join '' '' networkRoutes) @ env_line ''WSN_DNS'' (bundle_dns state client)
      @ env_line ''WSN_SEARCH'' (Join '' '' (bundle_search state client)))"

definition gateway_env :: "State \<Rightarrow> ProvisionedClient \<Rightarrow> string" where
  "gateway_env state client =
     env_line ''WSN_DEVICE'' (pc_Device client) @ env_line ''WSN_OVERLAY'' (st_Overlay state)
     @ env_line ''WSN_EGRESS'' (pc_Egress client) @ env_line ''WSN_DESTINATIONS'' (Join '' '' (pc_Routes client))"

text \<open>The authority, the key and the configuration of the client.\<close>

definition render_identity :: "string \<Rightarrow> State \<Rightarrow> ProvisionedClient \<Rightarrow> staging \<Rightarrow> staging io" where
  "render_identity directory state client s =
     io_bind (ReadFile (join directory ''relay-ca.crt'')) (\<lambda>ca.
     io_bind (stage ''relay-ca.crt'' ca mode_0644 s) (\<lambda>s.
     io_bind (stage ''client.key'' (Blob (pc_Key client @ [CHR 0x0A])) mode_0600 s) (\<lambda>s.
     stage ''client.json'' (ClientJSON (bundle_config state client)) mode_0600 s)))"

definition bundle_meta :: "State \<Rightarrow> ProvisionedClient \<Rightarrow> string \<Rightarrow> string \<Rightarrow> (string \<times> string) option \<Rightarrow> BundleMeta" where
  "bundle_meta state client clientHash caFingerprint taps =
     \<lparr>bm_id = pc_ID client, bm_role = pc_Role client, bm_device = pc_Device client, bm_mac = pc_MAC client,
      bm_address = pc_Address client, bm_gateway = st_Gateway state, bm_overlay = st_Overlay state,
      bm_routes = pc_Routes client, bm_egress = pc_Egress client, bm_client_sha256 = clientHash,
      bm_dns = bundle_dns state client, bm_search = bundle_search state client, bm_ca_sha256 = caFingerprint,
      bm_tap_driver_sha256 = map_option fst taps, bm_tapctl_sha256 = map_option snd taps\<rparr>"

definition tap_hashes :: "platform \<Rightarrow> ProvisionedClient \<Rightarrow> BundleOptions \<Rightarrow> (string \<times> string) option io" where
  "tap_hashes P client options =
     (if pc_OS client = ''windows'' then
        io_bind (fileSHA256 P (b_TapInstaller options)) (\<lambda>tapHash.
        io_bind (fileSHA256 P (b_Tapctl options)) (\<lambda>tapctlHash. io_lift (Inr (Some (tapHash, tapctlHash)))))
      else io_lift (Inr None))"

text \<open>The hashes, the description of the bundle and the environment files.\<close>

definition render_meta ::
  "platform \<Rightarrow> string \<Rightarrow> State \<Rightarrow> ProvisionedClient \<Rightarrow> BundleOptions \<Rightarrow> staging \<Rightarrow> staging io" where
  "render_meta P directory state client options s =
     io_bind (fileSHA256 P (b_ClientBinary options)) (\<lambda>clientHash.
     io_bind (Fingerprint P (join directory ''relay-ca.crt'')) (\<lambda>caFingerprint.
     io_bind (tap_hashes P client options) (\<lambda>taps.
     io_bind (stage ''bundle.json'' (MetaJSON (bundle_meta state client clientHash caFingerprint taps)) mode_0644 s) (\<lambda>s.
     io_bind (stage ''network.env'' (Blob (network_env state client)) mode_0644 s) (\<lambda>s.
     io_bind (stage ''ca-fingerprint.txt'' (Blob (caFingerprint @ [CHR 0x0A])) mode_0644 s) (\<lambda>s.
     if pc_Role client = ''gateway'' then stage ''gateway.env'' (Blob (gateway_env state client)) mode_0644 s
     else io_lift (Inr s)))))))"

definition render_binaries :: "ProvisionedClient \<Rightarrow> BundleOptions \<Rightarrow> staging \<Rightarrow> staging io" where
  "render_binaries client options s =
     (let binaryName = (if pc_OS client = ''windows'' then ''wsn-client.exe'' else ''wsn-client'') in
      io_bind (copyFile (b_ClientBinary options) binaryName mode_0755 s) (\<lambda>s.
      if pc_OS client = ''windows'' then
        io_bind (copyFile (b_TapInstaller options) ''tap-driver.exe'' mode_0644 s) (\<lambda>s.
        copyFile (b_Tapctl options) ''tapctl.exe'' mode_0755 s)
      else io_lift (Inr s)))"

definition asset_names :: "ProvisionedClient \<Rightarrow> string list" where
  "asset_names client =
     (if pc_OS client = ''windows''
      then [''install-windows.ps1'', ''uninstall-windows.ps1'', ''upgrade-windows.ps1'', ''rollback-windows.ps1'', ''wsn-toggle.ps1'']
      else [''install-linux.sh'', ''uninstall-linux.sh'', ''upgrade-linux.sh'', ''rollback-linux.sh'', ''wsn-net.sh'',
            ''wsn-client.service'', ''wsn-net.service''])
     @ (if pc_Role client = ''gateway'' then [''wsn-gateway.sh'', ''wsn-gateway.service''] else [])"

fun render_assets :: "platform \<Rightarrow> string list \<Rightarrow> staging \<Rightarrow> staging io" where
  "render_assets P [] s = io_lift (Inr s)"
| "render_assets P (name # rest) s =
     (case asset P name of
        None \<Rightarrow> io_lift (Inl (Errf ''open assets/%s'' [name]))
      | Some contents \<Rightarrow>
          (let mode = (if HasSuffix name ''.sh'' \<or> HasSuffix name ''.ps1'' then mode_0755 else mode_0644);
               contents = (if \<not> HasSuffix name ''.ps1'' then toUnixNewlines contents else contents)
           in io_bind (stage name (Blob contents) mode s) (\<lambda>s. render_assets P rest s)))"

definition renderBundle :: "platform \<Rightarrow> string \<Rightarrow> State \<Rightarrow> ProvisionedClient \<Rightarrow> BundleOptions \<Rightarrow> staging io" where
  "renderBundle P directory state client options =
     io_bind (render_identity directory state client []) (\<lambda>s.
     io_bind (render_meta P directory state client options s) (\<lambda>s.
     io_bind (render_binaries client options s) (\<lambda>s.
     render_assets P (asset_names client) s)))"

section \<open>Archives\<close>

definition ReadDir :: "nat \<Rightarrow> staging \<Rightarrow> staging io" where
  "ReadDir k s w =
     (let entries = sort_key fst s in
      case syscall ''readdir'' (\<lambda>F. F) w of
        (Inl _, w') \<Rightarrow> (Inr (take k entries), w')
      | (Inr _, w') \<Rightarrow> (Inr entries, w'))"

text \<open>The calls for one entry after the other; any of them can fail.\<close>

fun each_entry :: "string list \<Rightarrow> staging \<Rightarrow> unit io" where
  "each_entry calls [] = io_lift (Inr ())"
| "each_entry calls (entry # rest) =
     io_bind (foldr (\<lambda>what m. io_bind (syscall what (\<lambda>F. F)) (\<lambda>_. m)) calls (io_lift (Inr ()))) (\<lambda>_. each_entry calls rest)"

definition zipDirectory :: "platform \<Rightarrow> staging \<Rightarrow> string \<Rightarrow> unit io" where
  "zipDirectory P s output =
     io_bind (write_call ''open'' output (truncate_file output mode_0600)) (\<lambda>_.
     io_bind (ReadDir (part P) s) (\<lambda>entries.
     io_bind (each_entry [''read'', ''header'', ''write''] entries) (\<lambda>_.
     io_bind (write_call ''zip'' output (change_file output (\<lambda>(_, m). (Archive (map (\<lambda>(name, c, _). (name, c, mode_0600)) entries), m)))) (\<lambda>_.
     syscall ''close'' (\<lambda>F. F)))))"

definition tarDirectory :: "platform \<Rightarrow> staging \<Rightarrow> string \<Rightarrow> unit io" where
  "tarDirectory P s output =
     io_bind (write_call ''open'' output (truncate_file output mode_0600)) (\<lambda>_.
     io_bind (ReadDir (part P) s) (\<lambda>entries.
     io_bind (each_entry [''info'', ''header'', ''read'', ''write''] entries) (\<lambda>_.
     io_bind (syscall ''tar'' (\<lambda>F. F)) (\<lambda>_.
     io_bind (write_call ''gzip'' output (change_file output (\<lambda>(_, m). (Archive (map (\<lambda>(name, c, _). (name, c, linuxArchiveMode name)) entries), m)))) (\<lambda>_.
     syscall ''close'' (\<lambda>F. F))))))"

section \<open>Bundle\<close>

definition bundle_output :: "ProvisionedClient \<Rightarrow> BundleOptions \<Rightarrow> string" where
  "bundle_output selected options =
     (if b_Output options = ''''
      then (if pc_OS selected = ''windows'' then pc_ID selected @ ''-windows.zip'' else pc_ID selected @ ''-linux.tar.gz'')
      else b_Output options)"

definition bundle_checks :: "State \<Rightarrow> BundleOptions \<Rightarrow> ProvisionedClient res" where
  "bundle_checks state options =
     (case find (\<lambda>c. pc_ID c = b_ID options) (st_Clients state) of
        None \<Rightarrow> Inl (Errf ''client %q does not exist'' [b_ID options])
      | Some selected \<Rightarrow>
          if b_ClientBinary options = '''' then Inl (Err ''client-binary is required'')
          else if pc_OS selected = ''windows'' \<and> (b_TapInstaller options = '''' \<or> b_Tapctl options = '''')
          then Inl (Err ''Windows bundles require tap-installer and tapctl'')
          else Inr selected)"

definition provision_Bundle :: "platform \<Rightarrow> string \<Rightarrow> BundleOptions \<Rightarrow> string io" where
  "provision_Bundle P directory options =
     io_bind (loadState directory) (\<lambda>state.
     io_bind (io_lift (bundle_checks state options)) (\<lambda>selected.
     io_bind (verifyClientBinary P (b_ClientBinary options) (pc_OS selected)) (\<lambda>_.
     io_bind (syscall ''mkdirtemp'' (\<lambda>F. F)) (\<lambda>_.
     io_bind (renderBundle P directory state selected options) (\<lambda>temp.
     let output = bundle_output selected options in
     io_bind (if pc_OS selected = ''windows'' then zipDirectory P temp output else tarDirectory P temp output) (\<lambda>_.
     io_lift (Inr output)))))))"

definition ServerBundle :: "platform \<Rightarrow> string \<Rightarrow> string \<Rightarrow> string io" where
  "ServerBundle P directory output0 =
     io_bind (loadState directory) (\<lambda>_.
     let output = (if output0 = '''' then ''wsn-server-private.tar.gz'' else output0) in
     io_bind (syscall ''mkdirtemp'' (\<lambda>F. F)) (\<lambda>_.
     io_bind (copyFile (join directory ''server.json'') ''server.json'' mode_0600 []) (\<lambda>s.
     io_bind (copyFile (join directory ''relay.crt'') ''relay.crt'' mode_0644 s) (\<lambda>s.
     io_bind (copyFile (join directory ''relay.key'') ''relay.key'' mode_0600 s) (\<lambda>s.
     io_bind (tarDirectory P s output) (\<lambda>_. io_lift (Inr output)))))))"

section \<open>Enroll\<close>

record EnrollOptions =
  en_Add :: AddOptions
  en_ClientBinary :: string
  en_TapInstaller :: string
  en_Tapctl :: string
  en_Output :: string
  en_ServerOutput :: string

record EnrollResult =
  er_Client :: ProvisionedClient
  er_ClientBundle :: string
  er_ServerBundle :: string

definition enroll_bundle :: "EnrollOptions \<Rightarrow> ProvisionedClient \<Rightarrow> BundleOptions" where
  "enroll_bundle options client =
     \<lparr>b_ID = pc_ID client, b_ClientBinary = en_ClientBinary options, b_TapInstaller = en_TapInstaller options,
      b_Tapctl = en_Tapctl options, b_Output = en_Output options\<rparr>"

text \<open>The roll back: what is done with an error of the client bundle.\<close>

definition or_revoke :: "string \<Rightarrow> string \<Rightarrow> 'a io \<Rightarrow> 'a io" where
  "or_revoke directory cid m w =
     (case m w of
        (Inl err, w1) \<Rightarrow>
          (case RevokeClient directory cid w1 of
             (Inl revokeErr, w2) \<Rightarrow> (Inl (Errw ''%w (rolling back %s also failed: %v)'' [cid] err), w2)
           | (Inr _, w2) \<Rightarrow> (Inl err, w2))
      | (Inr x, w1) \<Rightarrow> (Inr x, w1))"

definition Enroll :: "platform \<Rightarrow> string \<Rightarrow> EnrollOptions \<Rightarrow> bytes res \<Rightarrow> bytes res \<Rightarrow> EnrollResult io" where
  "Enroll P directory options key rnd =
     io_bind (AddClient directory (en_Add options) key rnd) (\<lambda>client.
     io_bind (or_revoke directory (pc_ID client) (provision_Bundle P directory (enroll_bundle options client))) (\<lambda>clientBundle.
     io_bind (ServerBundle P directory (en_ServerOutput options)) (\<lambda>serverBundle.
     io_lift (Inr \<lparr>er_Client = client, er_ClientBundle = clientBundle, er_ServerBundle = serverBundle\<rparr>))))"


section \<open>Actions that write no file\<close>

definition quiet :: "'a io \<Rightarrow> ('a \<Rightarrow> filesystem \<Rightarrow> bool) \<Rightarrow> bool" where
  "quiet m Q \<longleftrightarrow> (\<forall>I A. triple I A m (\<lambda>x F. A F \<and> Q x F))"

lemma quietD: "quiet m Q \<Longrightarrow> triple I A m (\<lambda>x F. A F \<and> Q x F)"
  by (simp add: quiet_def)

lemma quiet_bind:
  assumes "quiet m Q" and "\<And>x. quiet (f x) (R x)" and "\<And>x y F. Q x F \<Longrightarrow> R x y F \<Longrightarrow> S y F"
  shows "quiet (io_bind m f) S"
  unfolding quiet_def
proof (intro allI)
  fix I A
  have "triple I (\<lambda>F. A F \<and> Q x F) (f x) (\<lambda>y F. A F \<and> S y F)" for x
    by (rule triple_weaken [OF quietD [OF assms(2) [of x], where A = "\<lambda>F. A F \<and> Q x F"]]) (use assms(3) in auto)
  then show "triple I A (io_bind m f) (\<lambda>x F. A F \<and> S x F)" by (rule triple_bind [OF quietD [OF assms(1)]])
qed

lemma quiet_seq:
  "quiet m Q \<Longrightarrow> (\<And>x. quiet (f x) (R x)) \<Longrightarrow> quiet (io_bind m f) (\<lambda>y F. \<exists>x. Q x F \<and> R x y F)"
  by (rule quiet_bind [where Q = Q and R = R]) auto

lemma quiet_lift: "(\<And>x F. r = Inr x \<Longrightarrow> Q x F) \<Longrightarrow> quiet (io_lift r) Q"
  unfolding quiet_def triple_def outcome_def io_lift_def effect_def by simp

lemma quiet_call: "quiet (syscall what (\<lambda>F. F)) (\<lambda>_ _. True)"
  unfolding quiet_def using triple_mkdir by simp

lemma quiet_ReadFile: "quiet (ReadFile path) (\<lambda>c F. \<exists>m. F path = Some (c, m))"
  unfolding quiet_def ReadFile_def
proof (intro allI)
  fix I A
  show "triple I A (read_json path Some) (\<lambda>x F. A F \<and> (\<exists>m. F path = Some (x, m)))"
    by (rule triple_weaken [OF triple_read [where A = A]]) auto
qed

lemma quiet_read_lift:
  assumes "\<And>c m F x. F path = Some (c, m) \<Longrightarrow> r c = Inr x \<Longrightarrow> Q x F"
  shows "quiet (io_bind (ReadFile path) (\<lambda>c. io_lift (r c))) Q"
  by (rule quiet_bind [OF quiet_ReadFile quiet_lift [where Q = "\<lambda>x F. r c = Inr x" for c]]) (use assms in auto)

lemma quiet_weaken:
  assumes "quiet m Q" and "\<And>x F. Q x F \<Longrightarrow> R x F"
  shows "quiet m R"
  using assms unfolding quiet_def triple_def outcome_def by meson

lemma quiet_stage: "quiet (stage name c mode s) (\<lambda>s' _. s' = AList.update name (c, mode) s)"
  unfolding stage_def
  by (rule quiet_bind [OF quiet_call quiet_lift [where Q = "\<lambda>s' F. s' = AList.update name (c, mode) s"]]) auto

lemma quiet_copyFile:
  "quiet (copyFile source name mode s) (\<lambda>s' F. \<exists>c m. F source = Some (c, m) \<and> s' = AList.update name (c, mode) s)"
  unfolding copyFile_def by (rule quiet_bind [OF quiet_ReadFile quiet_stage]) blast

lemma quiet_fileSHA256: "quiet (fileSHA256 P path) (\<lambda>_ _. True)"
  unfolding fileSHA256_def by (rule quiet_read_lift) simp

lemma quiet_Fingerprint: "quiet (Fingerprint P path) (\<lambda>_ _. True)"
  unfolding Fingerprint_def by (rule quiet_read_lift) simp

lemma quiet_verifyClientBinary:
  "quiet (verifyClientBinary P path os) (\<lambda>_ F. \<exists>c m. F path = Some (c, m) \<and>
     (os = ''linux'' \<longrightarrow> take 4 (enc P c) = [0x7F, 0x45, 0x4C, 0x46]) \<and> (os = ''windows'' \<longrightarrow> take 2 (enc P c) = [0x4D, 0x5A]))"
proof -
  have two: "take 2 b = [x, y]" if "4 \<le> length b" "b ! 0 = x" "b ! 1 = y" for b :: bytes and x y
    using that by (cases b; cases "tl b") (auto simp: numeral_eq_Suc)
  show ?thesis
    unfolding verifyClientBinary_def
    by (rule quiet_read_lift) (auto simp: Let_def split: if_splits intro: two)
qed


section \<open>What a bundle holds\<close>

text \<open>\<open>extends N s s'\<close>: staging changed at most the files named in \<open>N\<close>.\<close>

definition extends :: "string set \<Rightarrow> staging \<Rightarrow> staging \<Rightarrow> bool" where
  "extends N s s' \<longleftrightarrow> (\<forall>n. n \<notin> N \<longrightarrow> map_of s' n = map_of s n) \<and> (distinct (map fst s) \<longrightarrow> distinct (map fst s'))"

lemma extends_update [simp]: "n \<in> N \<Longrightarrow> extends N s (AList.update n x s)"
  by (auto simp: extends_def update_conv distinct_update)

lemma extends_more [simp]: "n \<in> N \<Longrightarrow> extends N s s' \<Longrightarrow> extends N s (AList.update n x s')"
  by (auto simp: extends_def update_conv distinct_update)

lemma extends_refl [simp]: "extends N s s"
  by (simp add: extends_def)

lemma extends_trans [trans]: "extends N s s' \<Longrightarrow> extends N s' s'' \<Longrightarrow> extends N s s''"
  by (simp add: extends_def)

lemma extends_mono: "extends N s s' \<Longrightarrow> N \<subseteq> M \<Longrightarrow> extends M s s'"
  by (auto simp: extends_def)

definition meta_names :: "string set" where
  "meta_names = {''bundle.json'', ''network.env'', ''ca-fingerprint.txt'', ''gateway.env''}"

definition binary_names :: "string set" where
  "binary_names = {''wsn-client'', ''wsn-client.exe'', ''tap-driver.exe'', ''tapctl.exe''}"

lemma quiet_render_identity:
  "quiet (render_identity d st c [])
    (\<lambda>s F. \<exists>ca m. F (join d ''relay-ca.crt'') = Some (ca, m) \<and>
       s = [(''relay-ca.crt'', ca, mode_0644), (''client.key'', Blob (pc_Key c @ [CHR 0x0A]), mode_0600),
            (''client.json'', ClientJSON (bundle_config st c), mode_0600)])"
  unfolding render_identity_def
  by (rule quiet_weaken [OF quiet_seq [OF quiet_ReadFile quiet_seq [OF quiet_stage quiet_seq [OF quiet_stage quiet_stage]]]]) auto

lemma quiet_tap_hashes: "quiet (tap_hashes P c options) (\<lambda>_ _. True)"
  unfolding tap_hashes_def
  by (auto intro!: quiet_bind [OF quiet_fileSHA256 quiet_bind [OF quiet_fileSHA256 quiet_lift [where Q = "\<lambda>_ _. True"]]] quiet_lift)

lemma quiet_if: "(b \<Longrightarrow> quiet m Q) \<Longrightarrow> (\<not> b \<Longrightarrow> quiet m' Q) \<Longrightarrow> quiet (if b then m else m') Q"
  by simp

lemma quiet_render_meta:
  "quiet (render_meta P d st c options s)
    (\<lambda>s' _. extends meta_names s s' \<and> map_of s' ''network.env'' = Some (Blob (network_env st c), mode_0644)
       \<and> (pc_Role c = ''gateway'' \<longrightarrow> map_of s' ''gateway.env'' = Some (Blob (gateway_env st c), mode_0644)))"
proof -
  let ?last = "\<lambda>s. if pc_Role c = ''gateway'' then stage ''gateway.env'' (Blob (gateway_env st c)) mode_0644 s else io_lift (Inr s)"
  let ?Q = "\<lambda>s s' F. s' = (if pc_Role c = ''gateway'' then AList.update ''gateway.env'' (Blob (gateway_env st c), mode_0644) s else s)"
  have l: "quiet (?last s) (?Q s)" for s
    by (cases "pc_Role c = ''gateway''") (auto simp: quiet_stage intro: quiet_lift)
  have m: "quiet (io_bind (stage ''bundle.json'' (MetaJSON x) mode_0644 s) (\<lambda>s.
     io_bind (stage ''network.env'' (Blob (network_env st c)) mode_0644 s) (\<lambda>s.
     io_bind (stage ''ca-fingerprint.txt'' (Blob y) mode_0644 s) ?last)))
     (\<lambda>s' _. extends meta_names s s' \<and> map_of s' ''network.env'' = Some (Blob (network_env st c), mode_0644)
       \<and> (pc_Role c = ''gateway'' \<longrightarrow> map_of s' ''gateway.env'' = Some (Blob (gateway_env st c), mode_0644)))" for x y
    by (rule quiet_weaken [OF quiet_seq [OF quiet_stage quiet_seq [OF quiet_stage quiet_seq [OF quiet_stage l]]]])
      (auto simp: update_conv meta_names_def)
  show ?thesis
    unfolding render_meta_def
    by (rule quiet_weaken [OF quiet_seq [OF quiet_fileSHA256 quiet_seq [OF quiet_Fingerprint quiet_seq [OF quiet_tap_hashes m]]]]) blast
qed

lemma quiet_render_binaries:
  "quiet (render_binaries c options s) (\<lambda>s' F. extends binary_names s s' \<and>
     (\<exists>x m. F (b_ClientBinary options) = Some (x, m) \<and>
        map_of s' (if pc_OS c = ''windows'' then ''wsn-client.exe'' else ''wsn-client'') = Some (x, mode_0755)))"
proof -
  let ?more = "\<lambda>s. if pc_OS c = ''windows'' then
        io_bind (copyFile (b_TapInstaller options) ''tap-driver.exe'' mode_0644 s) (copyFile (b_Tapctl options) ''tapctl.exe'' mode_0755)
      else io_lift (Inr s)"
  have e: "quiet (?more s) (\<lambda>s' _. extends {''tap-driver.exe'', ''tapctl.exe''} s s')" for s
  proof (rule quiet_if)
    show "quiet (io_bind (copyFile (b_TapInstaller options) ''tap-driver.exe'' mode_0644 s) (copyFile (b_Tapctl options) ''tapctl.exe'' mode_0755))
        (\<lambda>s' _. extends {''tap-driver.exe'', ''tapctl.exe''} s s')"
      by (rule quiet_weaken [OF quiet_seq [OF quiet_copyFile quiet_copyFile]]) auto
  qed (auto intro: quiet_lift)
  show ?thesis
    unfolding render_binaries_def Let_def
  proof (rule quiet_weaken [OF quiet_seq [OF quiet_copyFile e]], elim exE conjE)
    fix s' F s1 x m
    let ?name = "if pc_OS c = ''windows'' then ''wsn-client.exe'' else ''wsn-client''"
    assume x: "F (b_ClientBinary options) = Some (x, m)" "s1 = AList.update ?name (x, mode_0755) s"
      and s': "extends {''tap-driver.exe'', ''tapctl.exe''} s1 s'"
    have "extends binary_names s s1" using x(2) by (simp add: binary_names_def)
    also have "extends binary_names s1 s'" by (rule extends_mono [OF s']) (simp add: binary_names_def)
    finally have "extends binary_names s s'" .
    moreover have "map_of s' ?name = map_of s1 ?name" using s' by (simp add: extends_def)
    ultimately show "extends binary_names s s' \<and> (\<exists>x m. F (b_ClientBinary options) = Some (x, m) \<and> map_of s' ?name = Some (x, mode_0755))"
      using x by (simp add: update_conv)
  qed
qed


lemma quiet_render_assets: "quiet (render_assets P names s) (\<lambda>s' _. extends (set names) s s')"
proof (induction names arbitrary: s)
  case Nil
  then show ?case by (auto intro: quiet_lift)
next
  case (Cons n names)
  have more: "quiet (render_assets P names s) (\<lambda>s' _. extends (set (n # names)) s s')" for s
    by (rule quiet_weaken [OF Cons.IH]) (auto intro: extends_mono)
  have "quiet (io_bind (stage n x m s) (render_assets P names)) (\<lambda>s' _. extends (set (n # names)) s s')" for x m
    by (rule quiet_weaken [OF quiet_seq [OF quiet_stage more]]) (auto intro: extends_trans [OF extends_update])
  then show ?case by (auto simp: Let_def intro: quiet_lift split: option.splits)
qed

text \<open>The files of a bundle that the client and the shell scripts read; every name occurs once.\<close>

definition rendered :: "State \<Rightarrow> ProvisionedClient \<Rightarrow> content \<Rightarrow> content \<Rightarrow> staging \<Rightarrow> bool" where
  "rendered st c ca binary s \<longleftrightarrow>
     distinct (map fst s)
     \<and> map_of s ''client.json'' = Some (ClientJSON (bundle_config st c), mode_0600)
     \<and> map_of s ''client.key'' = Some (Blob (pc_Key c @ [CHR 0x0A]), mode_0600)
     \<and> map_of s ''relay-ca.crt'' = Some (ca, mode_0644)
     \<and> map_of s (if pc_OS c = ''windows'' then ''wsn-client.exe'' else ''wsn-client'') = Some (binary, mode_0755)
     \<and> map_of s ''network.env'' = Some (Blob (network_env st c), mode_0644)
     \<and> (pc_Role c = ''gateway'' \<longrightarrow> map_of s ''gateway.env'' = Some (Blob (gateway_env st c), mode_0644))"

lemma quiet_renderBundle:
  "quiet (renderBundle P d st c options)
    (\<lambda>s F. \<exists>ca m b m'. F (join d ''relay-ca.crt'') = Some (ca, m) \<and> F (b_ClientBinary options) = Some (b, m') \<and> rendered st c ca b s)"
  unfolding renderBundle_def
proof (rule quiet_weaken [OF quiet_seq [OF quiet_render_identity quiet_seq [OF quiet_render_meta quiet_seq [OF quiet_render_binaries quiet_render_assets]]]],
    elim exE conjE)
  fix s F s1 s2 s3 ca m b m'
  let ?name = "if pc_OS c = ''windows'' then ''wsn-client.exe'' else ''wsn-client''"
  assume F: "F (join d ''relay-ca.crt'') = Some (ca, m)" "F (b_ClientBinary options) = Some (b, m')"
    and s1: "s1 = [(''relay-ca.crt'', ca, mode_0644), (''client.key'', Blob (pc_Key c @ [CHR 0x0A]), mode_0600),
            (''client.json'', ClientJSON (bundle_config st c), mode_0600)]"
    and s2: "extends meta_names s1 s2" "map_of s2 ''network.env'' = Some (Blob (network_env st c), mode_0644)"
      "pc_Role c = ''gateway'' \<longrightarrow> map_of s2 ''gateway.env'' = Some (Blob (gateway_env st c), mode_0644)"
    and s3: "extends binary_names s2 s3" "map_of s3 ?name = Some (b, mode_0755)"
    and s: "extends (set (asset_names c)) s3 s"
  have a: "n \<notin> set (asset_names c)" if "n \<in> {''client.json'', ''client.key'', ''relay-ca.crt'', ''network.env'', ''gateway.env'', ''wsn-client'', ''wsn-client.exe''}" for n
    using that by (auto simp: asset_names_def)
  have keep: "map_of s n = map_of s2 n" if "n \<in> {''client.json'', ''client.key'', ''relay-ca.crt'', ''network.env'', ''gateway.env''}" for n
  proof -
    have "n \<notin> binary_names" using that by (auto simp: binary_names_def)
    then show ?thesis using a [of n] that s s3(1) unfolding extends_def by (metis insertCI insertE)
  qed
  have "map_of s n = map_of s1 n" if "n \<in> {''client.json'', ''client.key'', ''relay-ca.crt''}" for n
  proof -
    have "n \<notin> meta_names" using that by (auto simp: meta_names_def)
    then show ?thesis using keep [of n] that s2(1) unfolding extends_def by (metis insertCI insertE)
  qed
  then have one: "map_of s ''client.json'' = map_of s1 ''client.json''" "map_of s ''client.key'' = map_of s1 ''client.key''"
    "map_of s ''relay-ca.crt'' = map_of s1 ''relay-ca.crt''" by simp_all
  have "?name \<notin> set (asset_names c)" by (rule a) simp
  then have "map_of s ?name = map_of s3 ?name" using s unfolding extends_def by blast
  moreover have "distinct (map fst s)" using s s3(1) s2(1) s1 by (simp add: extends_def)
  ultimately have "rendered st c ca b s"
    using one keep s2(2,3) s3(2) unfolding rendered_def by (simp add: s1)
  then show "\<exists>ca m b m'. F (join d ''relay-ca.crt'') = Some (ca, m) \<and> F (b_ClientBinary options) = Some (b, m') \<and> rendered st c ca b s"
    using F by blast
qed


section \<open>Archives hold what was staged\<close>

lemma quiet_ReadDir: "quiet (ReadDir k s) (\<lambda>es _. es = sort_key fst s \<or> es = take k (sort_key fst s))"
proof -
  have "outcome I A (\<lambda>es F. A F \<and> (es = sort_key fst s \<or> es = take k (sort_key fst s))) w (ReadDir k s w)" for I A w
  proof -
    let ?Q = "\<lambda>r. outcome I A (\<lambda>es F. A F \<and> (es = sort_key fst s \<or> es = take k (sort_key fst s))) w
      (case r of (Inl _, w') \<Rightarrow> (Inr (take k (sort_key fst s)), w') | (Inr _, w') \<Rightarrow> (Inr (sort_key fst s), w'))"
    have "?Q (syscall ''readdir'' (\<lambda>F. F) w)" unfolding syscall_def by (rule call_wp [where Q = ?Q]) (simp_all add: outcome_def effect_def)
    then show ?thesis by (simp add: ReadDir_def Let_def)
  qed
  then show ?thesis by (simp add: quiet_def triple_def)
qed

lemma quiet_each_entry: "quiet (each_entry calls es) (\<lambda>_ _. True)"
proof (induction es)
  case Nil
  then show ?case by (simp add: quiet_lift)
next
  case (Cons e es)
  have "quiet (foldr (\<lambda>what m. io_bind (syscall what (\<lambda>F. F)) (\<lambda>_. m)) calls (io_lift (Inr ()))) (\<lambda>_ _. True)"
    by (induction calls) (auto intro: quiet_lift quiet_weaken [OF quiet_seq [OF quiet_call]])
  then show ?case using Cons.IH by (auto intro: quiet_weaken [OF quiet_seq])
qed

text \<open>Predicates that do not concern one path.\<close>

definition ignores :: "string \<Rightarrow> (filesystem \<Rightarrow> bool) \<Rightarrow> bool" where
  "ignores path A \<longleftrightarrow> (\<forall>F x. A F \<longrightarrow> A (F(path \<mapsto> x)))"

lemma ignoresD: "ignores path A \<Longrightarrow> A F \<Longrightarrow> A (F(path \<mapsto> x))"
  unfolding ignores_def by blast

definition archived :: "platform \<Rightarrow> (string \<Rightarrow> FileMode) \<Rightarrow> staging \<Rightarrow> string \<Rightarrow> filesystem \<Rightarrow> bool" where
  "archived P mode s output F \<longleftrightarrow>
     (\<exists>es m. F output = Some (Archive (map (\<lambda>(name, c, _). (name, c, mode name)) es), m)
        \<and> (es = sort_key fst s \<or> es = take (part P) (sort_key fst s)))"

lemma triple_open_output:
  assumes "ignores output I" and "ignores output A"
  shows "triple I A (write_call what output (truncate_file output mode)) (\<lambda>_ F. A F \<and> (\<exists>x. F output = Some x))"
  by (rule triple_write, unfold file_updates) (use ignoresD [OF assms(1)] ignoresD [OF assms(2)] in auto)

lemma triple_fill_output:
  assumes "ignores output I" and "ignores output A"
  shows "triple I (\<lambda>F. A F \<and> (\<exists>x. F output = Some x)) (write_call what output (change_file output (\<lambda>(_, m). (c, m)))) (\<lambda>_ F. A F \<and> (\<exists>m. F output = Some (c, m)))"
  by (rule triple_write, unfold file_updates) (use ignoresD [OF assms(1)] ignoresD [OF assms(2)] in auto)

lemma triple_quiet_bind:
  assumes "quiet m Q" and "\<And>x. triple I (\<lambda>F. A F \<and> Q x F) (f x) C"
  shows "triple I A (io_bind m f) C"
  by (rule triple_bind [OF quietD [OF assms(1)] assms(2)])

lemma triple_call: "triple I A m B \<Longrightarrow> triple I A (io_bind (syscall what (\<lambda>F. F)) (\<lambda>_. m)) B"
  by (rule triple_bind [OF triple_mkdir])

lemma triple_then_call:
  "triple I A m (\<lambda>_. B) \<Longrightarrow> triple I A (io_bind m (\<lambda>_. syscall what (\<lambda>F. F))) (\<lambda>_. B)"
  by (rule triple_bind, assumption, rule triple_mkdir)

text \<open>The last steps of both writers: the listed entries become the contents.\<close>

lemma triple_finish:
  assumes "ignores output I" and "ignores output A" and "es = sort_key fst s \<or> es = take (part P) (sort_key fst s)"
  shows "triple I (\<lambda>F. A F \<and> (\<exists>x. F output = Some x))
    (io_bind (write_call what output (change_file output (\<lambda>(_, m). (Archive (map (\<lambda>(name, c, _). (name, c, mode name)) es), m)))) (\<lambda>_. syscall what' (\<lambda>F. F)))
    (\<lambda>_ F. A F \<and> archived P mode s output F)"
  by (rule triple_then_call, rule triple_weaken [OF triple_fill_output [OF assms(1,2)]])
    (use assms(3) in \<open>auto simp: archived_def\<close>)

lemma triple_bind_const:
  assumes "triple I A m (\<lambda>_. B)" and "triple I B m' C"
  shows "triple I A (io_bind m (\<lambda>_. m')) C"
  by (rule triple_bind [OF assms(1)]) (rule assms(2))

lemma triple_skip_entries:
  assumes "triple I A m C"
  shows "triple I A (io_bind (each_entry calls es) (\<lambda>_. m)) C"
  by (rule triple_bind_const [OF triple_weaken [OF quietD [OF quiet_each_entry, where A = A]] assms]) auto

lemma triple_archive:
  assumes ig: "ignores output I" "ignores output A"
    and m: "\<And>es. es = sort_key fst s \<or> es = take (part P) (sort_key fst s) \<Longrightarrow>
      triple I (\<lambda>F. A F \<and> (\<exists>x. F output = Some x)) (f es) C"
  shows "triple I A (io_bind (write_call ''open'' output (truncate_file output mode_0600)) (\<lambda>_. io_bind (ReadDir (part P) s) f)) C"
proof (rule triple_bind_const [OF triple_open_output [OF ig]], rule triple_quiet_bind [OF quiet_ReadDir])
  fix es
  show "triple I (\<lambda>F. (A F \<and> (\<exists>x. F output = Some x)) \<and> (es = sort_key fst s \<or> es = take (part P) (sort_key fst s))) (f es) C"
  proof (cases "es = sort_key fst s \<or> es = take (part P) (sort_key fst s)")
    case True
    then show ?thesis using m by simp
  qed (simp add: triple_vacuous)
qed

lemma triple_tarDirectory:
  assumes ig: "ignores output I" "ignores output A"
  shows "triple I A (tarDirectory P s output) (\<lambda>_ F. A F \<and> archived P linuxArchiveMode s output F)"
  unfolding tarDirectory_def by (intro triple_archive triple_skip_entries triple_call triple_finish ig)

lemma triple_zipDirectory:
  assumes ig: "ignores output I" "ignores output A"
  shows "triple I A (zipDirectory P s output) (\<lambda>_ F. A F \<and> archived P (\<lambda>_. mode_0600) s output F)"
  unfolding zipDirectory_def by (intro triple_archive triple_skip_entries triple_finish ig)


section \<open>Bundle\<close>

definition bundled :: "platform \<Rightarrow> State \<Rightarrow> ProvisionedClient \<Rightarrow> content \<Rightarrow> content \<Rightarrow> string \<Rightarrow> filesystem \<Rightarrow> bool" where
  "bundled P st c ca b output F \<longleftrightarrow>
     (\<exists>s. rendered st c ca b s
        \<and> archived P (if pc_OS c = ''windows'' then (\<lambda>_. mode_0600) else linuxArchiveMode) s output F)"

text \<open>The files a client bundle is made from.\<close>

definition inputs :: "string \<Rightarrow> BundleOptions \<Rightarrow> State \<Rightarrow> FileMode \<Rightarrow> (content \<times> FileMode) option \<Rightarrow> (content \<times> FileMode) option \<Rightarrow> filesystem \<Rightarrow> bool" where
  "inputs d options st m CA BIN F \<longleftrightarrow> F (join d ''state.json'') = Some (StateJSON st, m)
     \<and> F (join d ''relay-ca.crt'') = CA \<and> F (b_ClientBinary options) = BIN"

lemma triple_provision_Bundle:
  assumes ig: "\<And>c. bundle_checks st options = Inr c \<Longrightarrow> ignores (bundle_output c options) I"
      "\<And>c. bundle_checks st options = Inr c \<Longrightarrow> ignores (bundle_output c options) (\<lambda>F. inputs d options st m CA BIN F \<and> A F)"
  shows "triple I (\<lambda>F. inputs d options st m CA BIN F \<and> A F) (provision_Bundle P d options)
    (\<lambda>out F. (inputs d options st m CA BIN F \<and> A F) \<and> (\<exists>c ca mc b mb. bundle_checks st options = Inr c \<and> out = bundle_output c options
       \<and> CA = Some (ca, mc) \<and> BIN = Some (b, mb) \<and> bundled P st c ca b out F))"
proof -
  let ?pre = "\<lambda>F. inputs d options st m CA BIN F \<and> A F"
  let ?post = "\<lambda>out F. ?pre F \<and> (\<exists>c ca mc b mb. bundle_checks st options = Inr c \<and> out = bundle_output c options
       \<and> CA = Some (ca, mc) \<and> BIN = Some (b, mb) \<and> bundled P st c ca b out F)"
  let ?rest = "\<lambda>state. io_bind (io_lift (bundle_checks state options)) (\<lambda>selected.
     io_bind (verifyClientBinary P (b_ClientBinary options) (pc_OS selected)) (\<lambda>_.
     io_bind (syscall ''mkdirtemp'' (\<lambda>F. F)) (\<lambda>_.
     io_bind (renderBundle P d state selected options) (\<lambda>temp.
     let output = bundle_output selected options in
     io_bind (if pc_OS selected = ''windows'' then zipDirectory P temp output else tarDirectory P temp output) (\<lambda>_.
     io_lift (Inr output))))))"
  have arch: "triple I ?pre (io_bind (if pc_OS c = ''windows'' then zipDirectory P s out else tarDirectory P s out) (\<lambda>_. io_lift (Inr out))) ?post"
    if c: "bundle_checks st options = Inr c" and out: "out = bundle_output c options"
      and s: "CA = Some (ca, mc)" "BIN = Some (b, mb)" "rendered st c ca b s" for c s ca mc b mb out
  proof (rule triple_bind_const)
    let ?B = "\<lambda>F. ?pre F \<and> archived P (if pc_OS c = ''windows'' then (\<lambda>_. mode_0600) else linuxArchiveMode) s out F"
    show "triple I ?pre (if pc_OS c = ''windows'' then zipDirectory P s out else tarDirectory P s out) (\<lambda>_. ?B)"
      using triple_zipDirectory [OF ig [OF c]] triple_tarDirectory [OF ig [OF c]] by (simp add: out)
    show "triple I ?B (io_lift (Inr out)) ?post"
      by (rule triple_return) (use c out s in \<open>auto simp: bundled_def\<close>)
  qed
  have rend: "triple I ?pre (io_bind (renderBundle P d st c options) (\<lambda>temp.
      io_bind (if pc_OS c = ''windows'' then zipDirectory P temp (bundle_output c options) else tarDirectory P temp (bundle_output c options))
        (\<lambda>_. io_lift (Inr (bundle_output c options))))) ?post" if c: "bundle_checks st options = Inr c" for c
  proof (rule triple_quiet_bind [OF quiet_renderBundle])
    fix s
    let ?Q = "\<lambda>F. \<exists>ca m b m'. F (join d ''relay-ca.crt'') = Some (ca, m) \<and> F (b_ClientBinary options) = Some (b, m') \<and> rendered st c ca b s"
    let ?m = "io_bind (if pc_OS c = ''windows'' then zipDirectory P s (bundle_output c options) else tarDirectory P s (bundle_output c options))
        (\<lambda>_. io_lift (Inr (bundle_output c options)))"
    show "triple I (\<lambda>F. ?pre F \<and> ?Q F) ?m ?post"
    proof (cases "\<exists>ca mc b mb. CA = Some (ca, mc) \<and> BIN = Some (b, mb) \<and> rendered st c ca b s")
      case True
      then obtain ca mc b mb where "CA = Some (ca, mc)" "BIN = Some (b, mb)" "rendered st c ca b s" by blast
      from arch [OF c refl this] show ?thesis by (rule triple_weaken) auto
    next
      case False
      show ?thesis by (rule triple_vacuous) (use False in \<open>auto simp: inputs_def\<close>)
    qed
  qed
  have body: "triple I ?pre (?rest st) ?post"
    unfolding Let_def
    by (rule triple_bind_lift, rule triple_quiet_bind [OF quiet_verifyClientBinary], rule triple_call,
        rule triple_weaken [OF rend]) auto
  have "triple I (\<lambda>F. F (join d ''state.json'') = Some (StateJSON st, m) \<and> ?pre F) (io_bind (loadState d) ?rest) ?post"
    by (rule triple_known_state, rule triple_weaken [OF body]) auto
  then show ?thesis unfolding provision_Bundle_def by (rule triple_weaken) (auto simp: inputs_def)
qed


section \<open>Server bundle\<close>

definition server_files :: "content \<Rightarrow> content \<Rightarrow> content \<Rightarrow> staging" where
  "server_files v crt key = [(''server.json'', v, mode_0600), (''relay.crt'', crt, mode_0644), (''relay.key'', key, mode_0600)]"

definition server_output :: "string \<Rightarrow> string" where
  "server_output output0 = (if output0 = '''' then ''wsn-server-private.tar.gz'' else output0)"

text \<open>The files a server bundle is made from.\<close>

definition server_inputs :: "string \<Rightarrow> content \<Rightarrow> FileMode \<Rightarrow> (content \<times> FileMode) option \<Rightarrow> (content \<times> FileMode) option \<Rightarrow> filesystem \<Rightarrow> bool" where
  "server_inputs d v mv CRT KEY F \<longleftrightarrow> F (join d ''server.json'') = Some (v, mv)
     \<and> F (join d ''relay.crt'') = CRT \<and> F (join d ''relay.key'') = KEY"

lemma triple_ServerBundle:
  assumes ig: "ignores (server_output out) I" "ignores (server_output out) (\<lambda>F. server_inputs d v mv CRT KEY F \<and> A F)"
  shows "triple I (\<lambda>F. server_inputs d v mv CRT KEY F \<and> A F) (ServerBundle P d out)
    (\<lambda>o' F. o' = server_output out \<and> (server_inputs d v mv CRT KEY F \<and> A F)
       \<and> (\<exists>crt mc key mk. CRT = Some (crt, mc) \<and> KEY = Some (key, mk) \<and> archived P linuxArchiveMode (server_files v crt key) o' F))"
proof -
  let ?pre = "\<lambda>F. server_inputs d v mv CRT KEY F \<and> A F"
  let ?post = "\<lambda>o' F. o' = server_output out \<and> ?pre F
       \<and> (\<exists>crt mc key mk. CRT = Some (crt, mc) \<and> KEY = Some (key, mk) \<and> archived P linuxArchiveMode (server_files v crt key) o' F)"
  let ?copy = "io_bind (copyFile (join d ''server.json'') ''server.json'' mode_0600 []) (\<lambda>s.
     io_bind (copyFile (join d ''relay.crt'') ''relay.crt'' mode_0644 s) (\<lambda>s. copyFile (join d ''relay.key'') ''relay.key'' mode_0600 s))"
  let ?Q = "\<lambda>s F. \<exists>w m crt mc key mk. F (join d ''server.json'') = Some (w, m) \<and> F (join d ''relay.crt'') = Some (crt, mc)
     \<and> F (join d ''relay.key'') = Some (key, mk) \<and> s = server_files w crt key"
  have assoc: "io_bind (io_bind m f) g = io_bind m (\<lambda>x. io_bind (f x) g)"
    for m :: "staging io" and f :: "staging \<Rightarrow> staging io" and g :: "staging \<Rightarrow> string io"
    by (auto simp: io_bind_def fun_eq_iff split: sum.splits prod.splits)
  have copy: "quiet ?copy ?Q"
    by (rule quiet_weaken [OF quiet_seq [OF quiet_copyFile quiet_seq [OF quiet_copyFile quiet_copyFile]]]) (auto simp: server_files_def)
  have fin: "triple I ?pre (io_bind (tarDirectory P s (server_output out)) (\<lambda>_. io_lift (Inr (server_output out)))) ?post"
    if "s = server_files v crt key" "CRT = Some (crt, mc)" "KEY = Some (key, mk)" for s crt mc key mk
    by (rule triple_bind_const [OF triple_tarDirectory [OF ig]], rule triple_return) (use that in auto)
  have "triple I ?pre (io_bind ?copy (\<lambda>s. io_bind (tarDirectory P s (server_output out)) (\<lambda>_. io_lift (Inr (server_output out))))) ?post"
  proof (rule triple_quiet_bind [OF copy])
    fix s
    show "triple I (\<lambda>F. ?pre F \<and> ?Q s F) (io_bind (tarDirectory P s (server_output out)) (\<lambda>_. io_lift (Inr (server_output out)))) ?post"
    proof (cases "\<exists>crt mc key mk. CRT = Some (crt, mc) \<and> KEY = Some (key, mk) \<and> s = server_files v crt key")
      case True
      then obtain crt mc key mk where "s = server_files v crt key" "CRT = Some (crt, mc)" "KEY = Some (key, mk)" by blast
      from fin [OF this] show ?thesis by (rule triple_weaken) auto
    next
      case False
      show ?thesis by (rule triple_vacuous) (use False in \<open>auto simp: server_inputs_def\<close>)
    qed
  qed
  then have "triple I ?pre (io_bind (syscall ''mkdirtemp'' (\<lambda>F. F)) (\<lambda>_. io_bind ?copy (\<lambda>s.
      io_bind (tarDirectory P s (server_output out)) (\<lambda>_. io_lift (Inr (server_output out)))))) ?post" by (rule triple_call)
  then show ?thesis
    unfolding ServerBundle_def Let_def server_output_def [symmetric] assoc
    by (intro triple_loadState) (rule triple_weaken, assumption, auto)
qed

end
