(* ===== verification/Enrollment.thy ===== *)
theory Enrollment
  imports Bundle
begin

text \<open>
  \<^verbatim>\<open>Enroll\<close> of \<^verbatim>\<open>internal/provision/provision.go\<close>: what it leaves behind when it fails and when it succeeds,
  and that it succeeds when no call fails.
\<close>

section \<open>Enroll\<close>

definition outside :: "string \<Rightarrow> string \<Rightarrow> bool" where
  "outside d path \<longleftrightarrow> (\<forall>name. join d name \<noteq> path)"

lemma outside_neq: "outside d p \<Longrightarrow> p \<noteq> join d n"
  by (auto simp: outside_def)

lemma outside_ignores:
  assumes "outside d p"
  shows "ignores p (dep_inv d)" and "ignores p (synced d st)"
  using assms unfolding ignores_def guarded_def synced_def outside_def by auto

text \<open>Adding a client and revoking it again gives the state back.\<close>

lemma revoke_added:
  assumes ok: "state_ok st" and add: "add_client st options key rnd = Inr (c, st')"
  shows "revoke_client st' (pc_ID c) = Inr st" and "find (\<lambda>x. pc_ID x = pc_ID c) (st_Clients st') = Some c"
proof -
  obtain net n gw where s: "n \<le> 30" "parsed (st_Overlay st) = PrefixV4 net n" "parsed_addr (st_Gateway st) = IPv4 gw"
    by (rule state_okE [OF ok])
  have n: "n \<le> 32" using s(1) by simp
  have fresh: "\<forall>d \<in> set (st_Clients st). pc_ID d \<noteq> pc_ID c"
    and st': "st' = st\<lparr>st_Clients := sort_key pc_ID (st_Clients st @ [c])\<rparr>"
    by (rule add_client_Inr [OF add s(2) n s(3)], simp)+
  have "filter (\<lambda>x. pc_ID x \<noteq> pc_ID c) (st_Clients st') = sort_key pc_ID (filter (\<lambda>x. pc_ID x \<noteq> pc_ID c) (st_Clients st @ [c]))"
    by (simp add: st' filter_sort)
  also have "filter (\<lambda>x. pc_ID x \<noteq> pc_ID c) (st_Clients st @ [c]) = st_Clients st"
    using fresh by (simp add: filter_True)
  also have "sort_key pc_ID (st_Clients st) = st_Clients st"
    by (rule sort_key_id_if_sorted) (use ok in \<open>simp add: state_ok_def\<close>)
  finally have f: "filter (\<lambda>x. pc_ID x \<noteq> pc_ID c) (st_Clients st') = st_Clients st" .
  have c: "c \<in> set (st_Clients st')" by (simp add: st')
  then show "revoke_client st' (pc_ID c) = Inr st"
    using f unfolding revoke_client_Inr by (intro conjI bexI [of _ c]) (simp_all add: st')
  have only: "x = c" if "x \<in> set (st_Clients st')" "pc_ID x = pc_ID c" for x
    using that fresh by (auto simp: st')
  obtain y where y: "find (\<lambda>x. pc_ID x = pc_ID c) (st_Clients st') = Some y"
    using c find_None_iff [of "\<lambda>x. pc_ID x = pc_ID c" "st_Clients st'"] by fastforce
  then have "y \<in> set (st_Clients st')" "pc_ID y = pc_ID c" by (auto simp: find_Some_iff)
  with only y show "find (\<lambda>x. pc_ID x = pc_ID c) (st_Clients st') = Some c" by blast
qed

lemma bundle_checks_enrolled:
  assumes "state_ok st" and "add_client st options key rnd = Inr (c, st')" and "bundle_checks st' (enroll_bundle en c) = Inr c'"
  shows "c' = c"
  using assms(3) revoke_added(2) [OF assms(1,2)] by (auto simp: bundle_checks_def enroll_bundle_def split: if_splits)

text \<open>A save leaves every other file alone.\<close>

lemma triple_save_other:
  assumes "plain name" and "p \<notin> tmps d" and "p \<noteq> join d name"
  shows "triple (\<lambda>F. F p = x) A (SaveJSON d name v mode) (\<lambda>_ _. True)"
  by (rule triple_SaveJSON [OF assms(1)]) (use assms(2,3) in auto)

lemma AddClient_others:
  assumes "AddClient d options key rnd w = (r, w')"
    and p: "p \<notin> tmps d" "p \<noteq> join d ''state.json''" "p \<noteq> join d ''server.json''"
  shows "files w' p = files w p"
proof -
  let ?I = "\<lambda>F. F p = files w p"
  have save: "triple ?I A (io_bind (saveState d st) (\<lambda>_. io_bind (writeRelayConfig d st) (\<lambda>_. io_lift (Inr c)))) (\<lambda>_ _. True)"
    for A st and c :: ProvisionedClient
    unfolding saveState_def writeRelayConfig_def
    by (rule triple_bind [OF triple_save_other], use p in simp_all, rule triple_bind [OF triple_save_other], use p in simp_all, rule triple_return, simp)
  have "triple ?I (\<lambda>_. True) (AddClient d options key rnd) (\<lambda>_ _. True)"
    unfolding AddClient_def by (rule triple_loadState, rule triple_bind_lift) (simp add: save split: prod.splits)
  from tripleD(2) [OF this assms(1)] show ?thesis by simp
qed

text \<open>What the first step of an enrolment establishes.\<close>

lemma enroll_added:
  assumes "dep_inv d (files w)" and "synced d st (files w)" and "AddClient d options key rnd w = (Inr c, w1)"
    and "\<And>k. key = Inr k \<Longrightarrow> length k = 32" and "\<And>r. rnd = Inr r \<Longrightarrow> length r = 6"
  obtains st' where "state_ok st" "add_client st options key rnd = Inr (c, st')" "synced d st' (files w1)" "dep_inv d (files w1)"
proof -
  have s: "files w (join d ''state.json'') = Some (StateJSON st, mode_0600)" using assms(2) by (simp add: synced_def)
  note t = tripleD [OF triple_AddClient [OF assms(4,5), where d = d and options = options] assms(3) assms(1) s]
  have "dep_inv d (files w1)" using t(2) .
  moreover have "\<exists>st' . add_client st options key rnd = Inr (c, st') \<and> synced d st' (files w1)" using t(3) [of c] by auto
  ultimately show thesis using that dep_inv_state(1) [OF assms(1) s] by blast
qed

text \<open>
  C10. An enrolment that cannot build its bundle is undone.  When the client was added, its bundle failed and
  the roll back reports no failure, \<^verbatim>\<open>Enroll\<close> returns the error of the bundle, and \<^verbatim>\<open>state.json\<close> and
  \<^verbatim>\<open>server.json\<close> hold exactly the documents from before the call.
\<close>

theorem enroll_rolls_back:
  assumes "dep_inv d (files w)" and "synced d st (files w)"
    and "\<And>k. key = Inr k \<Longrightarrow> length k = 32" and "\<And>r. rnd = Inr r \<Longrightarrow> length r = 6"
    and add: "AddClient d (en_Add options) key rnd w = (Inr c, w1)"
    and bnd: "provision_Bundle P d (enroll_bundle options c) w1 = (Inl e, w2)"
    and revoke: "RevokeClient d (pc_ID c) w2 = (Inr (), w3)"
    and out: "outside d (bundle_output c (enroll_bundle options c))" "b_ClientBinary (enroll_bundle options c) \<noteq> bundle_output c (enroll_bundle options c)"
  shows "Enroll P d options key rnd w = (Inl e, w3) \<and> synced d st (files w3)"
proof
  show "Enroll P d options key rnd w = (Inl e, w3)"
    using add bnd revoke by (simp add: Enroll_def io_bind_def or_revoke_def)
  obtain st' where st': "state_ok st" "add_client st (en_Add options) key rnd = Inr (c, st')" "synced d st' (files w1)" "dep_inv d (files w1)"
    by (rule enroll_added [OF assms(1,2) add assms(3,4)])
  let ?b = "enroll_bundle options c" and ?I = "\<lambda>F. dep_inv d F \<and> synced d st' F"
  let ?CA = "files w1 (join d ''relay-ca.crt'')" and ?BIN = "files w1 (b_ClientBinary ?b)"
  have I: "ignores (bundle_output c ?b) ?I" using outside_ignores [OF out(1)] by (simp add: ignores_def)
  have A: "ignores (bundle_output c ?b) (\<lambda>F. inputs d ?b st' mode_0600 ?CA ?BIN F \<and> True)"
    using out unfolding ignores_def inputs_def outside_def by auto
  have t: "triple ?I (\<lambda>F. inputs d ?b st' mode_0600 ?CA ?BIN F \<and> True) (provision_Bundle P d ?b) (\<lambda>_ _. True)"
    by (rule triple_weaken [OF triple_provision_Bundle]) (use I A bundle_checks_enrolled [OF st'(1,2)] in auto)
  have "?I (files w2)" by (rule tripleD(2) [OF t bnd]) (use st' in \<open>auto simp: inputs_def synced_def\<close>)
  then have s2: "dep_inv d (files w2)" "files w2 (join d ''state.json'') = Some (StateJSON st', mode_0600)"
    by (auto simp: synced_def)
  from tripleD(3) [OF triple_RevokeClient revoke s2, of "()"]
  have "\<exists>st3. revoke_client st' (pc_ID c) = Inr st3 \<and> synced d st3 (files w3)" by auto
  then show "synced d st (files w3)" using revoke_added(1) [OF st'(1,2)] by simp
qed




section \<open>Success without faults\<close>

text \<open>\<open>fine A m B\<close>: when no call fails, \<open>m\<close> succeeds from every file system with \<open>A\<close>, and establishes \<open>B\<close>.\<close>

definition fine :: "(filesystem \<Rightarrow> bool) \<Rightarrow> 'a io \<Rightarrow> ('a \<Rightarrow> filesystem \<Rightarrow> bool) \<Rightarrow> bool" where
  "fine A m B \<longleftrightarrow> (\<forall>w. faults w = [] \<longrightarrow> A (files w) \<longrightarrow> (\<exists>x w'. m w = (Inr x, w') \<and> faults w' = [] \<and> B x (files w')))"

lemma fineD: "fine A m B \<Longrightarrow> faults w = [] \<Longrightarrow> A (files w) \<Longrightarrow> \<exists>x w'. m w = (Inr x, w') \<and> faults w' = [] \<and> B x (files w')"
  by (simp add: fine_def)

lemma fine_bind:
  assumes "fine A m B" and "\<And>x. fine (B x) (f x) C"
  shows "fine A (io_bind m f) C"
  unfolding fine_def
proof (intro allI impI)
  fix w :: world assume w: "faults w = []" "A (files w)"
  obtain x w1 where "m w = (Inr x, w1)" "faults w1 = []" "B x (files w1)" using fineD [OF assms(1) w] by blast
  then show "\<exists>y w'. io_bind m f w = (Inr y, w') \<and> faults w' = [] \<and> C y (files w')"
    using fineD [OF assms(2)] by (simp add: io_bind_def)
qed

lemma fine_weaken: "fine A m B \<Longrightarrow> (\<And>F. A' F \<Longrightarrow> A F) \<Longrightarrow> (\<And>x F. B x F \<Longrightarrow> B' x F) \<Longrightarrow> fine A' m B'"
  unfolding fine_def by meson

lemma fine_lift: "r = Inr x \<Longrightarrow> fine A (io_lift r) (\<lambda>y F. A F \<and> y = x)"
  by (simp add: fine_def io_lift_def)

lemma fine_bind_lift: "r = Inr x \<Longrightarrow> fine A (f x) C \<Longrightarrow> fine A (io_bind (io_lift r) f) C"
  by (simp add: fine_def io_bind_def io_lift_def)

lemma fine_syscall: "(\<And>F. A F \<Longrightarrow> B (f F)) \<Longrightarrow> fine A (syscall what f) (\<lambda>_. B)"
  by (simp add: fine_def syscall_def update_call_def)

lemma fine_write: "(\<And>F. A F \<Longrightarrow> B (f F)) \<Longrightarrow> fine A (write_call what path f) (\<lambda>_. B)"
  by (simp add: fine_def write_call_def update_call_def)

lemma fine_call: "fine A m C \<Longrightarrow> fine A (io_bind (syscall what (\<lambda>F. F)) (\<lambda>_. m)) C"
  by (rule fine_bind [OF fine_syscall [where B = A]])

lemma fine_ReadFile:
  assumes "\<And>F. A F \<Longrightarrow> F path \<noteq> None"
  shows "fine A (ReadFile path) (\<lambda>c F. A F \<and> (\<exists>m. F path = Some (c, m)))"
  unfolding fine_def
proof (intro allI impI)
  fix w :: world assume w: "faults w = []" "A (files w)"
  then obtain c m where c: "files w path = Some (c, m)" using assms by fastforce
  show "\<exists>x w'. ReadFile path w = (Inr x, w') \<and> faults w' = [] \<and> A (files w') \<and> (\<exists>m. files w' path = Some (x, m))"
    using ReadFile_no_faults [OF w(1) c] w(2) c by (cases "ReadFile path w") auto
qed

lemma fine_read:
  assumes "\<And>F. A F \<Longrightarrow> F path \<noteq> None" and "\<And>c. fine (\<lambda>F. A F \<and> (\<exists>m. F path = Some (c, m))) (f c) C"
  shows "fine A (io_bind (ReadFile path) f) C"
proof (rule fine_bind)
  show "fine A (ReadFile path) (\<lambda>c F. A F \<and> (\<exists>m. F path = Some (c, m)))" using assms(1) by (rule fine_ReadFile)
qed (rule assms(2))

lemma fine_triple:
  assumes "\<And>w. faults w = [] \<Longrightarrow> fst (m w) = Inr () \<and> faults (snd (m w)) = []" and "triple (\<lambda>_. True) A m B"
  shows "fine A m B"
  unfolding fine_def
proof (intro allI impI)
  fix w :: world assume w: "faults w = []" "A (files w)"
  then have "m w = (Inr (), snd (m w))" using assms(1) [OF w(1)] by (simp add: prod_eq_iff)
  moreover have "B () (files (snd (m w)))" by (rule tripleD(3) [OF assms(2) calculation]) (use w in simp_all)
  ultimately show "\<exists>x w'. m w = (Inr x, w') \<and> faults w' = [] \<and> B x (files w')" using assms(1) [OF w(1)] by blast
qed

lemma fine_SaveJSON:
  assumes "plain name" and "\<And>F G. A F \<Longrightarrow> G (join d name) = Some (v, mode) \<Longrightarrow> \<forall>p. p \<notin> tmps d \<longrightarrow> p \<noteq> join d name \<longrightarrow> G p = F p \<Longrightarrow> B G"
  shows "fine A (SaveJSON d name v mode) (\<lambda>_. B)"
  by (rule fine_triple [OF SaveJSON_no_faults triple_SaveJSON [OF assms(1)]]) (use assms(2) in auto)

lemma fine_stage: "fine A (stage n c m s) (\<lambda>_. A)"
  unfolding stage_def by (rule fine_call, rule fine_weaken [OF fine_lift [OF refl]]) auto

lemma fine_copyFile: "(\<And>F. A F \<Longrightarrow> F p \<noteq> None) \<Longrightarrow> fine A (copyFile p n m s) (\<lambda>_. A)"
  unfolding copyFile_def by (rule fine_read, assumption, rule fine_weaken [OF fine_stage]) auto

lemma fine_fileSHA256: "(\<And>F. A F \<Longrightarrow> F p \<noteq> None) \<Longrightarrow> fine A (fileSHA256 P p) (\<lambda>_. A)"
  unfolding fileSHA256_def by (rule fine_read, assumption, rule fine_weaken [OF fine_lift [OF refl]]) auto


lemma fine_each_entry: "fine A (each_entry calls es) (\<lambda>_. A)"
proof (induction es)
  case Nil
  then show ?case by (simp add: fine_def io_lift_def)
next
  case (Cons e es)
  have "fine A (foldr (\<lambda>what m. io_bind (syscall what (\<lambda>F. F)) (\<lambda>_. m)) calls (io_lift (Inr ()))) (\<lambda>_. A)"
    by (induction calls) (simp_all add: fine_call, simp add: fine_def io_lift_def)
  then show ?case using Cons.IH by (simp add: fine_bind)
qed

lemma fine_ReadDir: "fine A (ReadDir k s) (\<lambda>_. A)"
  by (simp add: fine_def ReadDir_def syscall_def update_call_def Let_def)

lemma fine_tarDirectory: "ignores out A \<Longrightarrow> fine A (tarDirectory P s out) (\<lambda>_. A)"
  unfolding tarDirectory_def
  by (intro fine_bind [where B = "\<lambda>_ F. A F \<and> F out \<noteq> None"] fine_syscall fine_write fine_ReadDir fine_each_entry fine_weaken [OF fine_syscall [where B = A]])
    (auto simp: ignores_def)

lemma fine_zipDirectory: "ignores out A \<Longrightarrow> fine A (zipDirectory P s out) (\<lambda>_. A)"
  unfolding zipDirectory_def
  by (intro fine_bind [where B = "\<lambda>_ F. A F \<and> F out \<noteq> None"] fine_syscall fine_write fine_ReadDir fine_each_entry fine_weaken [OF fine_syscall [where B = A]])
    (auto simp: ignores_def)

lemma fine_render_assets:
  "(\<forall>n \<in> set names. asset P n \<noteq> None) \<Longrightarrow> fine A (render_assets P names s) (\<lambda>_. A)"
proof (induction names arbitrary: s)
  case Nil
  then show ?case by (simp add: fine_def io_lift_def)
next
  case (Cons n names)
  then obtain x where "asset P n = Some x" by auto
  then show ?case using Cons by (simp add: Let_def fine_bind [OF fine_stage])
qed

text \<open>A binary that \<^verbatim>\<open>verifyClientBinary\<close> accepts.\<close>

definition executable_for :: "string \<Rightarrow> bytes \<Rightarrow> bool" where
  "executable_for os bs \<longleftrightarrow> 4 \<le> length bs \<and> (os = ''linux'' \<longrightarrow> take 4 bs = [0x7F, 0x45, 0x4C, 0x46])
     \<and> (os = ''windows'' \<longrightarrow> take 2 bs = [0x4D, 0x5A])"

text \<open>The other files an enrolment needs.\<close>

definition ready :: "platform \<Rightarrow> string \<Rightarrow> BundleOptions \<Rightarrow> string \<Rightarrow> filesystem \<Rightarrow> bool" where
  "ready P d options os F \<longleftrightarrow>
     (\<exists>x der m cert. F (join d ''relay-ca.crt'') = Some (PEM x der, m) \<and> ParseCertificate (certs P) der = Inr cert)
     \<and> F (join d ''relay.crt'') \<noteq> None \<and> F (join d ''relay.key'') \<noteq> None
     \<and> (\<exists>b m. F (b_ClientBinary options) = Some (b, m) \<and> executable_for os (enc P b))
     \<and> (os = ''windows'' \<longrightarrow> F (b_TapInstaller options) \<noteq> None \<and> F (b_Tapctl options) \<noteq> None)"

lemma fine_verifyClientBinary:
  assumes "\<And>F. A F \<Longrightarrow> \<exists>b m. F path = Some (b, m) \<and> executable_for os (enc P b)"
  shows "fine A (verifyClientBinary P path os) (\<lambda>_. A)"
  unfolding verifyClientBinary_def
proof (rule fine_read)
  show "F path \<noteq> None" if "A F" for F using assms [OF that] by auto
  fix c
  show "fine (\<lambda>F. A F \<and> (\<exists>m. F path = Some (c, m))) (io_lift (
       let header = take 4 (enc P c) in
       if length header < 4 then Inl (Errw ''read %s: %w'' [path] (Err ''unexpected EOF''))
       else if os = ''linux'' then
         (if header \<noteq> [0x7F, 0x45, 0x4C, 0x46] then Inl (Errf ''%s is not a Linux ELF binary'' [path]) else Inr ())
       else if os = ''windows'' then
         (if header ! 0 \<noteq> 0x4D \<or> header ! 1 \<noteq> 0x5A then Inl (Errf ''%s is not a Windows PE binary'' [path]) else Inr ())
       else Inr ())) (\<lambda>_. A)" (is "fine ?A (io_lift ?r) _")
  proof (cases "executable_for os (enc P c)")
    case True
    have "enc P c ! 0 = 0x4D \<and> enc P c ! Suc 0 = 0x5A" if "take 2 (enc P c) = [0x4D, 0x5A]"
      using arg_cong [OF that, of "\<lambda>l. l ! 0"] arg_cong [OF that, of "\<lambda>l. l ! 1"] by simp
    with True have "?r = Inr ()" by (auto simp: executable_for_def Let_def)
    then show ?thesis by (rule fine_weaken [OF fine_lift]) auto
  next
    case False
    show ?thesis unfolding fine_def using assms False by fastforce
  qed
qed

lemma fine_Fingerprint:
  assumes "\<And>F. A F \<Longrightarrow> \<exists>x der m cert. F path = Some (PEM x der, m) \<and> ParseCertificate (certs P) der = Inr cert"
  shows "fine A (Fingerprint P path) (\<lambda>_. A)"
  unfolding Fingerprint_def
proof (rule fine_read)
  show "F path \<noteq> None" if "A F" for F using assms [OF that] by auto
  fix c
  let ?r = "case c of PEM _ der \<Rightarrow> and_then (ParseCertificate (certs P) der) (\<lambda>certificate.
           Inr (map upper_char (hex_EncodeToString (sha256 (x_RawSubjectPublicKeyInfo certificate)))))
       | _ \<Rightarrow> Inl (Err ''invalid PEM certificate'')"
  have "\<exists>h. ?r = Inr h" if "A F" "F path = Some (c, m)" for F m
    using assms [OF that(1)] that(2) by auto
  then show "fine (\<lambda>F. A F \<and> (\<exists>m. F path = Some (c, m))) (io_lift ?r) (\<lambda>_. A)"
    unfolding fine_def io_lift_def by blast
qed


lemma ready_binary: "ready P d options os F \<Longrightarrow> \<exists>b m. F (b_ClientBinary options) = Some (b, m) \<and> executable_for os (enc P b)"
  by (simp add: ready_def)

lemma ready_ca: "ready P d options os F \<Longrightarrow> \<exists>x der m cert. F (join d ''relay-ca.crt'') = Some (PEM x der, m) \<and> ParseCertificate (certs P) der = Inr cert"
  by (simp add: ready_def)

lemma ready_some:
  "ready P d options os F \<Longrightarrow> F (b_ClientBinary options) \<noteq> None" "ready P d options os F \<Longrightarrow> F (join d ''relay-ca.crt'') \<noteq> None"
  "ready P d options ''windows'' F \<Longrightarrow> F (b_TapInstaller options) \<noteq> None" "ready P d options ''windows'' F \<Longrightarrow> F (b_Tapctl options) \<noteq> None"
  "ready P d options os F \<Longrightarrow> F (join d ''relay.crt'') \<noteq> None" "ready P d options os F \<Longrightarrow> F (join d ''relay.key'') \<noteq> None"
  by (auto simp: ready_def)

lemma fine_return: "fine A (io_lift (Inr x)) (\<lambda>_. A)"
  by (rule fine_weaken [OF fine_lift [OF refl]]) auto

lemma fine_if: "(b \<Longrightarrow> fine A m C) \<Longrightarrow> (\<not> b \<Longrightarrow> fine A m' C) \<Longrightarrow> fine A (if b then m else m') C"
  by simp

lemma fine_seq: "fine A m (\<lambda>_. A) \<Longrightarrow> (\<And>x. fine A (f x) C) \<Longrightarrow> fine A (io_bind m f) C"
  by (rule fine_bind)

lemma fine_renderBundle:
  assumes A: "\<And>F. A F \<Longrightarrow> ready P d options (pc_OS c) F" and assets: "\<forall>n \<in> set (asset_names c). asset P n \<noteq> None"
  shows "fine A (renderBundle P d st c options) (\<lambda>_. A)"
proof -
  have ca: "fine A (io_bind (ReadFile (join d ''relay-ca.crt'')) f) C" if "\<And>x. fine A (f x) C" for f :: "content \<Rightarrow> staging io" and C
    by (rule fine_read) (use A ready_some(2) in blast, rule fine_weaken [OF that], auto)
  have 1: "fine A (render_identity d st c s) (\<lambda>_. A)" for s
    unfolding render_identity_def by (intro ca fine_seq fine_stage)
  have taps: "fine A (tap_hashes P c options) (\<lambda>_. A)"
    unfolding tap_hashes_def by (intro fine_if fine_seq fine_fileSHA256 fine_return) (use A ready_some(3,4) in metis)+
  have bin: "F (b_ClientBinary options) \<noteq> None" if "A F" for F using A [OF that] ready_some(1) by blast
  have 2: "fine A (render_meta P d st c options s) (\<lambda>_. A)" for s
    unfolding render_meta_def
    by (intro fine_seq fine_fileSHA256 fine_Fingerprint taps fine_stage fine_if fine_return) (use bin A ready_ca in blast)+
  have 3: "fine A (render_binaries c options s) (\<lambda>_. A)" for s
    unfolding render_binaries_def Let_def
    by (intro fine_seq fine_copyFile fine_if fine_return) (use bin in blast, (use A ready_some(3,4) in metis)+)
  show ?thesis
    unfolding renderBundle_def by (intro fine_seq 1 2 3 fine_render_assets assets)
qed

lemma fine_loadState:
  assumes "\<And>F. A F \<Longrightarrow> \<exists>m. F (join d ''state.json'') = Some (StateJSON st, m)" and "st_Version st = 1" and "fine A (f st) C"
  shows "fine A (io_bind (loadState d) f) C"
proof -
  have "fine A (loadState d) (\<lambda>x F. A F \<and> x = st)"
    unfolding loadState_def
  proof (rule fine_read)
    show "F (join d ''state.json'') \<noteq> None" if "A F" for F using assms(1) [OF that] by auto
    fix c
    show "fine (\<lambda>F. A F \<and> (\<exists>m. F (join d ''state.json'') = Some (c, m)))
      (io_lift (case c of StateJSON state \<Rightarrow> if st_Version state \<noteq> 1 then Inl (Err ''unsupported deployment state version'') else Inr state
         | _ \<Rightarrow> Inl (Err ''unmarshal''))) (\<lambda>x F. A F \<and> x = st)"
      unfolding fine_def io_lift_def using assms(1,2) by fastforce
  qed
  moreover have "fine (\<lambda>F. A F \<and> x = st) (f x) C" for x
    using assms(3) by (cases "x = st") (auto simp: fine_def)
  ultimately show ?thesis by (rule fine_bind)
qed

lemma fine_AddClient:
  assumes "st_Version st = 1" and "add_client st options key rnd = Inr (c, st')"
    and R: "\<And>F G. R F \<Longrightarrow> \<forall>p. p \<notin> tmps d \<longrightarrow> p \<noteq> join d ''state.json'' \<longrightarrow> p \<noteq> join d ''server.json'' \<longrightarrow> G p = F p \<Longrightarrow> R G"
  shows "fine (\<lambda>F. F (join d ''state.json'') = Some (StateJSON st, m) \<and> R F) (AddClient d options key rnd)
    (\<lambda>y F. y = c \<and> synced d st' F \<and> R F)"
proof -
  let ?A = "\<lambda>F. F (join d ''state.json'') = Some (StateJSON st, m) \<and> R F"
  let ?B = "\<lambda>F. F (join d ''state.json'') = Some (StateJSON st', mode_0600) \<and> R F"
  let ?C = "\<lambda>F. synced d st' F \<and> R F"
  have "fine ?A (saveState d st') (\<lambda>_. ?B)"
    unfolding saveState_def by (rule fine_SaveJSON) (use R in auto)
  moreover have "fine ?B (writeRelayConfig d st') (\<lambda>_. ?C)"
    unfolding writeRelayConfig_def
    by (rule fine_SaveJSON) (use R plain_not_tmp [OF plain_names(1), of d] in \<open>auto simp: synced_def\<close>)
  moreover have "fine ?C (io_lift (Inr c)) (\<lambda>y F. y = c \<and> synced d st' F \<and> R F)"
    by (rule fine_weaken [OF fine_lift [OF refl]]) auto
  ultimately have run: "fine ?A (io_bind (saveState d st') (\<lambda>_. io_bind (writeRelayConfig d st') (\<lambda>_. io_lift (Inr c))))
      (\<lambda>y F. y = c \<and> synced d st' F \<and> R F)" by (meson fine_bind)
  show ?thesis
    unfolding AddClient_def
    by (rule fine_loadState [OF _ assms(1)], blast, rule fine_bind_lift [OF assms(2)]) (simp add: run)
qed


lemma fine_provision_Bundle:
  assumes A: "\<And>F. A F \<Longrightarrow> F (join d ''state.json'') = Some (StateJSON st, mode_0600)" "\<And>F. A F \<Longrightarrow> ready P d options (pc_OS c) F"
    and st: "st_Version st = 1" "bundle_checks st options = Inr c" and assets: "\<forall>n \<in> set (asset_names c). asset P n \<noteq> None"
    and out: "ignores (bundle_output c options) A"
  shows "fine A (provision_Bundle P d options) (\<lambda>_. A)"
  unfolding provision_Bundle_def Let_def
proof (rule fine_loadState [OF _ st(1)])
  show "fine A (io_bind (io_lift (bundle_checks st options)) (\<lambda>selected.
     io_bind (verifyClientBinary P (b_ClientBinary options) (pc_OS selected)) (\<lambda>_.
     io_bind (syscall ''mkdirtemp'' (\<lambda>F. F)) (\<lambda>_.
     io_bind (renderBundle P d st selected options) (\<lambda>temp.
     io_bind (if pc_OS selected = ''windows'' then zipDirectory P temp (bundle_output selected options)
              else tarDirectory P temp (bundle_output selected options)) (\<lambda>_.
     io_lift (Inr (bundle_output selected options)))))))) (\<lambda>_. A)"
    by (rule fine_bind_lift [OF st(2)],
        intro fine_seq fine_verifyClientBinary fine_call fine_renderBundle fine_if fine_zipDirectory fine_tarDirectory fine_return out)
      (use A(2) ready_binary assets in blast)+
qed (use A(1) in blast)

lemma fine_ServerBundle:
  assumes A: "\<And>F. A F \<Longrightarrow> synced d st F" "\<And>F. A F \<Longrightarrow> F (join d ''relay.crt'') \<noteq> None \<and> F (join d ''relay.key'') \<noteq> None"
    and st: "st_Version st = 1" and out: "ignores (server_output output) A"
  shows "fine A (ServerBundle P d output) (\<lambda>_. A)"
  unfolding ServerBundle_def Let_def server_output_def [symmetric]
  by (rule fine_loadState [OF _ st], use A(1) in \<open>unfold synced_def, blast\<close>,
      intro fine_call fine_seq fine_copyFile fine_tarDirectory fine_return out)
    (use A in \<open>auto simp: synced_def\<close>)

lemma or_revoke_fine: "fine A m B \<Longrightarrow> fine A (or_revoke d cid m) B"
  unfolding fine_def or_revoke_def by fastforce

lemma ready_outside:
  assumes "ready P d options os F" and "\<And>n. n \<in> {''relay-ca.crt'', ''relay.crt'', ''relay.key''} \<Longrightarrow> G (join d n) = F (join d n)"
    and "\<And>p. p \<in> {b_ClientBinary options, b_TapInstaller options, b_Tapctl options} \<Longrightarrow> G p = F p"
  shows "ready P d options os G"
  using assms by (simp add: ready_def)

lemma Enroll_no_faults:
  assumes nofault: "faults w = []" and st: "state_ok st" "files w (join d ''state.json'') = Some (StateJSON st, m)"
    and add: "add_client st (en_Add options) key rnd = Inr (c, st')"
    and ready: "ready P d (enroll_bundle options c) (pc_OS c) (files w)" and assets: "\<forall>n \<in> set (asset_names c). asset P n \<noteq> None"
    and given: "en_ClientBinary options \<noteq> ''''" "pc_OS c = ''windows'' \<longrightarrow> en_TapInstaller options \<noteq> '''' \<and> en_Tapctl options \<noteq> ''''"
    and inp: "\<forall>p \<in> {en_ClientBinary options, en_TapInstaller options, en_Tapctl options}. outside d p \<and> p \<noteq> cout \<and> p \<noteq> sout"
    and out: "cout = bundle_output c (enroll_bundle options c)" "sout = server_output (en_ServerOutput options)" "outside d cout" "outside d sout"
  shows "\<exists>res w'. Enroll P d options key rnd w = (Inr res, w') \<and> er_Client res = c"
proof -
  let ?b = "enroll_bundle options c"
  let ?R = "ready P d ?b (pc_OS c)" and ?B = "\<lambda>F. synced d st' F \<and> ready P d ?b (pc_OS c) F"
  have v: "st_Version st = 1" using st(1) by (simp add: state_ok_def)
  have v': "st_Version st' = 1" using v add by (auto simp: add_client_def Let_def wsn_res)
  have bc: "bundle_checks st' ?b = Inr c"
    using revoke_added(2) [OF st(1) add] given by (auto simp: bundle_checks_def enroll_bundle_def)
  have ins: "outside d p" "p \<noteq> cout" "p \<noteq> sout" if "p \<in> {b_ClientBinary ?b, b_TapInstaller ?b, b_Tapctl ?b}" for p
    using inp that by (auto simp: enroll_bundle_def)
  have R: "?R G" if F: "?R F" and eq: "\<forall>p. p \<notin> tmps d \<longrightarrow> p \<noteq> join d ''state.json'' \<longrightarrow> p \<noteq> join d ''server.json'' \<longrightarrow> G p = F p" for F G
  proof (rule ready_outside [OF F])
    show "G (join d n) = F (join d n)" if "n \<in> {''relay-ca.crt'', ''relay.crt'', ''relay.key''}" for n
      using that eq plain_not_tmp [of n d] by auto
    show "G p = F p" if "p \<in> {b_ClientBinary ?b, b_TapInstaller ?b, b_Tapctl ?b}" for p
    proof -
      have "p \<notin> tmps d" "p \<noteq> join d ''state.json''" "p \<noteq> join d ''server.json''"
        using outside_neq [OF ins(1) [OF that]] by (auto simp: tmps_def)
      then show ?thesis using eq by blast
    qed
  qed
  have ign: "ignores o' ?B" if "outside d o'" "\<And>p. p \<in> {b_ClientBinary ?b, b_TapInstaller ?b, b_Tapctl ?b} \<Longrightarrow> p \<noteq> o'" for o'
    unfolding ignores_def
  proof (intro allI impI)
    fix F x assume F: "?B F"
    have "synced d st' (F(o' \<mapsto> x))" using F that(1) by (auto simp: synced_def outside_def)
    moreover have "?R (F(o' \<mapsto> x))"
      by (rule ready_outside [of P d ?b _ F]) (use F that in \<open>auto simp: outside_def\<close>)
    ultimately show "?B (F(o' \<mapsto> x))" by blast
  qed
  have 1: "fine (\<lambda>F. F (join d ''state.json'') = Some (StateJSON st, m) \<and> ?R F) (AddClient d (en_Add options) key rnd) (\<lambda>y F. y = c \<and> ?B F)"
    by (rule fine_AddClient [OF v add R])
  have 2: "fine ?B (or_revoke d (pc_ID c) (provision_Bundle P d ?b)) (\<lambda>_. ?B)"
    by (rule or_revoke_fine, rule fine_provision_Bundle [OF _ _ v' bc assets]) (use ign [OF out(3) ins(2)] out(1) in \<open>auto simp: synced_def\<close>)
  have 3: "fine ?B (ServerBundle P d (en_ServerOutput options)) (\<lambda>_. ?B)"
    by (rule fine_ServerBundle [OF _ _ v']) (use ign [OF out(4) ins(3)] out(2) ready_some(5,6) in \<open>auto\<close>)
  have "fine ?B (io_bind (or_revoke d (pc_ID c) (provision_Bundle P d ?b)) (\<lambda>clientBundle.
     io_bind (ServerBundle P d (en_ServerOutput options)) (\<lambda>serverBundle.
     io_lift (Inr \<lparr>er_Client = c, er_ClientBundle = clientBundle, er_ServerBundle = serverBundle\<rparr>)))) (\<lambda>r _. er_Client r = c)"
    by (intro fine_bind [OF 2] fine_bind [OF 3], rule fine_weaken [OF fine_lift [OF refl]]) auto
  then have 4: "fine (\<lambda>F. y = c \<and> ?B F) (io_bind (or_revoke d (pc_ID y) (provision_Bundle P d (enroll_bundle options y))) (\<lambda>clientBundle.
     io_bind (ServerBundle P d (en_ServerOutput options)) (\<lambda>serverBundle.
     io_lift (Inr \<lparr>er_Client = y, er_ClientBundle = clientBundle, er_ServerBundle = serverBundle\<rparr>)))) (\<lambda>r _. er_Client r = c)" for y
    by (cases "y = c") (simp_all, simp add: fine_def)
  show ?thesis using fineD [OF fine_bind [OF 1 4] nofault] st(2) ready unfolding Enroll_def by blast
qed

text \<open>
  C32. Enrolment works.  When no call fails, the options are valid for the stored deployment and the binaries, the
  certificates and the embedded scripts are there, \<^verbatim>\<open>Enroll\<close> returns the new client.
\<close>

theorem enroll_succeeds:
  assumes nofault: "faults w = []" and st: "state_ok st" "files w (join d ''state.json'') = Some (StateJSON st, m)"
    and add: "add_client st (en_Add options) key rnd = Inr (c, st')"
    and ready: "ready P d (enroll_bundle options c) (pc_OS c) (files w)" and assets: "\<forall>n \<in> set (asset_names c). asset P n \<noteq> None"
    and given: "en_ClientBinary options \<noteq> ''''" "pc_OS c = ''windows'' \<longrightarrow> en_TapInstaller options \<noteq> '''' \<and> en_Tapctl options \<noteq> ''''"
    and inp: "\<forall>p \<in> {en_ClientBinary options, en_TapInstaller options, en_Tapctl options}. outside d p \<and> p \<noteq> cout \<and> p \<noteq> sout"
    and out: "cout = bundle_output c (enroll_bundle options c)" "sout = server_output (en_ServerOutput options)" "outside d cout" "outside d sout"
  shows "\<exists>res w'. Enroll P d options key rnd w = (Inr res, w') \<and> er_Client res = c"
  using assms by (rule Enroll_no_faults)


section \<open>Examples\<close>

definition ex_st0 :: State where
  "ex_st0 = \<lparr>st_Version = 1, st_PublicIP = ''192.0.2.1'', st_Overlay = ''10.0.0.0/24'', st_Gateway = ''10.0.0.1'',
     st_DNS = '''', st_Search = [], st_Clients = []\<rparr>"

lemma ex_st0_ok: "state_ok ex_st0"
proof (rule init_state_ok)
  show "init_state ex_init = Inr (IPv4 0xC0000201, ex_st0)" by code_simp
qed

definition ex_add :: AddOptions where
  "ex_add = \<lparr>a_ID = ''a'', a_OS = ''linux'', a_Role = '''', a_Address = ''10.0.0.2'', a_Device = '''', a_Routes = [], a_Egress = ''''\<rparr>"

definition ex_key :: bytes where "ex_key = replicate 32 0"
definition ex_rnd :: bytes where "ex_rnd = [0, 0, 0, 0, 0, 1]"

definition ex_enroll :: "string \<Rightarrow> EnrollOptions" where
  "ex_enroll binary = \<lparr>en_Add = ex_add, en_ClientBinary = binary, en_TapInstaller = '''', en_Tapctl = '''', en_Output = '''', en_ServerOutput = ''''\<rparr>"

definition ex_platform :: platform where
  "ex_platform = \<lparr>enc = (\<lambda>c. case c of Blob s \<Rightarrow> bytes_of_string s | _ \<Rightarrow> []), asset = (\<lambda>_. Some ''#''), certs = ex_x509, part = 0\<rparr>"

definition ex_site :: world where
  "ex_site = \<lparr>files = [join ''/d'' ''state.json'' \<mapsto> (StateJSON ex_st0, mode_0600),
       join ''/d'' ''server.json'' \<mapsto> (RelayJSON (relay_config ex_st0), mode_0600),
       join ''/d'' ''relay-ca.crt'' \<mapsto> (PEM ''CERTIFICATE'' [1], mode_0644), join ''/d'' ''relay.crt'' \<mapsto> (PEM ''CERTIFICATE'' [2], mode_0644),
       join ''/d'' ''relay.key'' \<mapsto> (PEM ''PRIVATE KEY'' [3], mode_0600), ''wsn-client'' \<mapsto> (Blob (CHR 0x7F # ''ELF''), mode_0755)],
     unsynced = {}, trail = [], faults = [], tmp_nr = 0\<rparr>"

lemma ex_site_synced: "synced ''/d'' ex_st0 (files ex_site)"
  by (simp add: synced_def ex_site_def join_def)

lemma ex_site_inv: "dep_inv ''/d'' (files ex_site)"
  unfolding guarded_def
proof (intro allI impI)
  fix n x assume "files ex_site (join ''/d'' n) = Some x"
  moreover have "join ''/d'' n \<noteq> ''wsn-client''" by (simp add: join_def)
  ultimately show "dep_ok n x" using ex_st0_ok by (auto simp: ex_site_def dep_ok_def split: if_splits)
qed

lemma ex_added:
  obtains c st' where "add_client ex_st0 ex_add (Inr ex_key) (Inr ex_rnd) = Inr (c, st')" "pc_OS c = ''linux''" "pc_ID c = ''a''"
proof -
  have "(case add_client ex_st0 ex_add (Inr ex_key) (Inr ex_rnd) of Inr (c, st') \<Rightarrow> pc_OS c = ''linux'' \<and> pc_ID c = ''a'' | Inl _ \<Rightarrow> False)" by code_simp
  then show thesis using that by (auto split: sum.splits prod.splits)
qed

lemma ex_outputs:
  assumes "pc_OS c = ''linux''" "pc_ID c = ''a''"
  shows "bundle_output c (enroll_bundle (ex_enroll b) c) = ''a-linux.tar.gz''" "server_output (en_ServerOutput (ex_enroll b)) = ''wsn-server-private.tar.gz''"
    "outside ''/d'' ''a-linux.tar.gz''" "outside ''/d'' ''wsn-server-private.tar.gz''"
  using assms by (simp_all add: bundle_output_def enroll_bundle_def ex_enroll_def server_output_def outside_def join_def)

lemma ex_run:
  "\<exists>res w'. Enroll ex_platform ''/d'' (ex_enroll ''wsn-client'') (Inr ex_key) (Inr ex_rnd) ex_site = (Inr res, w')
     \<and> pc_OS (er_Client res) = ''linux'' \<and> pc_ID (er_Client res) = ''a''"
proof (rule ex_added)
  fix c st' assume c: "add_client ex_st0 ex_add (Inr ex_key) (Inr ex_rnd) = Inr (c, st')" "pc_OS c = ''linux''" "pc_ID c = ''a''"
  have "ready ex_platform ''/d'' (enroll_bundle (ex_enroll ''wsn-client'') c) (pc_OS c) (files ex_site)"
    using c(2) by (simp add: ready_def ex_site_def ex_platform_def enroll_bundle_def ex_enroll_def ex_x509_def executable_for_def
        bytes_of_string_def join_def byte_of_char_def)
  then have "\<exists>res w'. Enroll ex_platform ''/d'' (ex_enroll ''wsn-client'') (Inr ex_key) (Inr ex_rnd) ex_site = (Inr res, w') \<and> er_Client res = c"
    using c ex_site_synced
    by (intro Enroll_no_faults [OF _ ex_st0_ok _ _ _ _ _ _ _ ex_outputs(1,2) [OF c(2,3), symmetric] ex_outputs(3,4) [OF c(2,3)], where m = mode_0600 and st' = st'])
      (auto simp: ex_site_def ex_platform_def ex_enroll_def synced_def outside_def join_def)
  then show ?thesis using c by blast
qed


theorem enroll_succeeds_witness:
  "\<exists>res w'. Enroll ex_platform ''/d'' (ex_enroll ''wsn-client'') (Inr ex_key) (Inr ex_rnd) ex_site = (Inr res, w') \<and> pc_ID (er_Client res) = ''a''"
proof (rule ex_added)
  fix c st' assume c: "add_client ex_st0 ex_add (Inr ex_key) (Inr ex_rnd) = Inr (c, st')" "pc_OS c = ''linux''" "pc_ID c = ''a''"
  have "ready ex_platform ''/d'' (enroll_bundle (ex_enroll ''wsn-client'') c) (pc_OS c) (files ex_site)"
    using c(2) by (simp add: ready_def ex_site_def ex_platform_def enroll_bundle_def ex_enroll_def ex_x509_def executable_for_def
        bytes_of_string_def join_def byte_of_char_def)
  then have "\<exists>res w'. Enroll ex_platform ''/d'' (ex_enroll ''wsn-client'') (Inr ex_key) (Inr ex_rnd) ex_site = (Inr res, w') \<and> er_Client res = c"
    using c ex_site_synced
    by (intro enroll_succeeds [OF _ ex_st0_ok _ _ _ _ _ _ _ ex_outputs(1,2) [OF c(2,3), symmetric] ex_outputs(3,4) [OF c(2,3)], where m = mode_0600 and st' = st'])
      (auto simp: ex_site_def ex_platform_def ex_enroll_def synced_def outside_def join_def)
  then show ?thesis using c by blast
qed


lemma bundle_refused:
  assumes "faults w = []" and "files w (join d ''state.json'') = Some (StateJSON st, m)" and "st_Version st = 1" and "bundle_checks st options = Inl e"
  shows "\<exists>w'. provision_Bundle P d options w = (Inl e, w') \<and> faults w' = [] \<and> files w' = files w"
proof -
  obtain w1 where "ReadFile (join d ''state.json'') w = (Inr (StateJSON st), w1)" "faults w1 = []" "files w1 = files w"
    using ReadFile_no_faults [OF assms(1,2)] by (cases "ReadFile (join d ''state.json'') w") auto
  then show ?thesis using assms(3,4) by (simp add: provision_Bundle_def loadState_def io_bind_def io_lift_def)
qed

text \<open>An enrolment without a client binary.\<close>

theorem enroll_rolls_back_witness:
  "\<exists>w3. Enroll ex_platform ''/d'' (ex_enroll '''') (Inr ex_key) (Inr ex_rnd) ex_site = (Inl (Err ''client-binary is required''), w3)
     \<and> synced ''/d'' ex_st0 (files w3)"
proof (rule ex_added)
  let ?e = "Err ''client-binary is required''"
  fix c st' assume c: "add_client ex_st0 ex_add (Inr ex_key) (Inr ex_rnd) = Inr (c, st')" "pc_OS c = ''linux''" "pc_ID c = ''a''"
  have add: "add_client ex_st0 (en_Add (ex_enroll '''')) (Inr ex_key) (Inr ex_rnd) = Inr (c, st')" using c by (simp add: ex_enroll_def)
  have v: "st_Version ex_st0 = 1" by (simp add: ex_st0_def)
  have "files ex_site (join ''/d'' ''state.json'') = Some (StateJSON ex_st0, mode_0600) \<and> True" "faults ex_site = []"
    using ex_site_synced by (simp_all add: synced_def ex_site_def)
  then obtain w1 where w1: "AddClient ''/d'' (en_Add (ex_enroll '''')) (Inr ex_key) (Inr ex_rnd) ex_site = (Inr c, w1)" "faults w1 = []" "synced ''/d'' st' (files w1)"
    using fineD [OF fine_AddClient [OF v add, where R = "\<lambda>_. True" and d = "''/d''" and m = mode_0600], of ex_site] by auto
  have s1: "files w1 (join ''/d'' ''state.json'') = Some (StateJSON st', mode_0600)" using w1(3) by (simp add: synced_def)
  have v': "st_Version st' = 1" using c(1) v by (auto simp: add_client_def Let_def wsn_res)
  have "bundle_checks st' (enroll_bundle (ex_enroll '''') c) = Inl ?e"
    using revoke_added(2) [OF ex_st0_ok c(1)] by (simp add: bundle_checks_def enroll_bundle_def ex_enroll_def)
  then obtain w2 where w2: "provision_Bundle ex_platform ''/d'' (enroll_bundle (ex_enroll '''') c) w1 = (Inl ?e, w2)" "faults w2 = []" "files w2 = files w1"
    using bundle_refused [OF w1(2) s1 v'] by blast
  have "fst (RevokeClient ''/d'' (pc_ID c) w2) = Inr ()"
    by (rule RevokeClient_no_faults [OF w2(2) _ v' revoke_added(1) [OF ex_st0_ok c(1)], where m = mode_0600]) (simp add: w2(3) s1)
  then obtain w3 where w3: "RevokeClient ''/d'' (pc_ID c) w2 = (Inr (), w3)" by (cases "RevokeClient ''/d'' (pc_ID c) w2") auto
  note o = ex_outputs [OF c(2,3)]
  have "outside ''/d'' (bundle_output c (enroll_bundle (ex_enroll '''') c))" "b_ClientBinary (enroll_bundle (ex_enroll '''') c) \<noteq> bundle_output c (enroll_bundle (ex_enroll '''') c)"
    using o(1,3) by (simp_all, simp add: enroll_bundle_def ex_enroll_def)
  with enroll_rolls_back [OF ex_site_inv ex_site_synced _ _ w1(1) w2(1) w3]
  show ?thesis by (simp add: ex_key_def ex_rnd_def)
qed

text \<open>The client that the example adds.\<close>

definition ex_added_pair :: "ProvisionedClient \<times> State" where
  "ex_added_pair = (case add_client ex_st0 ex_add (Inr ex_key) (Inr ex_rnd) of Inr p \<Rightarrow> p | Inl _ \<Rightarrow> undefined)"

lemma ex_added_ok:
  "add_client ex_st0 ex_add (Inr ex_key) (Inr ex_rnd) = Inr ex_added_pair"
  "state_ok (snd ex_added_pair)" "st_Clients (snd ex_added_pair) = [fst ex_added_pair]" "pc_OS (fst ex_added_pair) = ''linux''"
proof -
  obtain c st' where c: "add_client ex_st0 ex_add (Inr ex_key) (Inr ex_rnd) = Inr (c, st')" "pc_OS c = ''linux''" by (rule ex_added)
  then have p: "ex_added_pair = (c, st')" by (simp add: ex_added_pair_def)
  show "add_client ex_st0 ex_add (Inr ex_key) (Inr ex_rnd) = Inr ex_added_pair" unfolding p by (rule c(1))
  have "length k = 32" if "Inr ex_key = (Inr k :: bytes res)" for k using that by (auto simp: ex_key_def)
  moreover have "length r = 6" if "Inr ex_rnd = (Inr r :: bytes res)" for r using that by (auto simp: ex_rnd_def)
  ultimately have ok: "state_ok st'" "mset (st_Clients st') = add_mset c (mset (st_Clients ex_st0))"
    using add_client_ok [OF ex_st0_ok c(1)] by blast+
  show "state_ok (snd ex_added_pair)" unfolding p snd_conv by (rule ok(1))
  have "mset (st_Clients st') = {#c#}" using ok(2) by (simp add: ex_st0_def)
  then show "st_Clients (snd ex_added_pair) = [fst ex_added_pair]" unfolding p by simp
  show "pc_OS (fst ex_added_pair) = ''linux''" unfolding p using c(2) by simp
qed

end
