(* ===== verification/Environment.thy ===== *)
theory Environment
  imports Enrollment
begin

text \<open>
  The environment files of a bundle are sourced by root's shell scripts on the client.  This theory shows
  that the shell reads back exactly the values that were provisioned: no value of a well-formed
  deployment can end its quotation.
\<close>

section \<open>Reading an environment file\<close>

text \<open>
  A reader of lines \<^verbatim>\<open>NAME='VALUE'\<close> as a POSIX shell reads them: between single quotes every character
  stands for itself, and the first single quote ends the value.
\<close>

definition read_line :: "string \<Rightarrow> (string \<times> string \<times> string) option" where
  "read_line s =
     (case dropWhile (\<lambda>c. c \<noteq> CHR ''='') s of
        _ # q # r \<Rightarrow>
          if q \<noteq> CHR 0x27 then None
          else (case dropWhile (\<lambda>c. c \<noteq> CHR 0x27) r of
              _ # nl # rest \<Rightarrow>
                if nl = CHR 0x0A then Some (takeWhile (\<lambda>c. c \<noteq> CHR ''='') s, takeWhile (\<lambda>c. c \<noteq> CHR 0x27) r, rest) else None
            | _ \<Rightarrow> None)
      | _ \<Rightarrow> None)"

fun read_env :: "nat \<Rightarrow> string \<Rightarrow> (string \<times> string) list option" where
  "read_env 0 s = (if s = [] then Some [] else None)"
| "read_env (Suc k) s =
     (case read_line s of None \<Rightarrow> None | Some (n, v, rest) \<Rightarrow> map_option (Cons (n, v)) (read_env k rest))"

lemma read_env_line:
  assumes "CHR ''='' \<notin> set name" and "CHR 0x27 \<notin> set v"
  shows "read_env (Suc k) (env_line name v @ rest) = map_option (Cons (name, v)) (read_env k rest)"
proof -
  have "dropWhile (\<lambda>c. c \<noteq> CHR ''='') (name @ CHR ''='' # t) = CHR ''='' # t"
    "takeWhile (\<lambda>c. c \<noteq> CHR ''='') (name @ CHR ''='' # t) = name" for t
    using assms(1) by (induction name) auto
  moreover have "dropWhile (\<lambda>c. c \<noteq> CHR 0x27) (v @ CHR 0x27 # t) = CHR 0x27 # t"
    "takeWhile (\<lambda>c. c \<noteq> CHR 0x27) (v @ CHR 0x27 # t) = v" for t
    using assms(2) by (induction v) auto
  ultimately show ?thesis by (simp add: env_line_def read_line_def)
qed

section \<open>Values that cannot end a quotation\<close>

definition env_safe :: "string \<Rightarrow> bool" where
  "env_safe v \<longleftrightarrow> (\<forall>c \<in> set v. c = CHR '' '' \<or> 45 \<le> (of_char c :: nat))"

lemma env_safe_quote: "env_safe v \<Longrightarrow> CHR 0x27 \<notin> set v"
proof
  assume "env_safe v" and "CHR 0x27 \<in> set v"
  then have "CHR 0x27 = CHR '' '' \<or> 45 \<le> (of_char (CHR 0x27) :: nat)" unfolding env_safe_def by blast
  then show False by simp
qed

lemma env_safe_simps [simp]:
  "env_safe []" "env_safe (a @ b) \<longleftrightarrow> env_safe a \<and> env_safe b" "env_safe (c # a) \<longleftrightarrow> (c = CHR '' '' \<or> 45 \<le> (of_char c :: nat)) \<and> env_safe a"
  by (auto simp: env_safe_def)

lemma env_safe_Join: "env_safe sep \<Longrightarrow> \<forall>x \<in> set xs. env_safe x \<Longrightarrow> env_safe (Join sep xs)"
  by (induction sep xs rule: Join.induct) simp_all

lemma env_safe_show_nat: "env_safe (show_nat n)"
  using show_nat_digits [of _ n] by (force simp: env_safe_def)

lemma env_safe_Addr: "env_safe (Addr_String (IPv4 a))"
  by (auto intro!: env_safe_Join simp: env_safe_show_nat)

lemma env_safe_Prefix: "env_safe (Prefix_String (PrefixV4 a n))"
  using env_safe_Addr [of a] by (simp add: env_safe_show_nat)

lemma env_safe_mac: "env_safe (mac_String mac)"
proof -
  have d: "45 \<le> (of_char (hex_digit n) :: nat)" if "n < 16" for n using that by (auto simp: hex_digit_def)
  have "env_safe (hex_byte b)" for b
  proof -
    have "unat b div 16 < 16" "unat b mod 16 < 16" using unat_byte_less [of b] by (simp_all add: less_mult_imp_div_less)
    then show ?thesis using d by (simp add: hex_byte_def)
  qed
  then show ?thesis unfolding mac_String_def by (intro env_safe_Join) auto
qed

lemma env_safe_interface: "safeInterfaceName v \<Longrightarrow> env_safe v"
  by (auto simp: safeInterfaceName_def env_safe_def list_all_iff id_char_def Let_def split: if_splits)

lemma env_safe_domain:
  assumes "safeDomainName x"
  shows "env_safe (ToLower x)"
proof -
  have parts: "\<forall>l \<in> set (Split CHR ''.'' x). \<forall>c \<in> set l. domain_char c"
    using assms by (auto simp: safeDomainName_def safe_label_def list_all_iff split: if_splits)
  have low: "45 \<le> (of_char (lower_char c) :: nat)" if "domain_char c \<or> c = CHR ''.''" for c
    using that by (auto simp: domain_char_def lower_char_def Let_def)
  have "domain_char c \<or> c = CHR ''.''" if "c \<in> set (Join ''.'' ls)" "\<forall>l \<in> set ls. \<forall>c \<in> set l. domain_char c" for c ls
    using that by (induction "''.''" ls rule: Join.induct) auto
  then have "\<forall>c \<in> set x. domain_char c \<or> c = CHR ''.''" using parts Join_Split [of "CHR ''.''" x] by metis
  then show ?thesis using low by (auto simp: env_safe_def ToLower_def)
qed

section \<open>The files of a bundle\<close>

lemma state_values_safe:
  assumes ok: "state_ok st" and c: "c \<in> set (st_Clients st)"
  shows "env_safe (pc_Device c)" "env_safe (pc_MAC c)" "env_safe (pc_Address c)" "env_safe (st_Gateway st)" "env_safe (st_Overlay st)"
    "env_safe (pc_Egress c)" "env_safe (Join '' '' (pc_Routes c))" "env_safe (st_DNS st)" "env_safe (Join '' '' (st_Search st))"
proof -
  obtain net n gw where s: "st_Overlay st = Prefix_String (PrefixV4 net n)" "st_Gateway st = Addr_String (IPv4 gw)"
    "resolver_ok (PrefixV4 net n) st" "list_all (pclient_ok net n gw st) (st_Clients st)" by (rule state_okE [OF ok])
  then have p: "pclient_ok net n gw st c" using c by (simp add: list_all_iff)
  show "env_safe (st_Gateway st)" "env_safe (st_Overlay st)" using s(1,2) env_safe_Addr env_safe_Prefix by metis+
  show "env_safe (pc_Device c)" using p env_safe_interface unfolding pclient_ok_def by blast
  show "env_safe (pc_Egress c)" using p env_safe_interface env_safe_simps(1) unfolding pclient_ok_def by metis
  show "env_safe (pc_MAC c)" using p env_safe_mac unfolding pclient_ok_def by metis
  show "env_safe (pc_Address c)" using p env_safe_Prefix unfolding pclient_ok_def by metis
  have "normal_routes (PrefixV4 net n) (pc_Routes c)" using p unfolding pclient_ok_def by blast
  then have "env_safe r" if "r \<in> set (pc_Routes c)" for r
    using that env_safe_Prefix unfolding normal_routes_def list_all_iff route_ok_def by (metis valid_prefix.elims(2))
  then show "env_safe (Join '' '' (pc_Routes c))" by (intro env_safe_Join) simp_all
  show "env_safe (st_DNS st)" using s(3) env_safe_Addr env_safe_simps(1) unfolding resolver_ok_def by metis
  have "env_safe x" if "x \<in> set (st_Search st)" for x
    using s(3) that env_safe_domain unfolding resolver_ok_def search_ok_def by auto
  then show "env_safe (Join '' '' (st_Search st))" by (intro env_safe_Join) simp_all
qed

text \<open>
  C31. The scripts read what was provisioned.  For every client of a well-formed deployment, a shell that sources
  \<^verbatim>\<open>network.env\<close> assigns exactly the provisioned values to the seven variables and executes nothing
  else; the same holds for the four variables of \<^verbatim>\<open>gateway.env\<close>.
\<close>

theorem environment_read_back:
  assumes "state_ok st" and "c \<in> set (st_Clients st)"
  shows "read_env 7 (network_env st c) = Some
      [(''WSN_DEVICE'', pc_Device c), (''WSN_MAC'', pc_MAC c), (''WSN_ADDRESS'', pc_Address c), (''WSN_GATEWAY'', st_Gateway st),
       (''WSN_ROUTES'', if pc_Role c = ''gateway'' then [] else Join '' '' (pc_Routes c)),
       (''WSN_DNS'', if pc_Role c = ''gateway'' then [] else st_DNS st),
       (''WSN_SEARCH'', if pc_Role c = ''gateway'' then [] else Join '' '' (st_Search st))]
    \<and> read_env 4 (gateway_env st c) = Some
      [(''WSN_DEVICE'', pc_Device c), (''WSN_OVERLAY'', st_Overlay st), (''WSN_EGRESS'', pc_Egress c),
       (''WSN_DESTINATIONS'', Join '' '' (pc_Routes c))]"
proof -
  note q = state_values_safe [OF assms, THEN env_safe_quote]
  have l: "read_env (Suc k) (env_line name v) = map_option (Cons (name, v)) (read_env k [])"
    if "CHR ''='' \<notin> set name" "CHR 0x27 \<notin> set v" for k name v
    using read_env_line [OF that, of k "[]"] by simp
  have n: "(7 :: nat) = Suc (Suc (Suc (Suc (Suc (Suc (Suc 0))))))" "(4 :: nat) = Suc (Suc (Suc (Suc 0)))" by simp_all
  show ?thesis
    unfolding n network_env_def gateway_env_def Let_def bundle_dns_def bundle_search_def
    by (simp add: read_env_line l q del: read_env.simps(2))
qed

theorem environment_read_back_witness:
  "map_option hd (read_env 7 (network_env (snd ex_added_pair) (fst ex_added_pair))) = Some (''WSN_DEVICE'', pc_Device (fst ex_added_pair))"
proof -
  have "fst ex_added_pair \<in> set (st_Clients (snd ex_added_pair))" using ex_added_ok(3) by simp
  from environment_read_back [OF ex_added_ok(2) this] show ?thesis by simp
qed

end
