(* ===== verification/Protocol.thy ===== *)
theory Protocol
  imports Crypto Go_Strings
begin

text \<open>
  \<^verbatim>\<open>internal/protocol/protocol.go\<close>: the hello message, the authentication proof and
  the Ethernet header fields the relay looks at.

  A client identity is a Go string, so its bytes are \<open>bytes_of_string cid\<close>.  Code that
  indexes past the end of a slice panics; such code returns \<open>None\<close> here.
\<close>

unbundle bit_operations_syntax

section \<open>Constants\<close>

definition Version :: byte where "Version = 2"

definition Subprotocol :: string where "Subprotocol = ''wsn-v2''"

definition ChallengeSize :: nat where "ChallengeSize = 32"

definition ProofSize :: nat where "ProofSize = 32"

definition MinimumFrameSize :: nat where "MinimumFrameSize = 14"

definition AuthOK :: byte where "AuthOK = 0"

definition AuthFailed :: byte where "AuthFailed = 1"

definition MaxClientIDSize :: nat where "MaxClientIDSize = 64"

definition MaxHelloSize :: nat where "MaxHelloSize = 3 + MaxClientIDSize"

definition authContext :: bytes where
  "authContext = bytes_of_string ''WSN-AUTH-v2'' @ [0]"

section \<open>Hello\<close>

definition MarshalHello :: "string \<Rightarrow> bytes res" where
  "MarshalHello cid =
     (if length cid = 0 \<or> length cid > MaxClientIDSize then Inl (Err ''invalid client id length'')
      else Inr (Version # be_bytes 2 (length cid mod 2 ^ 16) @ bytes_of_string cid))"

definition ParseHello :: "bytes \<Rightarrow> string res" where
  "ParseHello message =
     (if length message < 3 \<or> message ! 0 \<noteq> Version then Inl (Err ''unsupported protocol hello'')
      else
        (let size = be_nat (take 2 (drop 1 message)) in
         if size < 1 \<or> size > MaxClientIDSize \<or> length message \<noteq> size + 3
         then Inl (Err ''invalid protocol hello'')
         else Inr (string_of_bytes (drop 3 message))))"

section \<open>Authentication proof\<close>

text \<open>The bytes written to the HMAC, in the order of the \<^verbatim>\<open>h.Write\<close> calls.\<close>

definition proof_message :: "bytes \<Rightarrow> string \<Rightarrow> bytes \<Rightarrow> bytes" where
  "proof_message challenge cid mac = authContext @ bytes_of_string cid @ [0] @ challenge @ mac"

definition Proof :: "bytes \<Rightarrow> bytes \<Rightarrow> string \<Rightarrow> bytes \<Rightarrow> bytes res" where
  "Proof key challenge cid mac =
     (if length key \<noteq> 32 \<or> length challenge \<noteq> ChallengeSize \<or> length mac \<noteq> 6
      then Inl (Err ''invalid proof inputs'')
      else Inr (hmac_sha256 key (proof_message challenge cid mac)))"

definition VerifyProof :: "bytes \<Rightarrow> bytes \<Rightarrow> string \<Rightarrow> bytes \<Rightarrow> bytes \<Rightarrow> bool" where
  "VerifyProof key challenge cid mac pf =
     (case Proof key challenge cid mac of
        Inl _ \<Rightarrow> False
      | Inr expected \<Rightarrow> ConstantTimeCompare expected pf)"

section \<open>Ethernet addresses of a frame\<close>

definition SourceMAC :: "bytes \<Rightarrow> bytes" where
  "SourceMAC frame = (if length frame < MinimumFrameSize then [] else take 6 (drop 6 frame))"

definition DestinationMAC :: "bytes \<Rightarrow> bytes" where
  "DestinationMAC frame = (if length frame < MinimumFrameSize then [] else take 6 frame)"

text \<open>\<^verbatim>\<open>MACKey\<close> indexes the first six bytes: a shorter address panics.\<close>

definition MACKey :: "bytes \<Rightarrow> 64 word option" where
  "MACKey mac =
     (if length mac < 6 then None
      else Some (push_bit 40 (ucast (mac ! 0)) OR push_bit 32 (ucast (mac ! 1))
        OR push_bit 24 (ucast (mac ! 2)) OR push_bit 16 (ucast (mac ! 3))
        OR push_bit 8 (ucast (mac ! 4)) OR ucast (mac ! 5)))"

definition IsGroupMAC :: "bytes \<Rightarrow> bool" where
  "IsGroupMAC mac \<longleftrightarrow> length mac = 6 \<and> mac ! 0 AND 1 \<noteq> 0"

section \<open>Hello: round trip and exact language\<close>

lemma MarshalHello_Inr:
  "MarshalHello cid = Inr m \<longleftrightarrow>
     0 < length cid \<and> length cid \<le> 64 \<and> m = Version # be_bytes 2 (length cid) @ bytes_of_string cid"
  by (auto simp: MarshalHello_def MaxClientIDSize_def)

lemma ParseHello_frame:
  assumes "1 \<le> length cid" and "length cid \<le> 64"
  shows "ParseHello (Version # be_bytes 2 (length cid) @ bytes_of_string cid) = Inr cid"
proof -
  from assms(1) have "cid \<noteq> []" by auto
  with assms be_nat_bytes [of "length cid" 2] show ?thesis
    by (simp add: ParseHello_def MaxClientIDSize_def Let_def)
qed

lemma ParseHello_Inr:
  assumes "ParseHello m = Inr cid"
  shows "1 \<le> length cid" "length cid \<le> 64" "m = Version # be_bytes 2 (length cid) @ bytes_of_string cid"
proof -
  from assms have hd: "\<not> (length m < 3 \<or> m ! 0 \<noteq> Version)"
    and bd: "\<not> (be_nat (take 2 (drop 1 m)) < 1 \<or> be_nat (take 2 (drop 1 m)) > 64
      \<or> length m \<noteq> be_nat (take 2 (drop 1 m)) + 3)"
    and cid: "cid = string_of_bytes (drop 3 m)"
    unfolding ParseHello_def MaxClientIDSize_def Let_def by (metis Inl_Inr_False Inr_inject)+
  from hd have len: "3 \<le> length m" by linarith
  from hd have ver: "m ! 0 = Version" by blast
  from bd have size: "1 \<le> be_nat (take 2 (drop 1 m))" "be_nat (take 2 (drop 1 m)) \<le> 64"
    and tot: "length m = be_nat (take 2 (drop 1 m)) + 3"
    by linarith+
  from cid have "length cid = length m - 3" by simp
  with tot have lid: "length cid = be_nat (take 2 (drop 1 m))" by linarith
  from lid size show "1 \<le> length cid" "length cid \<le> 64" by linarith+
  have "m = take 1 m @ take 2 (drop 1 m) @ drop 3 m"
    by (metis append_take_drop_id drop_drop add.commute numeral_plus_one semiring_norm(5))
  moreover have "take 1 m = [Version]"
    using len ver by (cases m) simp_all
  moreover have "take 2 (drop 1 m) = be_bytes 2 (length cid)"
  proof -
    have "length (take 2 (drop 1 m)) = 2" using len by simp
    with be_bytes_nat [of "take 2 (drop 1 m)"] lid show ?thesis by metis
  qed
  moreover have "drop 3 m = bytes_of_string cid" using cid by simp
  ultimately show "m = Version # be_bytes 2 (length cid) @ bytes_of_string cid" by simp
qed

text \<open>The identities that fit a hello, as a codec of \<open>MarshalHello\<close> and \<open>ParseHello\<close>.\<close>

definition hello_id :: "string \<Rightarrow> bool" where
  "hello_id cid \<longleftrightarrow> 1 \<le> length cid \<and> length cid \<le> 64"

definition hello_of :: "string \<Rightarrow> bytes" where
  "hello_of cid = Version # be_bytes 2 (length cid) @ bytes_of_string cid"

interpretation hello: codec hello_of ParseHello hello_id
  by standard (auto simp: hello_of_def hello_id_def ParseHello_frame dest: ParseHello_Inr)

lemma MarshalHello_hello_of: "hello_id cid \<Longrightarrow> MarshalHello cid = Inr (hello_of cid)"
  by (auto simp: MarshalHello_Inr hello_id_def hello_of_def)

lemma length_hello_of: "hello_id cid \<Longrightarrow> length (hello_of cid) \<le> MaxHelloSize"
  by (simp add: hello_of_def hello_id_def MaxHelloSize_def MaxClientIDSize_def)

section \<open>Proof\<close>

lemma Proof_Inr:
  "Proof key c cid mac = Inr p \<longleftrightarrow>
     length key = 32 \<and> length c = 32 \<and> length mac = 6 \<and> p = hmac_sha256 key (proof_message c cid mac)"
  by (auto simp: Proof_def ChallengeSize_def)

lemma length_Proof: "Proof key c cid mac = Inr p \<Longrightarrow> length p = ProofSize"
  by (simp add: Proof_Inr ProofSize_def)

lemma VerifyProof_iff: "VerifyProof key c cid mac p \<longleftrightarrow> Proof key c cid mac = Inr p"
  by (auto simp: VerifyProof_def ConstantTimeCompare_eq split: sum.splits)

text \<open>
  The signed message determines the identity, the challenge and the address:
  the last two have fixed lengths.
\<close>

lemma proof_message_inj:
  assumes "length c = length c'" and "length mac = length mac'"
  shows "proof_message c cid mac = proof_message c' cid' mac' \<longleftrightarrow> cid = cid' \<and> c = c' \<and> mac = mac'"
  using assms by (auto simp: proof_message_def bytes_of_string_inj append_eq_append_conv)

section \<open>Addresses\<close>

lemma length_frame_macs [simp, wsn_len]:
  assumes "MinimumFrameSize \<le> length frame"
  shows "length (SourceMAC frame) = 6" "length (DestinationMAC frame) = 6"
  using assms by (simp_all add: SourceMAC_def DestinationMAC_def MinimumFrameSize_def)

lemma MACKey_Some: "6 \<le> length mac \<Longrightarrow> \<exists>k. MACKey mac = Some k"
  by (simp add: MACKey_def)

lemma length6E:
  assumes "length mac = 6"
  obtains a b c d e f where "mac = [a, b, c, d, e, f]"
  using assms by (auto simp: numeral_eq_Suc length_Suc_conv)

lemma mac_key_bytes:
  fixes a b c d e f :: byte
  defines "k \<equiv> push_bit 40 (ucast a) OR push_bit 32 (ucast b) OR push_bit 24 (ucast c)
    OR push_bit 16 (ucast d) OR push_bit 8 (ucast e) OR (ucast f :: 64 word)"
  shows "[ucast (drop_bit 40 k), ucast (drop_bit 32 k), ucast (drop_bit 24 k),
    ucast (drop_bit 16 k), ucast (drop_bit 8 k), ucast k] = [a, b, c, d, e, f]"
  unfolding k_def
  by (simp, intro conjI; rule bit_word_eqI) (auto simp: bit_simps dest: bit_imp_le_length)

lemma MACKey_inj:
  assumes "length m = 6" and "length m' = 6"
  shows "MACKey m = MACKey m' \<longleftrightarrow> m = m'"
proof
  assume eq: "MACKey m = MACKey m'"
  obtain a b c d e f where m: "m = [a, b, c, d, e, f]" using assms(1) by (rule length6E)
  obtain a' b' c' d' e' f' where m': "m' = [a', b', c', d', e', f']" using assms(2) by (rule length6E)
  from eq show "m = m'"
    using mac_key_bytes [of a b c d e f] mac_key_bytes [of a' b' c' d' e' f']
    by (simp add: m m' MACKey_def)
qed simp

section \<open>Properties\<close>

text \<open>
  C25. The hello message is a code for identities: the messages the relay accepts for an
  identity are exactly what the client encodes for it, so nothing can be appended, truncated
  or written in two ways; every identity of 1 to 64 bytes has one, and it is within the
  relay's read limit for the handshake.
\<close>

theorem hello_language:
  "(ParseHello message = Inr cid \<longleftrightarrow> MarshalHello cid = Inr message)
   \<and> ((\<exists>m. MarshalHello cid = Inr m \<and> length m \<le> MaxHelloSize) \<longleftrightarrow> 0 < length cid \<and> length cid \<le> 64)"
proof -
  have "ParseHello message = Inr cid \<longleftrightarrow> MarshalHello cid = Inr message"
    using ParseHello_Inr [of message cid] ParseHello_frame [of cid] by (auto simp: MarshalHello_Inr Suc_le_eq)
  moreover have "(\<exists>m. MarshalHello cid = Inr m \<and> length m \<le> MaxHelloSize) \<longleftrightarrow> 0 < length cid \<and> length cid \<le> 64"
    by (auto simp: MarshalHello_Inr MaxHelloSize_def MaxClientIDSize_def)
  ultimately show ?thesis by blast
qed

lemma MACKey_bound:
  assumes "MACKey mac = Some k"
  shows "k < 2 ^ 48"
proof -
  have byte: "bit x m \<Longrightarrow> m < 8" for x :: byte and m
    using bit_imp_le_length [of x m] by simp
  have "bit k n \<Longrightarrow> n < 48" for n
    using assms by (auto simp: MACKey_def bit_simps split: if_splits dest!: byte)
  then have "k AND mask 48 = k" by (intro bit_word_eqI) (auto simp: bit_simps)
  then show ?thesis by (simp add: mask_eq_iff_w2p word_size)
qed

text \<open>
  The table key of an address is a number below \<open>2\<^sup>4\<^sup>8\<close> that identifies the address: two
  six-byte addresses share a key only when they are equal, and only an address of
  fewer than six bytes panics.
\<close>

lemma MACKey_identifies:
  "(MACKey mac = None \<longleftrightarrow> length mac < 6)
   \<and> (length mac = 6 \<and> length mac' = 6 \<longrightarrow> (MACKey mac = MACKey mac' \<longleftrightarrow> mac = mac'))
   \<and> (\<forall>k. MACKey mac = Some k \<longrightarrow> k < 2 ^ 48)"
  using MACKey_inj [of mac mac'] MACKey_bound [of mac] by (auto simp: MACKey_def)

end
