(* ===== verification/Websocket.thy ===== *)
theory Websocket
  imports Prelude
begin

text \<open>
  The view the program has of a \<^verbatim>\<open>gorilla/websocket\<close> connection.  The library is not
  part of the repository, so what its calls return is an input of the model: the
  results of the successive \<^verbatim>\<open>ReadMessage\<close> calls (\<open>None\<close> is an error) and whether
  each write fails.  Nothing is assumed about these inputs.  The other fields record what the program
  did to the connection.
\<close>

datatype msgtype = TextMessage | BinaryMessage

type_synonym message = "msgtype \<times> bytes"

record conn =
  in_msgs :: "message option list"
  write_fails :: "bool list"
  out_msgs :: "message list"
  readLimit :: int
  readDeadline :: "int option"
  writeDeadline :: "int option"
  closed :: bool

definition fresh_conn :: "message option list \<Rightarrow> bool list \<Rightarrow> conn" where
  "fresh_conn ins fails =
     \<lparr>in_msgs = ins, write_fails = fails, out_msgs = [], readLimit = 0,
      readDeadline = None, writeDeadline = None, closed = False\<rparr>"

text \<open>A connection with no further input reports an error.\<close>

definition ReadMessage :: "conn \<Rightarrow> message option \<times> conn" where
  "ReadMessage c = (case in_msgs c of [] \<Rightarrow> (None, c) | m # ms \<Rightarrow> (m, c\<lparr>in_msgs := ms\<rparr>))"

text \<open>Writes succeed once the list of outcomes is used up; \<open>True\<close> is a failed write.\<close>

definition WriteMessage :: "conn \<Rightarrow> message \<Rightarrow> bool \<times> conn" where
  "WriteMessage c m =
     (case write_fails c of
        [] \<Rightarrow> (True, c\<lparr>out_msgs := out_msgs c @ [m]\<rparr>)
      | True # fs \<Rightarrow> (False, c\<lparr>write_fails := fs\<rparr>)
      | False # fs \<Rightarrow> (True, c\<lparr>write_fails := fs, out_msgs := out_msgs c @ [m]\<rparr>))"

lemma WriteMessage_ok: "WriteMessage c m = (True, c') \<Longrightarrow> out_msgs c' = out_msgs c @ [m] \<and> in_msgs c' = in_msgs c"
  by (auto simp: WriteMessage_def split: list.splits bool.splits)

lemma WriteMessage_no_fail [simp]:
  "write_fails c = [] \<Longrightarrow> WriteMessage c m = (True, c\<lparr>out_msgs := out_msgs c @ [m]\<rparr>)"
  by (simp add: WriteMessage_def)

lemma ReadMessage_Cons [simp]:
  "in_msgs c = m # ms \<Longrightarrow> ReadMessage c = (m, c\<lparr>in_msgs := ms\<rparr>)"
  by (simp add: ReadMessage_def)

lemma fresh_conn_sel [simp]:
  "in_msgs (fresh_conn i f) = i" "write_fails (fresh_conn i f) = f" "out_msgs (fresh_conn i f) = []"
  by (simp_all add: fresh_conn_def)

end
