(* ===== verification/Relay_Auth.thy ===== *)
theory Relay_Auth
  imports Protocol Config Websocket
begin

text \<open>
  \<^verbatim>\<open>internal/relay/relay.go\<close>, authorization: the set of authorized clients built
  from the configuration (\<^verbatim>\<open>authorizedClients\<close>) and the challenge-response handshake
  (\<^verbatim>\<open>Server.authenticate\<close>).

  \<open>authenticate\<close> runs against a scripted connection.  \<open>rnd\<close> is the result of
  \<^verbatim>\<open>rand.Read(challenge)\<close> (\<open>None\<close> for an error), \<open>t0\<close> and \<open>t1\<close> the two readings of the clock in
  nanoseconds.
\<close>

section \<open>Authorized clients\<close>

record authorizedClient =
  ac_id :: string
  ac_key :: bytes
  ac_mac :: bytes

fun authorized_loop ::
  "RelayClient list \<Rightarrow> (string \<rightharpoonup> authorizedClient) \<Rightarrow> (string \<rightharpoonup> authorizedClient) res" where
  "authorized_loop [] clients = Inr clients"
| "authorized_loop (item # rest) clients =
     and_then (DecodeKey (rc_Key item)) (\<lambda>key.
     and_then (ParseMAC (rc_MAC item)) (\<lambda>mac.
     authorized_loop rest
       (clients(rc_ID item \<mapsto> \<lparr>ac_id = rc_ID item, ac_key = key, ac_mac = mac\<rparr>))))"

definition authorizedClients :: "Relay \<Rightarrow> (string \<rightharpoonup> authorizedClient) res" where
  "authorizedClients cfg = authorized_loop (r_Clients cfg) Map.empty"

section \<open>The handshake\<close>

definition authenticate ::
  "(string \<rightharpoonup> authorizedClient) \<Rightarrow> int \<Rightarrow> int \<Rightarrow> int \<Rightarrow> bytes option \<Rightarrow> int \<Rightarrow> int \<Rightarrow> conn
     \<Rightarrow> authorizedClient res \<times> conn" where
  "authenticate clients handshake idle maxFrameSize rnd t0 t1 c0 =
     (let deadline = t0 + handshake;
          c = c0\<lparr>readDeadline := Some deadline, writeDeadline := Some deadline,
                 readLimit := int MaxHelloSize\<rparr>
      in case ReadMessage c of
        (Some (BinaryMessage, hello), c) \<Rightarrow>
          (case ParseHello hello of
             Inl e \<Rightarrow> (Inl e, c)
           | Inr cid \<Rightarrow>
               (case clients cid of
                  None \<Rightarrow> (Inl (Err ''unknown client''), c)
                | Some client \<Rightarrow>
                    (case rnd of
                       None \<Rightarrow> (Inl (Errw ''generate challenge: %w'' [] (Err ''rand'')), c)
                     | Some challenge \<Rightarrow>
                         (case WriteMessage c (BinaryMessage, challenge) of
                            (False, c) \<Rightarrow> (Inl (Err ''write challenge''), c)
                          | (True, c) \<Rightarrow>
                              (case ReadMessage c of
                                 (Some (BinaryMessage, pf), c) \<Rightarrow>
                                   if VerifyProof (ac_key client) challenge cid (ac_mac client) pf then
                                     (case WriteMessage c (BinaryMessage, [AuthOK]) of
                                        (False, c) \<Rightarrow> (Inl (Err ''write authentication result''), c)
                                      | (True, c) \<Rightarrow>
                                          (Inr client,
                                           c\<lparr>readLimit := maxFrameSize, writeDeadline := None,
                                             readDeadline := Some (t1 + idle)\<rparr>))
                                   else (Inl (Err ''invalid proof''),
                                         snd (WriteMessage c (BinaryMessage, [AuthFailed])))
                               | (_, c) \<Rightarrow>
                                   (Inl (Err ''invalid proof''),
                                    snd (WriteMessage c (BinaryMessage, [AuthFailed]))))))))
      | (_, c) \<Rightarrow> (Inl (Err ''invalid hello''), c))"

section \<open>Facts about the set of clients\<close>

text \<open>
  What the rest of the relay relies on: entries are filed under their identity,
  with a 32-byte key and a unicast 6-byte address.
\<close>

definition auth_map_ok :: "(string \<rightharpoonup> authorizedClient) \<Rightarrow> bool" where
  "auth_map_ok m \<longleftrightarrow>
     (\<forall>i c. m i = Some c \<longrightarrow> ac_id c = i \<and> length (ac_key c) = 32 \<and> unicast_mac (ac_mac c))"

lemma auth_map_okD:
  assumes "auth_map_ok m" and "m i = Some c"
  shows "ac_id c = i" "length (ac_key c) = 32" "unicast_mac (ac_mac c)" "length (ac_mac c) = 6"
  using assms by (auto simp: auth_map_ok_def unicast_mac_def)

lemma authorized_loop_ok:
  "authorized_loop cs m = Inr m' \<Longrightarrow> auth_map_ok m \<Longrightarrow> auth_map_ok m'"
proof (induction cs arbitrary: m)
  case Nil
  then show ?case by simp
next
  case (Cons c cs)
  then obtain k mac where "DecodeKey (rc_Key c) = Inr k" "ParseMAC (rc_MAC c) = Inr mac"
    and rest: "authorized_loop cs (m(rc_ID c \<mapsto> \<lparr>ac_id = rc_ID c, ac_key = k, ac_mac = mac\<rparr>)) = Inr m'"
    by (auto simp: wsn_res)
  then have "length k = 32" "unicast_mac mac"
    using key_text.dec_valid mac_text.dec_valid by (auto simp: key32_def)
  with Cons.prems(2) have "auth_map_ok (m(rc_ID c \<mapsto> \<lparr>ac_id = rc_ID c, ac_key = k, ac_mac = mac\<rparr>))"
    by (auto simp: auth_map_ok_def)
  with rest show ?case by (rule Cons.IH)
qed

lemma authorizedClients_ok: "authorizedClients cfg = Inr m \<Longrightarrow> auth_map_ok m"
  unfolding authorizedClients_def by (erule authorized_loop_ok) (simp add: auth_map_ok_def)

text \<open>The map as a function of the list, for lists of acceptable entries.\<close>

definition entry_client :: "RelayClient \<Rightarrow> authorizedClient" where
  "entry_client c =
     \<lparr>ac_id = rc_ID c,
      ac_key = (case DecodeKey (rc_Key c) of Inr k \<Rightarrow> k | Inl _ \<Rightarrow> []), ac_mac = mac_of c\<rparr>"

lemma authorized_loop_entries:
  "list_all entry_ok cs \<Longrightarrow>
     authorized_loop cs m = Inr (m ++ map_of (rev (map (\<lambda>c. (rc_ID c, entry_client c)) cs)))"
proof (induction cs arbitrary: m)
  case Nil
  then show ?case by simp
next
  case (Cons c cs)
  then obtain k where "DecodeKey (rc_Key c) = Inr k" "ParseMAC (rc_MAC c) = Inr (mac_of c)"
    using entry_ok_mac by (auto simp: entry_ok_def)
  moreover from this have "\<lparr>ac_id = rc_ID c, ac_key = k, ac_mac = mac_of c\<rparr> = entry_client c"
    by (simp add: entry_client_def)
  ultimately show ?case
    using Cons by (simp add: map_add_upd_left map_add_assoc [symmetric])
qed

section \<open>What an accepted handshake proves\<close>

text \<open>Every successful run has read a hello and a matching proof and sent the challenge before it.\<close>

lemma authenticate_Inr:
  assumes "authenticate clients hs idle mfs rnd t0 t1 c = (Inr client, c')"
  obtains cid challenge pf rest where
    "in_msgs c = Some (BinaryMessage, hello_of cid) # Some (BinaryMessage, pf) # rest"
    "clients cid = Some client" "rnd = Some challenge"
    "Proof (ac_key client) challenge cid (ac_mac client) = Inr pf"
    "in_msgs c' = rest"
    "out_msgs c' = out_msgs c @ [(BinaryMessage, challenge), (BinaryMessage, [AuthOK])]"
    "readLimit c' = mfs" "writeDeadline c' = None" "readDeadline c' = Some (t1 + idle)"
proof -
  let ?c0 = "c\<lparr>readDeadline := Some (t0 + hs), writeDeadline := Some (t0 + hs), readLimit := int MaxHelloSize\<rparr>"
  obtain hello c1 where r1: "ReadMessage ?c0 = (Some (BinaryMessage, hello), c1)"
    using assms by (auto simp: authenticate_def Let_def split: prod.splits option.splits msgtype.splits)
  obtain cid where p: "ParseHello hello = Inr cid"
    using assms r1 by (auto simp: authenticate_def Let_def split: sum.splits)
  obtain cl challenge where l: "clients cid = Some cl" and rn: "rnd = Some challenge"
    using assms r1 p by (auto simp: authenticate_def Let_def split: option.splits)
  obtain c2 where w1: "WriteMessage c1 (BinaryMessage, challenge) = (True, c2)"
    using assms r1 p l rn by (auto simp: authenticate_def Let_def split: prod.splits bool.splits)
  obtain pf c3 where r2: "ReadMessage c2 = (Some (BinaryMessage, pf), c3)"
    and v: "VerifyProof (ac_key cl) challenge cid (ac_mac cl) pf"
    using assms r1 p l rn w1
    by (auto simp: authenticate_def Let_def split: prod.splits option.splits msgtype.splits if_splits)
  obtain c4 where w2: "WriteMessage c3 (BinaryMessage, [AuthOK]) = (True, c4)"
    using assms r1 p l rn w1 r2 v by (auto simp: authenticate_def Let_def split: prod.splits bool.splits)
  have res: "client = cl" "c' = c4\<lparr>readLimit := mfs, writeDeadline := None, readDeadline := Some (t1 + idle)\<rparr>"
    using assms r1 p l rn w1 r2 v w2 by (auto simp: authenticate_def Let_def)
  have i1: "in_msgs c = Some (BinaryMessage, hello) # in_msgs c1" "out_msgs c1 = out_msgs c"
    using r1 by (auto simp: ReadMessage_def split: list.splits)
  have i2: "in_msgs c2 = in_msgs c1" "out_msgs c2 = out_msgs c @ [(BinaryMessage, challenge)]"
    using WriteMessage_ok [OF w1] i1 by simp_all
  have i3: "in_msgs c2 = Some (BinaryMessage, pf) # in_msgs c3" "out_msgs c3 = out_msgs c2"
    using r2 by (auto simp: ReadMessage_def split: list.splits)
  have h: "hello = hello_of cid"
    using ParseHello_Inr(3) [OF p] by (simp add: hello_of_def)
  show thesis
    using that [of cid pf "in_msgs c3" challenge] i1 i2 i3 h l rn res v WriteMessage_ok [OF w2]
    by (simp add: VerifyProof_iff)
qed

text \<open>A run whose messages are right and whose writes go through succeeds.\<close>

lemma authenticate_complete:
  assumes "hello_id cid" and "clients cid = Some client"
    and "Proof (ac_key client) challenge cid (ac_mac client) = Inr pf"
    and "in_msgs c = Some (BinaryMessage, hello_of cid) # Some (BinaryMessage, pf) # rest"
    and "write_fails c = []"
  shows "\<exists>c'. authenticate clients hs idle mfs (Some challenge) t0 t1 c = (Inr client, c')
    \<and> out_msgs c' = out_msgs c @ [(BinaryMessage, challenge), (BinaryMessage, [AuthOK])]
    \<and> in_msgs c' = rest \<and> readLimit c' = mfs"
  using assms hello.dec_enc [OF assms(1)]
  by (simp add: authenticate_def Let_def VerifyProof_iff)

section \<open>From a configuration to the table\<close>

lemma entry_client_sel:
  assumes "entry_ok c"
  shows "ac_id (entry_client c) = rc_ID c" "ac_mac (entry_client c) = mac_of c"
    "DecodeKey (rc_Key c) = Inr (ac_key (entry_client c))"
  using assms by (auto simp: entry_client_def entry_ok_def)

lemma checkRelay_table:
  assumes "checkRelay cfg = Inr cfg'"
  shows "\<exists>m. authorizedClients cfg' = Inr m \<and> dom m = rc_ID ` set (r_Clients cfg')
    \<and> (\<forall>c \<in> set (r_Clients cfg'). \<exists>client. m (rc_ID c) = Some client \<and> ac_id client = rc_ID c
         \<and> DecodeKey (rc_Key c) = Inr (ac_key client) \<and> ParseMAC (rc_MAC c) = Inr (ac_mac client))
    \<and> (\<forall>i j a b. m i = Some a \<longrightarrow> m j = Some b \<longrightarrow> ac_mac a = ac_mac b \<longrightarrow> i = j)"
proof -
  let ?cs = "r_Clients cfg'" and ?f = "\<lambda>c. (rc_ID c, entry_client c)"
  have "clients_ok (r_Clients cfg)" "?cs = map normal_entry (r_Clients cfg)"
    using assms by (simp_all add: checkRelay_Inr)
  then have ok: "clients_ok ?cs" using clients_ok_normal by simp
  then have entries: "entry_ok c" if "c \<in> set ?cs" for c using that by (simp add: clients_ok_def list_all_iff)
  let ?m = "map_of (rev (map ?f ?cs))"
  have m: "authorizedClients cfg' = Inr ?m"
    using authorized_loop_entries [of ?cs Map.empty] ok by (simp add: authorizedClients_def clients_ok_def)
  have dist: "distinct (map fst (rev (map ?f ?cs)))"
    using ok by (simp add: clients_ok_def rev_map [symmetric] comp_def)
  have at: "?m i = Some a \<longleftrightarrow> (\<exists>c \<in> set ?cs. i = rc_ID c \<and> a = entry_client c)" for i a
    using map_of_eq_Some_iff [OF dist] by auto
  have "dom ?m = rc_ID ` set ?cs" using at by (auto simp: dom_def)
  moreover have "i = j" if mi: "?m i = Some a" and mj: "?m j = Some b" and same: "ac_mac a = ac_mac b" for i j a b
  proof -
    obtain c d where cd: "c \<in> set ?cs" "i = rc_ID c" "a = entry_client c" "d \<in> set ?cs" "j = rc_ID d" "b = entry_client d"
      using mi mj at by auto
    then have "mac_of c = mac_of d" using same entries entry_client_sel(2) by simp
    then have "c = d" using cd ok by (auto simp: clients_ok_def distinct_map inj_on_def)
    then show ?thesis using cd by simp
  qed
  moreover have "\<exists>client. ?m (rc_ID c) = Some client \<and> ac_id client = rc_ID c
      \<and> DecodeKey (rc_Key c) = Inr (ac_key client) \<and> ParseMAC (rc_MAC c) = Inr (ac_mac client)" if "c \<in> set ?cs" for c
    using at [of "rc_ID c" "entry_client c"] that entry_client_sel [OF entries [OF that]] entry_ok_mac [OF entries [OF that]]
    by auto
  ultimately show ?thesis using m by (intro exI [of _ ?m]) blast
qed

text \<open>
  C22. A configuration that loads can be run: building the table of authorized clients
  from it does not fail; the table has exactly the configured identities, each with the
  key and the address of its entry, and no two identities share an address.
\<close>

theorem checkRelay_authorizes:
  assumes "checkRelay cfg = Inr cfg'"
  shows "\<exists>m. authorizedClients cfg' = Inr m \<and> dom m = rc_ID ` set (r_Clients cfg')
    \<and> (\<forall>c \<in> set (r_Clients cfg'). \<exists>client. m (rc_ID c) = Some client \<and> ac_id client = rc_ID c
         \<and> DecodeKey (rc_Key c) = Inr (ac_key client) \<and> ParseMAC (rc_MAC c) = Inr (ac_mac client))
    \<and> (\<forall>i j a b. m i = Some a \<longrightarrow> m j = Some b \<longrightarrow> ac_mac a = ac_mac b \<longrightarrow> i = j)"
  using assms by (rule checkRelay_table)

theorem checkRelay_authorizes_witness:
  "\<exists>cfg' m. checkRelay ex_relay_cfg = Inr cfg' \<and> authorizedClients cfg' = Inr m \<and> dom m = {''a''}"
proof -
  have "map_sum id (\<lambda>c. map rc_ID (r_Clients c)) (checkRelay ex_relay_cfg) = Inr [''a'']" by code_simp
  then obtain cfg' where cfg': "checkRelay ex_relay_cfg = Inr cfg'" "map rc_ID (r_Clients cfg') = [''a'']"
    by (cases "checkRelay ex_relay_cfg") auto
  have "rc_ID ` set (r_Clients cfg') = {''a''}" by (metis cfg'(2) list.set(1,2) set_map)
  with checkRelay_authorizes [OF cfg'(1)] cfg'(1) show ?thesis by auto
qed

end
