(* ===== verification/Client_Runner.thy ===== *)
theory Client_Runner
  imports Relay_Auth
begin

text \<open>
  \<^verbatim>\<open>internal/client/client.go\<close>: the client's side of the handshake, the two frame
  pumps between the TAP device and the relay, and the reconnect loop.

  The TAP device, the dialer and the clock are outside: what they return is an
  input.  Durations are nanoseconds.  \<^verbatim>\<open>pingLoop\<close> and the end of
  a session are in the theory \<open>Client_Session\<close>.
\<close>

unbundle bit_operations_syntax

section \<open>Construction\<close>

record Runner =
  ru_cfg :: Client
  ru_key :: bytes
  ru_mac :: bytes

text \<open>\<open>appendCerts\<close> stands for \<^verbatim>\<open>x509.CertPool.AppendCertsFromPEM\<close>: whether some certificate parsed.\<close>

definition client_New :: "(string \<Rightarrow> string res) \<Rightarrow> (string \<Rightarrow> bool) \<Rightarrow> Client \<Rightarrow> Runner res" where
  "client_New readFile appendCerts cfg =
     (case LoadKey readFile (c_KeyFile cfg) of
        Inl e \<Rightarrow> Inl (Errw ''load client key: %w'' [] e)
      | Inr key \<Rightarrow>
          and_then (ParseMAC (c_MAC cfg)) (\<lambda>mac.
          (case readFile (c_CAFile cfg) of
             Inl e \<Rightarrow> Inl (Errw ''load relay CA: %w'' [] e)
           | Inr caPEM \<Rightarrow>
               if \<not> appendCerts caPEM then Inl (Err ''relay CA file contains no valid certificate'')
               else Inr \<lparr>ru_cfg = cfg, ru_key = key, ru_mac = mac\<rparr>)))"

section \<open>Comparing and writing\<close>

text \<open>The loop of \<^verbatim>\<open>equalMAC\<close> accumulates the differing bits of all bytes.\<close>

definition equalMAC :: "bytes \<Rightarrow> bytes \<Rightarrow> bool" where
  "equalMAC a b =
     (if length a \<noteq> length b then False
      else fold (\<lambda>i different. different OR (a ! i XOR b ! i)) [0..<length a] 0 = 0)"

text \<open>
  \<^verbatim>\<open>writeFull\<close> over any writer: \<open>wr\<close> takes the writer's state and the bytes and returns
  the count, an error if there is one, and the new state.  Slicing with a count outside
  the value panics.
\<close>

datatype 'w write_result = Written 'w | WriteError error 'w | WritePanic

function writeFull :: "('w \<Rightarrow> bytes \<Rightarrow> int \<times> error option \<times> 'w) \<Rightarrow> 'w \<Rightarrow> bytes \<Rightarrow> 'w write_result" where
  "writeFull wr w value =
     (if value = [] then Written w
      else (case wr w value of
          (n, Some e, w') \<Rightarrow> WriteError e w'
        | (n, None, w') \<Rightarrow>
            if n = 0 then WriteError (Err ''short write'') w'
            else if n < 0 \<or> int (length value) < n then WritePanic
            else writeFull wr w' (drop (nat n) value)))"
  by pat_completeness auto
termination
  by (relation "measure (\<lambda>(_, _, value). length value)") auto

declare writeFull.simps [simp del]

section \<open>The client's side of the handshake\<close>

definition client_authenticate :: "Runner \<Rightarrow> int \<Rightarrow> int \<Rightarrow> conn \<Rightarrow> error option \<times> conn" where
  "client_authenticate r t0 t1 c =
     (case MarshalHello (c_ID (ru_cfg r)) of
        Inl e \<Rightarrow> (Some e, c)
      | Inr hello \<Rightarrow>
          (case WriteMessage (c\<lparr>writeDeadline := Some (t0 + 10 * 10 ^ 9)\<rparr>) (BinaryMessage, hello) of
             (False, c) \<Rightarrow> (Some (Errw ''write hello: %w'' [] (Err ''write'')), c)
           | (True, c) \<Rightarrow>
               (case ReadMessage (c\<lparr>readDeadline := Some (t1 + 10 * 10 ^ 9)\<rparr>) of
                  (Some (messageType, challenge), c) \<Rightarrow>
                    if messageType \<noteq> BinaryMessage \<or> length challenge \<noteq> ChallengeSize
                    then (Some (Err ''invalid relay challenge''), c)
                    else (case Proof (ru_key r) challenge (c_ID (ru_cfg r)) (ru_mac r) of
                        Inl e \<Rightarrow> (Some e, c)
                      | Inr pf \<Rightarrow>
                          (case WriteMessage c (BinaryMessage, pf) of
                             (False, c) \<Rightarrow> (Some (Errw ''write proof: %w'' [] (Err ''write'')), c)
                           | (True, c) \<Rightarrow>
                               (case ReadMessage c of
                                  (Some (messageType, result), c) \<Rightarrow>
                                    if messageType \<noteq> BinaryMessage \<or> length result \<noteq> 1 \<or> result ! 0 \<noteq> AuthOK
                                    then (Some (Err ''relay rejected authentication''), c)
                                    else (None, c\<lparr>writeDeadline := None\<rparr>)
                                | (None, c) \<Rightarrow> (Some (Err ''relay rejected authentication''), c))))
                | (None, c) \<Rightarrow> (Some (Err ''invalid relay challenge''), c))))"

section \<open>Frame pumps\<close>

text \<open>One round of \<^verbatim>\<open>tapToWebSocket\<close> on the result of \<^verbatim>\<open>device.Read\<close>, at time \<open>now\<close>.\<close>

definition tap_step :: "Runner \<Rightarrow> int \<Rightarrow> bytes res \<Rightarrow> conn \<Rightarrow> error option \<times> conn" where
  "tap_step r now rd c =
     (case rd of
        Inl e \<Rightarrow> (Some (Errw ''read TAP: %w'' [] e), c)
      | Inr frame \<Rightarrow>
          if length frame < MinimumFrameSize \<or> int (length frame) > c_MaxFrameSize (ru_cfg r)
          then (Some (Errf ''invalid TAP frame size %d'' [show_nat (length frame)]), c)
          else if \<not> equalMAC (SourceMAC frame) (ru_mac r)
          then (Some (Err ''TAP source MAC differs from configured MAC''), c)
          else (case WriteMessage (c\<lparr>writeDeadline := Some (now + 10 * 10 ^ 9)\<rparr>) (BinaryMessage, frame) of
              (False, c) \<Rightarrow> (Some (Errw ''write relay: %w'' [] (Err ''write'')), c)
            | (True, c) \<Rightarrow> (None, c)))"

text \<open>The loop, over the frames the device produces; \<open>None\<close> while it is still running.\<close>

fun tapToWebSocket :: "Runner \<Rightarrow> (int \<times> bytes res) list \<Rightarrow> conn \<Rightarrow> error option \<times> conn" where
  "tapToWebSocket r [] c = (None, c)"
| "tapToWebSocket r ((now, rd) # rest) c =
     (case tap_step r now rd c of
        (Some e, c) \<Rightarrow> (Some e, c)
      | (None, c) \<Rightarrow> tapToWebSocket r rest c)"

text \<open>One round of \<^verbatim>\<open>webSocketToTap\<close>; the device is a writer as in \<open>writeFull\<close>.\<close>

datatype 'w pump = Pumping 'w conn | PumpError error 'w conn | PumpPanic

definition ws_step ::
  "Runner \<Rightarrow> ('w \<Rightarrow> bytes \<Rightarrow> int \<times> error option \<times> 'w) \<Rightarrow> int \<Rightarrow> 'w \<Rightarrow> conn \<Rightarrow> 'w pump" where
  "ws_step r wr now w c =
     (case ReadMessage c of
        (None, c) \<Rightarrow> PumpError (Errw ''read relay: %w'' [] (Err ''read'')) w c
      | (Some (messageType, frame), c) \<Rightarrow>
          (let c = c\<lparr>readDeadline := Some (now + 90 * 10 ^ 9)\<rparr> in
           if messageType \<noteq> BinaryMessage \<or> length frame < MinimumFrameSize
              \<or> int (length frame) > c_MaxFrameSize (ru_cfg r)
           then PumpError (Err ''invalid relay frame'') w c
           else (case writeFull wr w frame of
               Written w' \<Rightarrow> Pumping w' c
             | WriteError e w' \<Rightarrow> PumpError (Errw ''write TAP: %w'' [] e) w' c
             | WritePanic \<Rightarrow> PumpPanic)))"

fun webSocketToTap ::
  "Runner \<Rightarrow> ('w \<Rightarrow> bytes \<Rightarrow> int \<times> error option \<times> 'w) \<Rightarrow> int list \<Rightarrow> 'w \<Rightarrow> conn \<Rightarrow> 'w pump" where
  "webSocketToTap r wr [] w c = Pumping w c"
| "webSocketToTap r wr (now # rest) w c =
     (case ws_step r wr now w c of
        Pumping w' c' \<Rightarrow> webSocketToTap r wr rest w' c'
      | stopped \<Rightarrow> stopped)"

section \<open>A session\<close>

text \<open>
  \<^verbatim>\<open>runSession\<close> up to the start of the pumps: open the device, dial, check the
  subprotocol, authenticate, set the read limit and the deadline.  \<open>Inl\<close> is the error the session
  ends with; the connection it returns has been closed by the deferred call.
\<close>

definition runSession_connect ::
  "Runner \<Rightarrow> unit res \<Rightarrow> (string \<times> conn) res \<Rightarrow> int \<Rightarrow> int \<Rightarrow> int \<Rightarrow> error option \<times> conn option" where
  "runSession_connect r tapOpen dialed t0 t1 t2 =
     (case tapOpen of
        Inl e \<Rightarrow> (Some e, None)
      | Inr _ \<Rightarrow>
          (case dialed of
             Inl e \<Rightarrow> (Some (Errw ''connect relay: %w'' [] e), None)
           | Inr (subprotocol, c) \<Rightarrow>
               if subprotocol \<noteq> Subprotocol
               then (Some (Err ''relay did not negotiate wsn-v2''), Some (c\<lparr>closed := True\<rparr>))
               else (case client_authenticate r t0 t1 c of
                   (Some e, c) \<Rightarrow> (Some e, Some (c\<lparr>closed := True\<rparr>))
                 | (None, c) \<Rightarrow>
                     (None, Some (c\<lparr>readLimit := c_MaxFrameSize (ru_cfg r),
                                    readDeadline := Some (t2 + 90 * 10 ^ 9)\<rparr>)))))"

section \<open>The reconnect loop\<close>

definition minimumBackoff :: int where "minimumBackoff = 10 ^ 9"
definition maximumBackoff :: int where "maximumBackoff = 30 * 10 ^ 9"
definition healthySession :: int where "healthySession = 60 * 10 ^ 9"

text \<open>
  What one round of \<^verbatim>\<open>Run\<close> meets: whether the context is done before the session, after
  it, and during the wait; how long the session took; and the random source, as the
  function \<^verbatim>\<open>rand.Int63n\<close> is of its bound.
\<close>

record round =
  done_before :: bool
  duration :: int
  done_after :: bool
  int63n :: "int \<Rightarrow> int"
  done_waiting :: bool

definition next_backoff :: "int \<Rightarrow> int" where
  "next_backoff backoff =
     (let b = (if backoff < maximumBackoff then backoff * 2 else backoff)
      in if b > maximumBackoff then maximumBackoff else b)"

definition round_backoff :: "int \<Rightarrow> round \<Rightarrow> int" where
  "round_backoff backoff rd = (if duration rd \<ge> healthySession then minimumBackoff else backoff)"

definition round_delay :: "int \<Rightarrow> round \<Rightarrow> int" where
  "round_delay backoff rd = backoff + int63n rd (backoff div 2 + 1)"

text \<open>
  The timers \<^verbatim>\<open>Run\<close> starts, as pairs of backoff and delay, and whether it has returned
  (it returns \<^verbatim>\<open>nil\<close>, and only when its context is done).
\<close>

fun Run :: "int \<Rightarrow> round list \<Rightarrow> (int \<times> int) list \<times> bool" where
  "Run backoff [] = ([], False)"
| "Run backoff (rd # rest) =
     (if done_before rd then ([], True)
      else if done_after rd then ([], True)
      else
        (let b = round_backoff backoff rd;
             delay = round_delay b rd
         in if done_waiting rd then ([(b, delay)], True)
            else (case Run (next_backoff b) rest of (ds, fin) \<Rightarrow> ((b, delay) # ds, fin))))"

section \<open>Address comparison\<close>

lemma fold_or_zero:
  fixes f :: "nat \<Rightarrow> byte"
  shows "fold (\<lambda>i d. d OR f i) xs d = 0 \<longleftrightarrow> d = 0 \<and> (\<forall>i \<in> set xs. f i = 0)"
  by (induction xs arbitrary: d) (auto simp: or_eq_0_iff)

lemma equalMAC_eq: "equalMAC a b \<longleftrightarrow> a = b"
proof -
  have "equalMAC a b \<longleftrightarrow> length a = length b \<and> (\<forall>i < length a. a ! i = b ! i)"
    by (auto simp: equalMAC_def fold_or_zero word_xor_eq_0)
  also have "\<dots> \<longleftrightarrow> a = b" using nth_equalityI by blast
  finally show ?thesis .
qed

section \<open>Complete writes\<close>

text \<open>
  The documented contract of \<^verbatim>\<open>io.Writer\<close>, with \<open>log\<close> what the writer has taken so far:
  a call takes a prefix of the bytes, and a call that takes fewer than all of them
  returns an error.  \<open>writer_prefix\<close> is the first half alone.
\<close>

definition writer_prefix :: "('w \<Rightarrow> bytes \<Rightarrow> int \<times> error option \<times> 'w) \<Rightarrow> ('w \<Rightarrow> bytes) \<Rightarrow> bool" where
  "writer_prefix wr log \<longleftrightarrow>
     (\<forall>w v n e w'. wr w v = (n, e, w') \<longrightarrow>
        0 \<le> n \<and> n \<le> int (length v) \<and> log w' = log w @ take (nat n) v)"

lemma writer_prefixD:
  "writer_prefix wr log \<Longrightarrow> wr w v = (n, e, w') \<Longrightarrow>
     0 \<le> n \<and> n \<le> int (length v) \<and> log w' = log w @ take (nat n) v"
  unfolding writer_prefix_def by blast

lemma writeFull_prefix:
  assumes "writer_prefix wr log"
  shows "case writeFull wr w v of
      Written w' \<Rightarrow> log w' = log w @ v
    | WriteError e w' \<Rightarrow> \<exists>k \<le> length v. log w' = log w @ take k v
    | WritePanic \<Rightarrow> False"
proof (induction v arbitrary: w rule: length_induct)
  case (1 v)
  obtain n e w' where wr: "wr w v = (n, e, w')" by (cases "wr w v")
  note pre = writer_prefixD [OF assms wr]
  show ?case
  proof (cases "v = [] \<or> e \<noteq> None \<or> n = 0")
    case True
    then show ?thesis
      using pre wr by (subst writeFull.simps) (auto split: option.splits intro!: exI [of _ "nat n"])
  next
    case False
    then have eq: "writeFull wr w v = writeFull wr w' (drop (nat n) v)"
      using pre wr by (subst writeFull.simps) auto
    have "length (drop (nat n) v) < length v" using False pre by simp
    then have "case writeFull wr w' (drop (nat n) v) of
        Written w'' \<Rightarrow> log w'' = log w' @ drop (nat n) v
      | WriteError e w'' \<Rightarrow> \<exists>k \<le> length (drop (nat n) v). log w'' = log w' @ take k (drop (nat n) v)
      | WritePanic \<Rightarrow> False" using 1 by blast
    moreover have "log w' @ take k (drop (nat n) v) = log w @ take (nat n + k) v" for k
      using pre by (simp add: take_add)
    moreover have "log w' @ drop (nat n) v = log w @ v" using pre by simp
    moreover have "k \<le> length (drop (nat n) v) \<Longrightarrow> nat n + k \<le> length v" for k
      using pre by (simp add: nat_le_iff le_diff_conv2 add.commute)
    ultimately show ?thesis
      unfolding eq by (cases "writeFull wr w' (drop (nat n) v)") (simp_all, metis)
  qed
qed

lemma writeFull_progress:
  assumes "writer_prefix wr log" and "\<And>w v. v \<noteq> [] \<Longrightarrow> \<exists>n w'. wr w v = (n, None, w') \<and> 0 < n"
  shows "\<exists>w'. writeFull wr w v = Written w'"
proof (induction v arbitrary: w rule: length_induct)
  case (1 v)
  show ?case
  proof (cases "v = []")
    case True
    then show ?thesis by (simp add: writeFull.simps)
  next
    case False
    then obtain n w' where wr: "wr w v = (n, None, w')" "0 < n" using assms(2) by blast
    then have "writeFull wr w v = writeFull wr w' (drop (nat n) v)"
      using False writer_prefixD [OF assms(1) wr(1)] by (subst writeFull.simps) auto
    moreover have "length (drop (nat n) v) < length v" using False wr(2) by simp
    ultimately show ?thesis using 1 by metis
  qed
qed

text \<open>
  C26. Frames reach the device whole.  Over any writer that takes prefixes, \<^verbatim>\<open>writeFull\<close>
  returns, never panics, and reports success exactly when it has written the whole
  value; on an error what was written is a prefix of it.  With a writer that takes at
  least one byte per call and has no error of its own, it succeeds.
\<close>

theorem writeFull_whole:
  assumes "writer_prefix wr log"
  shows "((\<exists>w'. writeFull wr w v = Written w' \<and> log w' = log w @ v)
      \<or> (\<exists>e w' k. writeFull wr w v = WriteError e w' \<and> k \<le> length v \<and> log w' = log w @ take k v))
    \<and> ((\<forall>w v. v \<noteq> [] \<longrightarrow> (\<exists>n w'. wr w v = (n, None, w') \<and> 0 < n)) \<longrightarrow> (\<exists>w'. writeFull wr w v = Written w'))"
  using writeFull_prefix [OF assms, of w v] writeFull_progress [OF assms, of w v]
  by (auto split: write_result.splits)

text \<open>A device that takes at most three bytes at a time.\<close>

definition slow_dev :: "bytes \<Rightarrow> bytes \<Rightarrow> int \<times> error option \<times> bytes" where
  "slow_dev w v = (int (min 3 (length v)), None, w @ take 3 v)"

theorem writeFull_whole_witness:
  "\<exists>w'. writeFull slow_dev [] [1, 2, 3, 4, 5] = Written w' \<and> w' = [1, 2, 3, 4, 5]"
proof -
  have pre: "writer_prefix slow_dev id" by (auto simp: writer_prefix_def slow_dev_def min_def)
  have "\<exists>n w'. slow_dev w v = (n, None, w') \<and> 0 < n" if "v \<noteq> []" for w v
    using that by (simp add: slow_dev_def)
  with writeFull_whole [OF pre, of "[]" "[1, 2, 3, 4, 5]"] show ?thesis by auto
qed

section \<open>The handshake, both sides\<close>

text \<open>What a successful run of the client has sent and received.\<close>

lemma client_authenticate_ok:
  assumes "client_authenticate r t0 t1 c = (None, c')"
  obtains challenge pf rest where
    "hello_id (c_ID (ru_cfg r))" "length challenge = ChallengeSize"
    "in_msgs c = Some (BinaryMessage, challenge) # Some (BinaryMessage, [AuthOK]) # rest"
    "Proof (ru_key r) challenge (c_ID (ru_cfg r)) (ru_mac r) = Inr pf"
    "out_msgs c' = out_msgs c @ [(BinaryMessage, hello_of (c_ID (ru_cfg r))), (BinaryMessage, pf)]"
    "in_msgs c' = rest"
proof -
  obtain hello where h: "MarshalHello (c_ID (ru_cfg r)) = Inr hello"
    using assms by (auto simp: client_authenticate_def split: sum.splits)
  then have hid: "hello_id (c_ID (ru_cfg r))" "hello = hello_of (c_ID (ru_cfg r))"
    by (auto simp: MarshalHello_Inr hello_id_def hello_of_def Suc_le_eq)
  let ?c0 = "c\<lparr>writeDeadline := Some (t0 + 10 * 10 ^ 9)\<rparr>"
  obtain c1 where w1: "WriteMessage ?c0 (BinaryMessage, hello) = (True, c1)"
    using assms h by (auto simp: client_authenticate_def split: prod.splits bool.splits)
  obtain ch c2 where r1: "ReadMessage (c1\<lparr>readDeadline := Some (t1 + 10 * 10 ^ 9)\<rparr>) = (Some (BinaryMessage, ch), c2)"
    and ch: "length ch = ChallengeSize"
    using assms h w1 by (auto simp: client_authenticate_def split: prod.splits option.splits if_splits)
  obtain pf where pf: "Proof (ru_key r) ch (c_ID (ru_cfg r)) (ru_mac r) = Inr pf"
    using assms h w1 r1 ch by (auto simp: client_authenticate_def split: sum.splits)
  obtain c3 where w2: "WriteMessage c2 (BinaryMessage, pf) = (True, c3)"
    using assms h w1 r1 ch pf by (auto simp: client_authenticate_def split: prod.splits bool.splits)
  obtain res c4 where r2: "ReadMessage c3 = (Some (BinaryMessage, res), c4)" "length res = 1" "res ! 0 = AuthOK"
    and c': "c' = c4\<lparr>writeDeadline := None\<rparr>"
    using assms h w1 r1 ch pf w2 by (auto simp: client_authenticate_def split: prod.splits option.splits if_splits)
  have "res = [AuthOK]" using r2(2,3) by (cases res) auto
  moreover have "in_msgs c = Some (BinaryMessage, ch) # in_msgs c2" "out_msgs c2 = out_msgs c @ [(BinaryMessage, hello)]"
    using r1 WriteMessage_ok [OF w1] by (auto simp: ReadMessage_def split: list.splits)
  moreover have "in_msgs c2 = Some (BinaryMessage, res) # in_msgs c4" "out_msgs c4 = out_msgs c2 @ [(BinaryMessage, pf)]"
    using r2(1) WriteMessage_ok [OF w2] by (auto simp: ReadMessage_def split: list.splits)
  ultimately show thesis using that [OF hid(1) ch, of "in_msgs c4" pf] pf c' hid(2) by simp
qed

lemma client_authenticate_complete:
  assumes "hello_id (c_ID (ru_cfg r))" and "length challenge = ChallengeSize"
    and "Proof (ru_key r) challenge (c_ID (ru_cfg r)) (ru_mac r) = Inr pf"
    and "in_msgs c = Some (BinaryMessage, challenge) # Some (BinaryMessage, [AuthOK]) # rest"
    and "write_fails c = []"
  shows "\<exists>c'. client_authenticate r t0 t1 c = (None, c')
    \<and> out_msgs c' = out_msgs c @ [(BinaryMessage, hello_of (c_ID (ru_cfg r))), (BinaryMessage, pf)]"
  using assms by (simp add: client_authenticate_def MarshalHello_hello_of)

lemma relay_run:
  assumes "hello_id cid" and "clients cid = Some client"
    and "Proof (ac_key client) challenge cid (ac_mac client) = Inr pf"
  shows "\<exists>c'. authenticate clients hs idle mfs (Some challenge) t0 t1
      (fresh_conn [Some (BinaryMessage, hello_of cid), Some (BinaryMessage, pf)] []) = (Inr client, c')
    \<and> out_msgs c' = [(BinaryMessage, challenge), (BinaryMessage, [AuthOK])]"
  using authenticate_complete [where clients = clients and rest = "[]"
      and c = "fresh_conn [Some (BinaryMessage, hello_of cid), Some (BinaryMessage, pf)] []", OF assms, of hs idle mfs t0 t1]
  by auto

lemma handshake_runs:
  assumes "auth_map_ok clients" and "clients (c_ID (ru_cfg r)) = Some client" and "hello_id (c_ID (ru_cfg r))"
    and "ac_key client = ru_key r" and "ac_mac client = ru_mac r" and "length challenge = ChallengeSize"
  shows "\<exists>relay_conn client_conn.
    authenticate clients hs idle mfs (Some challenge) t0 t1 (fresh_conn (map Some (out_msgs client_conn)) [])
      = (Inr client, relay_conn)
    \<and> client_authenticate r u0 u1 (fresh_conn (map Some (out_msgs relay_conn)) []) = (None, client_conn)"
proof -
  have "length (ac_key client) = 32" "length (ac_mac client) = 6"
    using auth_map_okD [OF assms(1,2)] by simp_all
  then obtain pf where pf: "Proof (ac_key client) challenge (c_ID (ru_cfg r)) (ac_mac client) = Inr pf"
    using assms(6) by (auto simp: Proof_Inr ChallengeSize_def)
  obtain rc where rc: "authenticate clients hs idle mfs (Some challenge) t0 t1
      (fresh_conn [Some (BinaryMessage, hello_of (c_ID (ru_cfg r))), Some (BinaryMessage, pf)] []) = (Inr client, rc)"
    "out_msgs rc = [(BinaryMessage, challenge), (BinaryMessage, [AuthOK])]"
    using relay_run [where clients = clients, OF assms(3,2) pf] by metis
  obtain cc where cc: "client_authenticate r u0 u1
      (fresh_conn [Some (BinaryMessage, challenge), Some (BinaryMessage, [AuthOK])] []) = (None, cc)"
    "out_msgs cc = [(BinaryMessage, hello_of (c_ID (ru_cfg r))), (BinaryMessage, pf)]"
    using client_authenticate_complete [OF assms(3,6),
        of pf "fresh_conn [Some (BinaryMessage, challenge), Some (BinaryMessage, [AuthOK])] []" "[]"]
      pf assms(4,5) by auto
  show ?thesis using rc cc by (intro exI [of _ rc] exI [of _ cc]) simp
qed

text \<open>
  C5. The two programs understand each other.  When the relay's table has the client
  with the client's key and address, then for every 32-byte challenge there is a
  conversation, each side reading exactly what the other wrote, in which the relay
  authenticates that client and the client's handshake returns without an error.
\<close>

theorem handshake_agrees:
  assumes "auth_map_ok clients" and "clients (c_ID (ru_cfg r)) = Some client" and "hello_id (c_ID (ru_cfg r))"
    and "ac_key client = ru_key r" and "ac_mac client = ru_mac r" and "length challenge = ChallengeSize"
  shows "\<exists>relay_conn client_conn.
    authenticate clients hs idle mfs (Some challenge) t0 t1 (fresh_conn (map Some (out_msgs client_conn)) [])
      = (Inr client, relay_conn)
    \<and> client_authenticate r u0 u1 (fresh_conn (map Some (out_msgs relay_conn)) []) = (None, client_conn)"
  using assms by (rule handshake_runs)

text \<open>
  C6. What the relay accepts was computed with the key.  If the relay authenticates a
  connection, the second message it read is the HMAC-SHA256, under the configured key of
  the client it returns, of the message built from its own challenge, that client's
  identity and its configured address, and it answered nothing but the challenge and
  the success code.
\<close>

theorem authenticate_sound:
  assumes "auth_map_ok clients"
    and "authenticate clients hs idle mfs (Some challenge) t0 t1 (fresh_conn ins fails) = (Inr client, c')"
  shows "\<exists>rest. ins = Some (BinaryMessage, hello_of (ac_id client))
        # Some (BinaryMessage, hmac_sha256 (ac_key client) (proof_message challenge (ac_id client) (ac_mac client))) # rest
    \<and> clients (ac_id client) = Some client
    \<and> out_msgs c' = [(BinaryMessage, challenge), (BinaryMessage, [AuthOK])] \<and> readLimit c' = mfs"
  by (rule authenticate_Inr [OF assms(2)]) (use auth_map_okD(1) [OF assms(1)] in \<open>auto simp: Proof_Inr\<close>)

text \<open>
  C19. A proof is good for one identity, one challenge and one address.  If a proof made
  for one triple verifies for another under the same key, then the triples are the same or
  the two different messages signed collide under HMAC-SHA256 with that key.
\<close>

theorem proof_not_transferable:
  assumes "Proof key challenge cid mac = Inr pf" and "VerifyProof key challenge' cid' mac' pf"
  shows "(challenge, cid, mac) = (challenge', cid', mac')
    \<or> (proof_message challenge cid mac \<noteq> proof_message challenge' cid' mac'
       \<and> hmac_sha256 key (proof_message challenge cid mac) = hmac_sha256 key (proof_message challenge' cid' mac'))"
  using assms proof_message_inj [of challenge challenge' mac mac' cid cid']
  by (auto simp: Proof_Inr VerifyProof_iff)

text \<open>A client and a table that has it.\<close>

definition ex_runner :: Runner where
  "ex_runner = \<lparr>ru_cfg = \<lparr>c_Server = ''wss://relay'', c_CAFile = ''/ca'', c_ID = ''a'', c_KeyFile = ''/k'', c_Device = ''tap0'',
      c_MAC = ''02:00:00:00:00:01'', c_Address = ''10.0.0.2/24'', c_Gateway = '''', c_Routes = [], c_MaxFrameSize = 1600\<rparr>,
     ru_key = replicate 32 5, ru_mac = [2, 0, 0, 0, 0, 1]\<rparr>"

definition ex_entry :: authorizedClient where
  "ex_entry = \<lparr>ac_id = ''a'', ac_key = replicate 32 5, ac_mac = [2, 0, 0, 0, 0, 1]\<rparr>"

lemma ex_entry_ok: "auth_map_ok [''a'' \<mapsto> ex_entry]"
  by (simp add: auth_map_ok_def ex_entry_def unicast_mac_def IsGroupMAC_def)

theorem handshake_agrees_witness:
  "\<exists>relay_conn client_conn.
    authenticate [''a'' \<mapsto> ex_entry] 0 0 1600 (Some (replicate 32 9)) 0 0
      (fresh_conn (map Some (out_msgs client_conn)) []) = (Inr ex_entry, relay_conn)
    \<and> client_authenticate ex_runner 0 0 (fresh_conn (map Some (out_msgs relay_conn)) []) = (None, client_conn)"
  by (rule handshake_agrees [OF ex_entry_ok])
    (simp_all add: ex_runner_def ex_entry_def hello_id_def ChallengeSize_def)

lemma hello_a: "hello_id ''a''"
  by (simp add: hello_id_def)

theorem authenticate_sound_witness:
  "\<exists>c'. authenticate [''a'' \<mapsto> ex_entry] 0 0 1600 (Some (replicate 32 9)) 0 0
      (fresh_conn [Some (BinaryMessage, hello_of ''a''),
         Some (BinaryMessage, hmac_sha256 (replicate 32 5) (proof_message (replicate 32 9) ''a'' [2, 0, 0, 0, 0, 1]))] [])
      = (Inr ex_entry, c') \<and> readLimit c' = 1600"
proof -
  let ?pf = "hmac_sha256 (replicate 32 5) (proof_message (replicate 32 9) ''a'' [2, 0, 0, 0, 0, 1])"
  have "Proof (ac_key ex_entry) (replicate 32 9) ''a'' (ac_mac ex_entry) = Inr ?pf"
    by (simp add: Proof_Inr ex_entry_def)
  then obtain c' where "authenticate [''a'' \<mapsto> ex_entry] 0 0 1600 (Some (replicate 32 9)) 0 0
      (fresh_conn [Some (BinaryMessage, hello_of ''a''), Some (BinaryMessage, ?pf)] []) = (Inr ex_entry, c')"
    using relay_run [where clients = "[''a'' \<mapsto> ex_entry]" and cid = "''a''" and client = ex_entry]
    by (metis fun_upd_same hello_a)
  with authenticate_sound [OF ex_entry_ok this] show ?thesis by blast
qed

theorem proof_not_transferable_witness:
  "\<exists>pf. Proof (replicate 32 5) (replicate 32 9) ''a'' [2, 0, 0, 0, 0, 1] = Inr pf
     \<and> VerifyProof (replicate 32 5) (replicate 32 9) ''a'' [2, 0, 0, 0, 0, 1] pf
     \<and> ((replicate 32 9, ''a'', [2, 0, 0, 0, 0, 1]) = (replicate 32 9 :: bytes, ''a'', [2, 0, 0, 0, 0, 1 :: byte])
        \<or> hmac_sha256 (replicate 32 5) (proof_message (replicate 32 9) ''a'' [2, 0, 0, 0, 0, 1]) = pf)"
proof -
  let ?pf = "hmac_sha256 (replicate 32 5) (proof_message (replicate 32 9) ''a'' [2, 0, 0, 0, 0, 1])"
  have pf: "Proof (replicate 32 5) (replicate 32 9) ''a'' [2, 0, 0, 0, 0, 1] = Inr ?pf"
    by (simp add: Proof_Inr)
  then have v: "VerifyProof (replicate 32 5) (replicate 32 9) ''a'' [2, 0, 0, 0, 0, 1] ?pf"
    by (simp add: VerifyProof_iff)
  from proof_not_transferable [OF pf v] pf v show ?thesis by blast
qed

section \<open>Frame pumps: what passes\<close>

definition frame_fits :: "Runner \<Rightarrow> bytes \<Rightarrow> bool" where
  "frame_fits r f \<longleftrightarrow> MinimumFrameSize \<le> length f \<and> int (length f) \<le> c_MaxFrameSize (ru_cfg r)"

lemma tap_step_ok:
  "tap_step r now rd c = (None, c') \<Longrightarrow>
     \<exists>f. rd = Inr f \<and> frame_fits r f \<and> SourceMAC f = ru_mac r \<and> out_msgs c' = out_msgs c @ [(BinaryMessage, f)]"
  using WriteMessage_ok
  by (auto simp: tap_step_def frame_fits_def equalMAC_eq split: sum.splits if_splits prod.splits bool.splits)

lemma tap_step_err: "tap_step r now rd c = (Some e, c') \<Longrightarrow> out_msgs c' = out_msgs c"
  by (auto simp: tap_step_def WriteMessage_def split: sum.splits if_splits prod.splits bool.splits list.splits)

lemma tapToWebSocket_out:
  assumes "tapToWebSocket r reads c = (e, c')"
  shows "\<exists>fs. out_msgs c' = out_msgs c @ map (Pair BinaryMessage) fs
    \<and> map Inr fs = map snd (take (length fs) reads) \<and> length fs \<le> length reads
    \<and> (\<forall>f \<in> set fs. frame_fits r f \<and> SourceMAC f = ru_mac r) \<and> (e = None \<longrightarrow> length fs = length reads)"
  using assms
proof (induction reads arbitrary: c)
  case Nil
  then show ?case by simp
next
  case (Cons x reads)
  obtain now rd where x: "x = (now, rd)" by (cases x)
  obtain e1 c1 where st: "tap_step r now rd c = (e1, c1)" by (cases "tap_step r now rd c")
  show ?case
  proof (cases e1)
    case None
    then obtain f where f: "rd = Inr f" "frame_fits r f" "SourceMAC f = ru_mac r"
      "out_msgs c1 = out_msgs c @ [(BinaryMessage, f)]" using tap_step_ok st by blast
    have "tapToWebSocket r reads c1 = (e, c')" using Cons.prems x st None by simp
    from Cons.IH [OF this] obtain fs where "out_msgs c' = out_msgs c1 @ map (Pair BinaryMessage) fs"
      "map Inr fs = map snd (take (length fs) reads)" "length fs \<le> length reads"
      "\<forall>f \<in> set fs. frame_fits r f \<and> SourceMAC f = ru_mac r" "e = None \<longrightarrow> length fs = length reads" by blast
    with f x show ?thesis by (intro exI [of _ "f # fs"]) simp
  next
    case (Some e0)
    then have "e \<noteq> None" "c' = c1" using Cons.prems x st by auto
    with tap_step_err [of r now rd c e0 c1] st Some show ?thesis by (intro exI [of _ "[]"]) simp
  qed
qed

lemma ws_step_ok:
  assumes "writer_prefix wr log" and "ws_step r wr now w c = Pumping w' c'"
  shows "\<exists>f. in_msgs c = Some (BinaryMessage, f) # in_msgs c' \<and> frame_fits r f \<and> log w' = log w @ f"
proof -
  obtain t f ms where rd: "in_msgs c = Some (t, f) # ms"
    using assms(2) by (auto simp: ws_step_def ReadMessage_def split: list.splits option.splits)
  then have "t = BinaryMessage" "frame_fits r f" "writeFull wr w f = Written w'" "in_msgs c' = ms"
    using assms(2) by (auto simp: ws_step_def Let_def frame_fits_def split: if_splits write_result.splits)
  moreover from this have "log w' = log w @ f"
    using writeFull_prefix [OF assms(1), of w f] by simp
  ultimately show ?thesis using rd by auto
qed

lemma ws_step_no_panic: "writer_prefix wr log \<Longrightarrow> ws_step r wr now w c \<noteq> PumpPanic"
  using writeFull_prefix [of wr log w]
  by (fastforce simp: ws_step_def Let_def split: prod.splits option.splits if_splits write_result.splits)

text \<open>
  Everything the relay delivers reaches the device, whole and in order: while
  \<^verbatim>\<open>webSocketToTap\<close> runs, what it has taken from the connection is a sequence of binary
  frames within the size bounds, and what it has written to the device is exactly these
  frames one after the other; it never panics.
\<close>

lemma webSocketToTap_delivers:
  assumes "writer_prefix wr log"
  shows "webSocketToTap r wr nows w c \<noteq> PumpPanic
    \<and> (\<forall>w' c'. webSocketToTap r wr nows w c = Pumping w' c' \<longrightarrow>
         (\<exists>fs. in_msgs c = map (\<lambda>f. Some (BinaryMessage, f)) fs @ in_msgs c' \<and> length fs = length nows
            \<and> (\<forall>f \<in> set fs. MinimumFrameSize \<le> length f \<and> int (length f) \<le> c_MaxFrameSize (ru_cfg r))
            \<and> log w' = log w @ concat fs))"
proof (induction nows arbitrary: w c)
  case Nil
  then show ?case by simp
next
  case (Cons now nows)
  show ?case
  proof (cases "ws_step r wr now w c")
    case (Pumping w1 c1)
    obtain f where f: "in_msgs c = Some (BinaryMessage, f) # in_msgs c1" "frame_fits r f" "log w1 = log w @ f"
      using ws_step_ok [OF assms Pumping] by blast
    show ?thesis
    proof (intro conjI allI impI)
      show "webSocketToTap r wr (now # nows) w c \<noteq> PumpPanic" using Cons [of w1 c1] Pumping by simp
      fix w' c' assume "webSocketToTap r wr (now # nows) w c = Pumping w' c'"
      then have "webSocketToTap r wr nows w1 c1 = Pumping w' c'" using Pumping by simp
      then obtain fs where "in_msgs c1 = map (\<lambda>f. Some (BinaryMessage, f)) fs @ in_msgs c'" "length fs = length nows"
        "\<forall>f \<in> set fs. MinimumFrameSize \<le> length f \<and> int (length f) \<le> c_MaxFrameSize (ru_cfg r)"
        "log w' = log w1 @ concat fs" using Cons [of w1 c1] by blast
      with f show "\<exists>fs. in_msgs c = map (\<lambda>f. Some (BinaryMessage, f)) fs @ in_msgs c' \<and> length fs = length (now # nows)
            \<and> (\<forall>f \<in> set fs. MinimumFrameSize \<le> length f \<and> int (length f) \<le> c_MaxFrameSize (ru_cfg r))
            \<and> log w' = log w @ concat fs"
        by (intro exI [of _ "f # fs"]) (simp add: frame_fits_def)
    qed
  qed (use ws_step_no_panic [OF assms] in auto)
qed

section \<open>The reconnect schedule\<close>

definition healthy :: "round \<Rightarrow> bool" where
  "healthy rd \<longleftrightarrow> healthySession \<le> duration rd"

text \<open>The number of rounds since the start or the last healthy session, when \<open>n\<close> went before.\<close>

primrec failures :: "nat \<Rightarrow> round list \<Rightarrow> nat \<Rightarrow> nat" where
  "failures n rs 0 = (if healthy (rs ! 0) then 0 else n)"
| "failures n rs (Suc i) = (if healthy (rs ! Suc i) then 0 else Suc (failures n rs i))"

lemma failures_shift: "failures n (rd # rs) (Suc i) = failures (Suc (failures n (rd # rs) 0)) rs i"
  by (induction i) simp_all

definition backoff_after :: "nat \<Rightarrow> int" where
  "backoff_after n = min maximumBackoff (minimumBackoff * 2 ^ n)"

lemma backoff_after_0: "backoff_after 0 = minimumBackoff"
  by (simp add: backoff_after_def minimumBackoff_def maximumBackoff_def)

lemma backoff_after_bounds: "minimumBackoff \<le> backoff_after n" "backoff_after n \<le> maximumBackoff"
proof -
  have "(1 :: int) \<le> 2 ^ n" by simp
  then show "minimumBackoff \<le> backoff_after n" "backoff_after n \<le> maximumBackoff"
    by (simp_all add: backoff_after_def minimumBackoff_def maximumBackoff_def)
qed

lemma next_backoff_after: "next_backoff (backoff_after n) = backoff_after (Suc n)"
  by (auto simp: next_backoff_def backoff_after_def Let_def min_def maximumBackoff_def minimumBackoff_def)

lemma round_backoff_after:
  "round_backoff (backoff_after n) rd = backoff_after (if healthy rd then 0 else n)"
  by (simp add: round_backoff_def healthy_def backoff_after_0)

lemma Run_backoffs:
  "i < length (fst (Run (backoff_after n) rs)) \<Longrightarrow>
     i < length rs \<and> fst (Run (backoff_after n) rs) ! i =
       (let b = backoff_after (failures n rs i) in (b, round_delay b (rs ! i)))"
proof (induction rs arbitrary: n i)
  case Nil
  then show ?case by simp
next
  case (Cons rd rs)
  let ?k = "if healthy rd then 0 else n"
  show ?case
  proof (cases i)
    case 0
    then show ?thesis
      using Cons.prems by (auto simp: Let_def round_backoff_after split: if_splits prod.splits)
  next
    case (Suc j)
    have "\<not> done_before rd" "\<not> done_after rd" "\<not> done_waiting rd"
      and j: "j < length (fst (Run (backoff_after (Suc ?k)) rs))"
      using Cons.prems Suc
      by (auto simp: Let_def round_backoff_after next_backoff_after split: if_splits prod.splits)
    moreover from this have "fst (Run (backoff_after n) (rd # rs)) ! i = fst (Run (backoff_after (Suc ?k)) rs) ! j"
      by (simp add: Suc Let_def round_backoff_after next_backoff_after split: prod.splits)
    moreover have "failures n (rd # rs) i = failures (Suc ?k) rs j"
      using failures_shift [of n rd rs j] Suc by simp
    ultimately show ?thesis using Cons.IH [OF j] Suc by (simp add: Let_def)
  qed
qed

text \<open>
  C27. The reconnect schedule.  After \<open>k\<close> sessions in a row that were not healthy, counted from the
  start or from the last session of a minute or more, the backoff of \<^verbatim>\<open>Run\<close> is \<open>2\<^sup>k\<close> seconds, at
  most thirty, and the timer it starts is at least the backoff and at most half as long again:
  never under a second, never over forty-five.
\<close>

theorem reconnect_schedule:
  assumes "i < length (fst (Run minimumBackoff rounds))"
    and "\<And>n. 0 < n \<Longrightarrow> 0 \<le> int63n (rounds ! i) n \<and> int63n (rounds ! i) n < n"
  shows "let (backoff, delay) = fst (Run minimumBackoff rounds) ! i in
      backoff = min (30 * 10 ^ 9) (10 ^ 9 * 2 ^ failures 0 rounds i)
      \<and> backoff \<le> delay \<and> delay \<le> backoff + backoff div 2 \<and> 10 ^ 9 \<le> delay \<and> delay \<le> 45 * 10 ^ 9"
proof -
  let ?b = "backoff_after (failures 0 rounds i)"
  have eq: "fst (Run minimumBackoff rounds) ! i = (?b, round_delay ?b (rounds ! i))"
    using Run_backoffs [of i 0 rounds] assms(1) by (simp add: backoff_after_0 Let_def)
  have b: "10 ^ 9 \<le> ?b" "?b \<le> 30 * 10 ^ 9"
    using backoff_after_bounds [of "failures 0 rounds i"] by (simp_all add: minimumBackoff_def maximumBackoff_def)
  then have "0 < ?b div 2 + 1" by simp
  from assms(2) [OF this] have "?b \<le> round_delay ?b (rounds ! i)" "round_delay ?b (rounds ! i) \<le> ?b + ?b div 2"
    by (simp_all add: round_delay_def)
  moreover from this b have "10 ^ 9 \<le> round_delay ?b (rounds ! i)" "round_delay ?b (rounds ! i) \<le> 45 * 10 ^ 9"
    by linarith+
  moreover have "?b = min (30 * 10 ^ 9) (10 ^ 9 * 2 ^ failures 0 rounds i)"
    by (simp add: backoff_after_def minimumBackoff_def maximumBackoff_def)
  ultimately show ?thesis by (simp only: eq Let_def prod.case)
qed

text \<open>
  The client never gives up: \<^verbatim>\<open>Run\<close> returns exactly when its context is done in one of the
  places it looks, and otherwise every session that ends is followed by another timer.
\<close>

lemma Run_returns:
  "(snd (Run backoff rounds) \<longleftrightarrow> (\<exists>rd \<in> set rounds. done_before rd \<or> done_after rd \<or> done_waiting rd))
   \<and> (\<not> snd (Run backoff rounds) \<longrightarrow> length (fst (Run backoff rounds)) = length rounds)"
  by (induction backoff rounds rule: Run.induct) (auto simp: Let_def split: prod.splits)

definition ex_round :: "int \<Rightarrow> round" where
  "ex_round d = \<lparr>done_before = False, duration = d, done_after = False, int63n = (\<lambda>n. n div 2), done_waiting = False\<rparr>"

theorem reconnect_schedule_witness:
  "let (backoff, delay) = fst (Run minimumBackoff [ex_round 5, ex_round 5, ex_round 5]) ! 2
   in backoff = 4 * 10 ^ 9 \<and> delay \<le> 6 * 10 ^ 9"
proof -
  let ?rs = "[ex_round 5, ex_round 5, ex_round 5]"
  have len: "2 < length (fst (Run minimumBackoff ?rs))"
    by (simp add: ex_round_def Let_def)
  have fails: "failures 0 ?rs 2 = 2"
    by (simp add: numeral_2_eq_2 healthy_def ex_round_def healthySession_def)
  have rnd: "0 \<le> int63n (?rs ! 2) n \<and> int63n (?rs ! 2) n < n" if "0 < n" for n
    using that by (simp add: ex_round_def)
  obtain b d where bd: "fst (Run minimumBackoff ?rs) ! 2 = (b, d)"
    by (cases "fst (Run minimumBackoff ?rs) ! 2")
  from reconnect_schedule [OF len rnd] show ?thesis unfolding bd fails by auto
qed

end
