(* ===== verification/Relay_Hub.thy ===== *)
theory Relay_Hub
  imports Relay_Auth "HOL-Library.AList" "HOL-Library.Multiset"
begin

text \<open>
  \<^verbatim>\<open>internal/relay/relay.go\<close>, the hub: the table of connected peers, frame
  forwarding, bounded send queues, drop accounting and disconnection.

  Peers are shared by pointer, so they live in a store: a reference is a natural
  number and \<open>peers\<close> maps references to peer objects.  The two Go maps of the hub
  are association lists from keys to references; the order of the list stands for
  the iteration order of the Go map, which is unspecified, and \<open>forward_order_irrelevant\<close>
  shows that it does not matter.  A dereference of a missing object and a short
  address in \<^verbatim>\<open>MACKey\<close> are panics, \<open>None\<close> here.

  Times are nanoseconds since the epoch.  Both operands of the subtraction in
  \<^verbatim>\<open>noteDrop\<close> are non-negative 64-bit values, so it does not overflow and \<open>int\<close> is
  exact; the drop counter wraps at 64 bits.
\<close>

section \<open>Send queues\<close>

text \<open>A buffered Go channel, oldest element first.\<close>

record chan =
  ch_cap :: nat
  ch_buf :: "bytes list"

definition chan_try_send :: "chan \<Rightarrow> bytes \<Rightarrow> chan option" where
  "chan_try_send ch x =
     (if length (ch_buf ch) < ch_cap ch then Some (ch\<lparr>ch_buf := ch_buf ch @ [x]\<rparr>) else None)"

definition chan_recv :: "chan \<Rightarrow> (bytes \<times> chan) option" where
  "chan_recv ch = (case ch_buf ch of [] \<Rightarrow> None | x # xs \<Rightarrow> Some (x, ch\<lparr>ch_buf := xs\<rparr>))"

text \<open>The interface of a bounded queue that refuses elements when full.\<close>

locale bounded_queue =
  fixes try_send :: "'q \<Rightarrow> 'a \<Rightarrow> 'q option"
    and recv :: "'q \<Rightarrow> ('a \<times> 'q) option"
    and items :: "'q \<Rightarrow> 'a list"
    and capacity :: "'q \<Rightarrow> nat"
  assumes try_send_Some: "try_send q x = Some q' \<Longrightarrow> items q' = items q @ [x] \<and> capacity q' = capacity q"
    and try_send_full: "try_send q x = None \<longleftrightarrow> capacity q \<le> length (items q)"
    and recv_Some: "recv q = Some (x, q') \<Longrightarrow> items q = x # items q' \<and> capacity q' = capacity q"
    and recv_None: "recv q = None \<longleftrightarrow> items q = []"
begin

definition offer :: "'q \<Rightarrow> 'a \<Rightarrow> 'q" where
  "offer q x = (case try_send q x of None \<Rightarrow> q | Some q' \<Rightarrow> q')"

lemma items_offer:
  "items (offer q x) = (if length (items q) < capacity q then items q @ [x] else items q)"
  using try_send_full [of q x] try_send_Some [of q x]
  by (auto simp: offer_def split: option.splits)

lemma capacity_offer [simp]: "capacity (offer q x) = capacity q"
  using try_send_Some [of q x] by (auto simp: offer_def split: option.splits)

lemma offer_bounded: "length (items q) \<le> capacity q \<Longrightarrow> length (items (offer q x)) \<le> capacity (offer q x)"
  by (simp add: items_offer)

lemma recv_bounded: "recv q = Some (x, q') \<Longrightarrow> length (items q) \<le> capacity q \<Longrightarrow> length (items q') \<le> capacity q'"
  using recv_Some by fastforce

text \<open>A run of offers keeps what was queued and appends the longest prefix that fits.\<close>

lemma items_offers:
  "items (foldl offer q xs) = items q @ take (capacity q - length (items q)) xs"
proof (induction xs arbitrary: q)
  case Nil
  then show ?case by simp
next
  case (Cons x xs)
  have "items (foldl offer q (x # xs)) =
      items (offer q x) @ take (capacity q - length (items (offer q x))) xs"
    using Cons [of "offer q x"] by simp
  then show ?case
    by (cases "length (items q) < capacity q") (auto simp: items_offer take_Cons' Suc_diff_Suc)
qed

end

interpretation send_queue: bounded_queue chan_try_send chan_recv ch_buf ch_cap
  by standard (auto simp: chan_try_send_def chan_recv_def split: if_splits list.splits)

section \<open>Peers\<close>

type_synonym ref = nat

definition dropReportInterval :: int where "dropReportInterval = 30 * 10 ^ 9"

record peer =
  p_id :: string
  p_mac :: bytes
  p_send :: chan
  p_stopOnce :: bool
  p_done :: bool
  p_connClosed :: bool
  p_idle :: int
  p_dropped :: "64 word"
  p_lastDropReport :: int

definition new_peer :: "authorizedClient \<Rightarrow> nat \<Rightarrow> int \<Rightarrow> peer" where
  "new_peer authorized queueSize idle =
     \<lparr>p_id = ac_id authorized, p_mac = ac_mac authorized, p_send = \<lparr>ch_cap = queueSize, ch_buf = []\<rparr>,
      p_stopOnce = False, p_done = False, p_connClosed = False, p_idle = idle,
      p_dropped = 0, p_lastDropReport = 0\<rparr>"

text \<open>
  \<^verbatim>\<open>noteDrop\<close>: the counter is incremented atomically, the time of the last report is
  loaded, and a compare-and-swap decides whether this call reports.  \<open>noteDrop_cas\<close>
  is the part after the load, with the value \<open>loaded\<close>; the result says
  whether a line is logged.
\<close>

definition noteDrop_cas :: "int \<Rightarrow> int \<Rightarrow> peer \<Rightarrow> peer \<times> bool" where
  "noteDrop_cas loaded now p =
     (if now - loaded < dropReportInterval then (p, False)
      else if p_lastDropReport p \<noteq> loaded then (p, False)
      else (p\<lparr>p_lastDropReport := now\<rparr>, True))"

definition noteDrop :: "int \<Rightarrow> peer \<Rightarrow> peer \<times> bool" where
  "noteDrop now p =
     (let p' = p\<lparr>p_dropped := p_dropped p + 1\<rparr> in noteDrop_cas (p_lastDropReport p') now p')"

definition peer_stop :: "peer \<Rightarrow> peer" where
  "peer_stop p = (if p_stopOnce p then p else p\<lparr>p_stopOnce := True, p_done := True, p_connClosed := True\<rparr>)"

text \<open>One iteration of the send loop of \<^verbatim>\<open>forward\<close>: queue a copy of the frame or count a drop.\<close>

definition deliver :: "bytes \<Rightarrow> int \<Rightarrow> peer \<Rightarrow> peer" where
  "deliver frame now target =
     (case chan_try_send (p_send target) frame of
        Some ch \<Rightarrow> target\<lparr>p_send := ch\<rparr>
      | None \<Rightarrow> fst (noteDrop now target))"

section \<open>The hub\<close>

record hub =
  byID :: "(string \<times> ref) list"
  byMAC :: "(64 word \<times> ref) list"
  peers :: "ref \<rightharpoonup> peer"

definition newHub :: hub where
  "newHub = \<lparr>byID = [], byMAC = [], peers = Map.empty\<rparr>"

definition upd_peer :: "ref \<Rightarrow> (peer \<Rightarrow> peer) \<Rightarrow> hub \<Rightarrow> hub" where
  "upd_peer r f h = h\<lparr>peers := (peers h)(r := map_option f (peers h r))\<rparr>"

definition stop_ref :: "ref \<Rightarrow> hub \<Rightarrow> hub" where
  "stop_ref r h = upd_peer r peer_stop h"

text \<open>The part of \<^verbatim>\<open>hub.add\<close> under the lock, with the two entries it replaced.\<close>

definition add_locked :: "hub \<Rightarrow> ref \<Rightarrow> (hub \<times> ref option \<times> ref option) option" where
  "add_locked h r =
     (case peers h r of
        None \<Rightarrow> None
      | Some p \<Rightarrow>
          (case MACKey (p_mac p) of
             None \<Rightarrow> None
           | Some k \<Rightarrow>
               Some (h\<lparr>byID := AList.update (p_id p) r (byID h), byMAC := AList.update k r (byMAC h)\<rparr>,
                     map_of (byID h) (p_id p), map_of (byMAC h) k)))"

text \<open>The peers that \<^verbatim>\<open>hub.add\<close> stops after it released the lock, in order.\<close>

definition add_stops :: "ref \<Rightarrow> ref option \<Rightarrow> ref option \<Rightarrow> ref list" where
  "add_stops r oldByID oldByMAC =
     (case oldByID of None \<Rightarrow> [] | Some q \<Rightarrow> if q \<noteq> r then [q] else [])
     @ (case oldByMAC of None \<Rightarrow> [] | Some q \<Rightarrow> if q \<noteq> r \<and> oldByMAC \<noteq> oldByID then [q] else [])"

definition hub_add :: "hub \<Rightarrow> ref \<Rightarrow> hub option" where
  "hub_add h r =
     (case add_locked h r of
        None \<Rightarrow> None
      | Some (h', oldByID, oldByMAC) \<Rightarrow> Some (fold stop_ref (add_stops r oldByID oldByMAC) h'))"

definition hub_remove :: "hub \<Rightarrow> ref \<Rightarrow> hub option" where
  "hub_remove h r =
     (case peers h r of
        None \<Rightarrow> None
      | Some p \<Rightarrow>
          (let h1 = (if map_of (byID h) (p_id p) = Some r
                     then h\<lparr>byID := AList.delete (p_id p) (byID h)\<rparr> else h)
           in case MACKey (p_mac p) of
                None \<Rightarrow> None
              | Some k \<Rightarrow>
                  Some (if map_of (byMAC h1) k = Some r
                        then h1\<lparr>byMAC := AList.delete k (byMAC h1)\<rparr> else h1)))"

text \<open>
  A peer is still authorized when its identity is configured with its address;
  \<open>stale_peers\<close> is the list that \<^verbatim>\<open>retainAuthorized\<close> collects under the lock.
\<close>

definition still_authorized :: "(string \<rightharpoonup> authorizedClient) \<Rightarrow> string \<Rightarrow> bytes \<Rightarrow> bool" where
  "still_authorized clients cid mac \<longleftrightarrow>
     (case clients cid of None \<Rightarrow> False | Some client \<Rightarrow> ac_mac client = mac)"

definition stale_peers :: "(string \<rightharpoonup> authorizedClient) \<Rightarrow> hub \<Rightarrow> ref list" where
  "stale_peers clients h =
     map snd (filter (\<lambda>(cid, r). case peers h r of
         None \<Rightarrow> True
       | Some p \<Rightarrow> \<not> still_authorized clients cid (p_mac p)) (byID h))"

definition retainAuthorized :: "hub \<Rightarrow> (string \<rightharpoonup> authorizedClient) \<Rightarrow> hub \<times> nat" where
  "retainAuthorized h clients =
     (let stale = stale_peers clients h in (fold stop_ref stale h, length stale))"

text \<open>The recipients that \<^verbatim>\<open>forward\<close> collects under the lock.\<close>

definition recipients :: "hub \<Rightarrow> ref \<Rightarrow> bytes \<Rightarrow> ref list option" where
  "recipients h sender frame =
     (let destination = DestinationMAC frame;
          flood = map snd (filter (\<lambda>(_, target). target \<noteq> sender) (byID h))
      in if IsGroupMAC destination then Some flood
         else (case MACKey destination of
             None \<Rightarrow> None
           | Some k \<Rightarrow>
               (case map_of (byMAC h) k of
                  Some target \<Rightarrow> Some (if target \<noteq> sender then [target] else [])
                | None \<Rightarrow> Some flood)))"

text \<open>\<open>now r\<close> is the reading of the clock when the frame for \<open>r\<close> has to be dropped.\<close>

definition forward :: "(ref \<Rightarrow> int) \<Rightarrow> hub \<Rightarrow> ref \<Rightarrow> bytes \<Rightarrow> hub option" where
  "forward now h sender frame =
     map_option (\<lambda>rs. fold (\<lambda>r. upd_peer r (deliver frame (now r))) rs h) (recipients h sender frame)"

section \<open>The loops of a session\<close>

datatype read_outcome = Continue hub | Return hub | Panic

text \<open>One iteration of \<^verbatim>\<open>readLoop\<close> on the result of \<^verbatim>\<open>conn.ReadMessage\<close>.\<close>

definition read_step :: "int \<Rightarrow> (ref \<Rightarrow> int) \<Rightarrow> hub \<Rightarrow> ref \<Rightarrow> message option \<Rightarrow> read_outcome" where
  "read_step maxFrameSize now h r msg =
     (case msg of
        None \<Rightarrow> Return h
      | Some (messageType, frame) \<Rightarrow>
          (case peers h r of
             None \<Rightarrow> Panic
           | Some p \<Rightarrow>
               if messageType \<noteq> BinaryMessage \<or> length frame < MinimumFrameSize
                  \<or> int (length frame) > maxFrameSize
               then Return h
               else if SourceMAC frame \<noteq> p_mac p then Return h
               else (case forward now h r frame of None \<Rightarrow> Panic | Some h' \<Rightarrow> Continue h')))"

fun readLoop :: "int \<Rightarrow> (ref \<Rightarrow> int) \<Rightarrow> hub \<Rightarrow> ref \<Rightarrow> message option list \<Rightarrow> read_outcome" where
  "readLoop maxFrameSize now h r [] = Return h"
| "readLoop maxFrameSize now h r (m # ms) =
     (case read_step maxFrameSize now h r m of
        Continue h' \<Rightarrow> readLoop maxFrameSize now h' r ms
      | Return h' \<Rightarrow> Return h'
      | Panic \<Rightarrow> Panic)"

text \<open>
  One iteration of \<^verbatim>\<open>writeLoop\<close>.  Go chooses among the ready cases of the select;
  the event names the choice and whether the write succeeded.  The result is the
  hub, the message written, and whether the loop goes on; \<open>None\<close> when the case is
  not ready.
\<close>

datatype write_event = WDone | WFrame bool | WTick bool

definition pingEvery :: "int \<Rightarrow> int" where
  "pingEvery idle = (let e = idle div 3 in if e < 10 * 10 ^ 9 then 10 * 10 ^ 9 else e)"

definition write_step :: "hub \<Rightarrow> ref \<Rightarrow> write_event \<Rightarrow> (hub \<times> bytes option \<times> bool) option" where
  "write_step h r ev =
     (case peers h r of
        None \<Rightarrow> None
      | Some p \<Rightarrow>
          (case ev of
             WDone \<Rightarrow> if p_done p then Some (h, None, False) else None
           | WFrame ok \<Rightarrow>
               (case chan_recv (p_send p) of
                  None \<Rightarrow> None
                | Some (frame, ch) \<Rightarrow>
                    (let h1 = upd_peer r (\<lambda>q. q\<lparr>p_send := ch\<rparr>) h
                     in if ok then Some (h1, Some frame, True) else Some (stop_ref r h1, None, False)))
           | WTick ok \<Rightarrow> if ok then Some (h, None, True) else Some (stop_ref r h, None, False)))"

section \<open>Pointwise effect on the store\<close>

lemma upd_peer_sel [simp]:
  "byID (upd_peer r f h) = byID h" "byMAC (upd_peer r f h) = byMAC h"
  "peers (upd_peer r f h) = (peers h)(r := map_option f (peers h r))"
  by (simp_all add: upd_peer_def)

lemma stop_ref_sel [simp]:
  "byID (stop_ref r h) = byID h" "byMAC (stop_ref r h) = byMAC h"
  "peers (stop_ref r h) = (peers h)(r := map_option peer_stop (peers h r))"
  by (simp_all add: stop_ref_def)

lemma peer_stop_sel [simp]:
  "p_id (peer_stop p) = p_id p" "p_mac (peer_stop p) = p_mac p" "p_send (peer_stop p) = p_send p"
  "p_stopOnce (peer_stop p)" "p_dropped (peer_stop p) = p_dropped p"
  "peer_stop (peer_stop p) = peer_stop p"
  by (simp_all add: peer_stop_def)

lemma noteDrop_sel [simp]:
  "p_id (fst (noteDrop now p)) = p_id p" "p_mac (fst (noteDrop now p)) = p_mac p"
  "p_send (fst (noteDrop now p)) = p_send p" "p_stopOnce (fst (noteDrop now p)) = p_stopOnce p"
  "p_done (fst (noteDrop now p)) = p_done p" "p_connClosed (fst (noteDrop now p)) = p_connClosed p"
  "p_dropped (fst (noteDrop now p)) = p_dropped p + 1"
  by (simp_all add: noteDrop_def noteDrop_cas_def Let_def)

lemma deliver_sel [simp]:
  "p_id (deliver f now p) = p_id p" "p_mac (deliver f now p) = p_mac p"
  "p_stopOnce (deliver f now p) = p_stopOnce p" "p_done (deliver f now p) = p_done p"
  "p_connClosed (deliver f now p) = p_connClosed p"
  "p_send (deliver f now p) = send_queue.offer (p_send p) f"
  by (simp_all add: deliver_def send_queue.offer_def split: option.splits)

lemma deliver_dropped:
  "p_dropped (deliver f now p) =
     (if length (ch_buf (p_send p)) < ch_cap (p_send p) then p_dropped p else p_dropped p + 1)"
  by (simp add: deliver_def chan_try_send_def)

lemma fold_upd_tables [simp]:
  "byID (fold (\<lambda>r. upd_peer r (f r)) rs h) = byID h"
  "byMAC (fold (\<lambda>r. upd_peer r (f r)) rs h) = byMAC h"
  by (induction rs arbitrary: h) simp_all

lemma fold_upd_peers:
  "distinct rs \<Longrightarrow> peers (fold (\<lambda>r. upd_peer r (f r)) rs h) q =
     (if q \<in> set rs then map_option (f q) (peers h q) else peers h q)"
  by (induction rs arbitrary: h) auto

lemma fold_stop_sel [simp]:
  "byID (fold stop_ref rs h) = byID h" "byMAC (fold stop_ref rs h) = byMAC h"
  by (induction rs arbitrary: h) simp_all

lemma fold_stop_peers:
  "peers (fold stop_ref rs h) q = (if q \<in> set rs then map_option peer_stop (peers h q) else peers h q)"
  by (induction rs arbitrary: h) (auto simp: option.map_comp comp_def)

section \<open>Well-formed hubs\<close>

definition peer_ok :: "peer \<Rightarrow> bool" where
  "peer_ok p \<longleftrightarrow> length (p_mac p) = 6 \<and> length (ch_buf (p_send p)) \<le> ch_cap (p_send p)
     \<and> p_done p = p_stopOnce p \<and> p_connClosed p = p_stopOnce p"

definition hub_ok :: "hub \<Rightarrow> bool" where
  "hub_ok h \<longleftrightarrow> distinct (map fst (byID h)) \<and> distinct (map fst (byMAC h))
     \<and> (\<forall>i r. map_of (byID h) i = Some r \<longrightarrow> (\<exists>p. peers h r = Some p \<and> p_id p = i))
     \<and> (\<forall>k r. map_of (byMAC h) k = Some r \<longrightarrow> (\<exists>p. peers h r = Some p \<and> MACKey (p_mac p) = Some k))
     \<and> (\<forall>r p. peers h r = Some p \<longrightarrow> peer_ok p)"

lemma hub_okD:
  assumes "hub_ok h"
  shows "distinct (map fst (byID h))" "distinct (map fst (byMAC h))"
    and "map_of (byID h) i = Some r \<Longrightarrow> \<exists>p. peers h r = Some p \<and> p_id p = i"
    and "map_of (byMAC h) k = Some r \<Longrightarrow> \<exists>p. peers h r = Some p \<and> MACKey (p_mac p) = Some k"
    and "peers h r = Some p \<Longrightarrow> peer_ok p"
  using assms by (auto simp: hub_ok_def)

lemma peer_okD:
  assumes "peer_ok p"
  shows "length (p_mac p) = 6" "\<exists>k. MACKey (p_mac p) = Some k"
  using assms MACKey_Some [of "p_mac p"] by (auto simp: peer_ok_def)

lemma peer_ok_stop [simp]: "peer_ok p \<Longrightarrow> peer_ok (peer_stop p)"
  by (simp add: peer_ok_def peer_stop_def)

lemma peer_ok_deliver [simp]: "peer_ok p \<Longrightarrow> peer_ok (deliver f now p)"
  using send_queue.offer_bounded [of "p_send p" f] by (simp add: peer_ok_def)

lemma peer_ok_new: "length (ac_mac a) = 6 \<Longrightarrow> peer_ok (new_peer a n idle)"
  by (simp add: peer_ok_def new_peer_def)

lemma newHub_ok: "hub_ok newHub"
  by (simp add: hub_ok_def newHub_def)

text \<open>A change to objects that keeps identities and addresses keeps a hub well-formed.\<close>

lemma hub_ok_map_peers:
  assumes "hub_ok h" and "byID h' = byID h" and "byMAC h' = byMAC h"
    and "\<And>r. peers h' r = map_option (f r) (peers h r)"
    and "\<And>r p. peers h r = Some p \<Longrightarrow> p_id (f r p) = p_id p \<and> p_mac (f r p) = p_mac p \<and> peer_ok (f r p)"
  shows "hub_ok h'"
  unfolding hub_ok_def
proof (intro conjI allI impI)
  show "distinct (map fst (byID h'))" "distinct (map fst (byMAC h'))"
    using hub_okD(1,2) [OF assms(1)] assms(2,3) by simp_all
next
  fix i r assume "map_of (byID h') i = Some r"
  then obtain p where "peers h r = Some p" "p_id p = i"
    using hub_okD(3) [OF assms(1)] assms(2) by auto
  then show "\<exists>p. peers h' r = Some p \<and> p_id p = i"
    using assms(4) [of r] assms(5) [of r p] by simp
next
  fix k r assume "map_of (byMAC h') k = Some r"
  then obtain p where "peers h r = Some p" "MACKey (p_mac p) = Some k"
    using hub_okD(4) [OF assms(1)] assms(3) by auto
  then show "\<exists>p. peers h' r = Some p \<and> MACKey (p_mac p) = Some k"
    using assms(4) [of r] assms(5) [of r p] by simp
next
  fix r p assume "peers h' r = Some p"
  then show "peer_ok p"
    using assms(4) [of r] assms(5) [of r] by auto
qed

lemma hub_ok_stop: "hub_ok h \<Longrightarrow> hub_ok (stop_ref q h)"
  by (rule hub_ok_map_peers [where f = "\<lambda>r p. if r = q then peer_stop p else p"])
    (auto simp: option.map_id0 hub_ok_def map_option_idI)

lemma hub_ok_stops: "hub_ok h \<Longrightarrow> hub_ok (fold stop_ref rs h)"
  by (induction rs arbitrary: h) (simp_all add: hub_ok_stop)

lemma hub_ok_alloc:
  assumes "hub_ok h" and "peers h r = None" and "peer_ok p"
  shows "hub_ok (h\<lparr>peers := (peers h)(r \<mapsto> p)\<rparr>)"
  using assms unfolding hub_ok_def by (auto simp: fun_upd_def) (metis option.distinct(1))+

text \<open>The registered references are pairwise different.\<close>

lemma byID_refs_distinct:
  assumes "hub_ok h"
  shows "distinct (map snd (byID h))"
proof -
  have "i = j" if "(i, r) \<in> set (byID h)" "(j, r) \<in> set (byID h)" for i j r
    using that hub_okD(1,3) [OF assms] by (metis map_of_is_SomeI option.inject)
  then have "inj_on snd (set (byID h))"
    by (auto simp: inj_on_def)
  then show ?thesis
    using hub_okD(1) [OF assms] by (simp add: distinct_map)
qed

lemma recipients_distinct: "hub_ok h \<Longrightarrow> recipients h s f = Some rs \<Longrightarrow> distinct rs"
  using byID_refs_distinct [of h]
  by (auto simp: recipients_def Let_def distinct_map_filter split: if_splits option.splits)

section \<open>Registration\<close>

lemmas alist_map = AList.update_conv' AList.delete_conv'

lemma add_locked_Some:
  assumes "hub_ok h" and "peers h r = Some p"
  obtains k h' where "MACKey (p_mac p) = Some k"
    "add_locked h r = Some (h', map_of (byID h) (p_id p), map_of (byMAC h) k)"
    "map_of (byID h') = (map_of (byID h))(p_id p \<mapsto> r)"
    "map_of (byMAC h') = (map_of (byMAC h))(k \<mapsto> r)" "peers h' = peers h" "hub_ok h'"
proof -
  obtain k where k: "MACKey (p_mac p) = Some k"
    using peer_okD(2) [OF hub_okD(5) [OF assms]] by blast
  let ?h = "h\<lparr>byID := AList.update (p_id p) r (byID h), byMAC := AList.update k r (byMAC h)\<rparr>"
  have "hub_ok ?h"
    using assms k by (auto simp: hub_ok_def alist_map distinct_update)
  with k show thesis
    using that [of k ?h] assms(2) by (simp add: add_locked_def alist_map)
qed

lemma add_locked_ok: "hub_ok h \<Longrightarrow> add_locked h r = Some (h', a, b) \<Longrightarrow> hub_ok h' \<and> peers h' = peers h"
proof -
  assume h: "hub_ok h" and a: "add_locked h r = Some (h', a, b)"
  then obtain p where "peers h r = Some p" by (auto simp: add_locked_def split: option.splits)
  from add_locked_Some [OF h this] a show ?thesis by auto
qed

lemma hub_add_ok: "hub_ok h \<Longrightarrow> hub_add h r = Some h' \<Longrightarrow> hub_ok h'"
  using add_locked_ok by (auto simp: hub_add_def hub_ok_stops split: option.splits)

text \<open>Dropping table entries keeps a hub well-formed.\<close>

lemma hub_ok_shrink:
  assumes "hub_ok h" and "distinct (map fst (byID h'))" and "distinct (map fst (byMAC h'))"
    and "\<And>i r. map_of (byID h') i = Some r \<Longrightarrow> map_of (byID h) i = Some r"
    and "\<And>k r. map_of (byMAC h') k = Some r \<Longrightarrow> map_of (byMAC h) k = Some r"
    and "peers h' = peers h"
  shows "hub_ok h'"
  unfolding hub_ok_def
  using assms(2,3) hub_okD(3,4,5) [OF assms(1)] assms(4-6) by simp

lemma delete_only:
  assumes "\<And>i. map_of al i = Some r \<Longrightarrow> i = k"
  shows "map_of (if map_of al k = Some r then AList.delete k al else al) =
    (\<lambda>i. if map_of al i = Some r then None else map_of al i)"
proof
  fix i
  show "map_of (if map_of al k = Some r then AList.delete k al else al) i =
      (if map_of al i = Some r then None else map_of al i)"
    using assms [of i] by (cases "i = k") (auto simp: alist_map)
qed

lemma hub_remove_Some:
  assumes "hub_ok h" and "peers h r = Some p"
  obtains h' where "hub_remove h r = Some h'" "peers h' = peers h" "hub_ok h'"
    "map_of (byID h') = (\<lambda>i. if map_of (byID h) i = Some r then None else map_of (byID h) i)"
    "map_of (byMAC h') = (\<lambda>k. if map_of (byMAC h) k = Some r then None else map_of (byMAC h) k)"
proof -
  obtain k where k: "MACKey (p_mac p) = Some k"
    using peer_okD(2) [OF hub_okD(5) [OF assms]] by blast
  let ?ids = "if map_of (byID h) (p_id p) = Some r then AList.delete (p_id p) (byID h) else byID h"
  let ?macs = "if map_of (byMAC h) k = Some r then AList.delete k (byMAC h) else byMAC h"
  let ?h = "h\<lparr>byID := ?ids, byMAC := ?macs\<rparr>"
  have rem: "hub_remove h r = Some ?h"
    using assms(2) k by (simp add: hub_remove_def Let_def)
  have ids: "map_of ?ids = (\<lambda>i. if map_of (byID h) i = Some r then None else map_of (byID h) i)"
    using hub_okD(3) [OF assms(1), of _ r] assms(2) by (intro delete_only) auto
  have macs: "map_of ?macs = (\<lambda>k. if map_of (byMAC h) k = Some r then None else map_of (byMAC h) k)"
    using hub_okD(4) [OF assms(1), of _ r] assms(2) k by (intro delete_only) auto
  have "hub_ok ?h"
  proof (rule hub_ok_shrink [OF assms(1)])
    show "distinct (map fst (byID ?h))" "distinct (map fst (byMAC ?h))"
      using hub_okD(1,2) [OF assms(1)] by (simp_all add: distinct_delete)
    show "map_of (byID ?h) i = Some q \<Longrightarrow> map_of (byID h) i = Some q" for i q
      by (simp add: alist_map split: if_splits)
    show "map_of (byMAC ?h) i = Some q \<Longrightarrow> map_of (byMAC h) i = Some q" for i q
      by (simp add: alist_map split: if_splits)
  qed simp
  with rem ids macs show thesis using that [of ?h] by simp
qed

lemma hub_removeD:
  assumes "hub_ok h" and "hub_remove h r = Some h'"
  shows "peers h' = peers h" "hub_ok h'"
    "map_of (byID h') = (\<lambda>i. if map_of (byID h) i = Some r then None else map_of (byID h) i)"
    "map_of (byMAC h') = (\<lambda>k. if map_of (byMAC h) k = Some r then None else map_of (byMAC h) k)"
proof -
  obtain p where "peers h r = Some p" using assms(2) by (auto simp: hub_remove_def split: option.splits)
  note rem = hub_remove_Some [OF assms(1) this, unfolded assms(2) option.inject]
  show "peers h' = peers h" "hub_ok h'" by (rule rem; simp)+
  show "map_of (byID h') = (\<lambda>i. if map_of (byID h) i = Some r then None else map_of (byID h) i)"
    by (rule rem) simp
  show "map_of (byMAC h') = (\<lambda>k. if map_of (byMAC h) k = Some r then None else map_of (byMAC h) k)"
    by (rule rem) simp
qed

section \<open>Forwarding\<close>

lemma recipients_Some:
  assumes "MinimumFrameSize \<le> length frame"
  shows "\<exists>rs. recipients h s frame = Some rs"
proof -
  have "6 \<le> length (DestinationMAC frame)" using assms by simp
  from MACKey_Some [OF this] obtain k where "MACKey (DestinationMAC frame) = Some k" ..
  then show ?thesis
    by (auto simp: recipients_def Let_def split: option.splits)
qed

text \<open>
  Who gets a frame, as a set: a known unicast destination and nobody else, or
  everybody registered when the destination is a group address or unknown; never
  the sender.
\<close>

definition receives :: "hub \<Rightarrow> ref \<Rightarrow> bytes \<Rightarrow> ref \<Rightarrow> bool" where
  "receives h s frame r \<longleftrightarrow> r \<noteq> s \<and>
     (if IsGroupMAC (DestinationMAC frame) \<or> Option.bind (MACKey (DestinationMAC frame)) (map_of (byMAC h)) = None
      then \<exists>i. map_of (byID h) i = Some r
      else Option.bind (MACKey (DestinationMAC frame)) (map_of (byMAC h)) = Some r)"

lemma recipients_set:
  assumes "hub_ok h" and "recipients h s frame = Some rs"
  shows "r \<in> set rs \<longleftrightarrow> receives h s frame r"
proof -
  have flood: "r \<in> snd ` (set (byID h) \<inter> {x. case x of (_, t) \<Rightarrow> t \<noteq> s}) \<longleftrightarrow> r \<noteq> s \<and> (\<exists>i. map_of (byID h) i = Some r)"
    using hub_okD(1) [OF assms(1)] by force
  from assms(2) show ?thesis
    using flood by (auto simp: recipients_def receives_def Let_def image_Collect Int_def
        split: if_splits option.splits)
qed

lemma forward_Some:
  assumes "hub_ok h" and "MinimumFrameSize \<le> length frame"
  obtains h' where "forward now h s frame = Some h'" "byID h' = byID h" "byMAC h' = byMAC h"
    "\<And>r. peers h' r = (if receives h s frame r then map_option (deliver frame (now r)) (peers h r) else peers h r)"
    "hub_ok h'"
proof -
  obtain rs where rs: "recipients h s frame = Some rs"
    using recipients_Some [OF assms(2)] by blast
  let ?h = "fold (\<lambda>r. upd_peer r (deliver frame (now r))) rs h"
  have pe: "peers ?h r = (if receives h s frame r then map_option (deliver frame (now r)) (peers h r) else peers h r)" for r
    using fold_upd_peers [OF recipients_distinct [OF assms(1) rs]] recipients_set [OF assms(1) rs] by simp
  have "hub_ok ?h"
    by (rule hub_ok_map_peers
        [where h = h and f = "\<lambda>r p. if receives h s frame r then deliver frame (now r) p else p"])
      (auto simp: pe assms(1) hub_okD(5) [OF assms(1)] map_option_idI)
  with rs pe show thesis using that [of ?h] by (simp add: forward_def)
qed

lemma forward_ok: "hub_ok h \<Longrightarrow> MinimumFrameSize \<le> length frame \<Longrightarrow> forward now h s frame = Some h' \<Longrightarrow> hub_ok h'"
  by (metis forward_Some option.inject)

lemma read_step_ok:
  assumes "hub_ok h" and "peers h r = Some p"
  shows "read_step mfs now h r msg \<noteq> Panic"
    and "read_step mfs now h r msg = Continue h' \<Longrightarrow> hub_ok h'"
    and "read_step mfs now h r msg = Return h' \<Longrightarrow> h' = h"
  using assms forward_Some [OF assms(1)] forward_ok [OF assms(1)]
  by (auto simp: read_step_def not_less split: option.splits if_splits) (metis option.distinct(1))

lemma write_step_ok:
  assumes "hub_ok h" and "write_step h r ev = Some (h', m, b)"
  shows "hub_ok h'"
proof -
  obtain p where p: "peers h r = Some p"
    using assms(2) by (auto simp: write_step_def split: option.splits)
  have pop: "hub_ok (upd_peer r (\<lambda>q. q\<lparr>p_send := ch\<rparr>) h)" if "chan_recv (p_send p) = Some (frame, ch)" for frame ch
  proof (rule hub_ok_map_peers [where h = h and f = "\<lambda>r' q. if r' = r then q\<lparr>p_send := ch\<rparr> else q"])
    fix r' q assume "peers h r' = Some q"
    then show "p_id (if r' = r then q\<lparr>p_send := ch\<rparr> else q) = p_id q
      \<and> p_mac (if r' = r then q\<lparr>p_send := ch\<rparr> else q) = p_mac q
      \<and> peer_ok (if r' = r then q\<lparr>p_send := ch\<rparr> else q)"
      using hub_okD(5) [OF assms(1)] p send_queue.recv_bounded [OF that] by (auto simp: peer_ok_def)
  qed (auto simp: assms(1) map_option_idI)
  show ?thesis
    using assms p pop hub_ok_stop
    by (auto simp: write_step_def Let_def split: write_event.splits option.splits prod.splits if_splits)
qed

section \<open>Revocation\<close>

lemma stale_peers_iff:
  assumes "hub_ok h"
  shows "r \<in> set (stale_peers clients h) \<longleftrightarrow>
    (\<exists>p. map_of (byID h) (p_id p) = Some r \<and> peers h r = Some p \<and> \<not> still_authorized clients (p_id p) (p_mac p))"
proof
  assume "r \<in> set (stale_peers clients h)"
  then obtain i where i: "(i, r) \<in> set (byID h)"
    and st: "case peers h r of None \<Rightarrow> True | Some p \<Rightarrow> \<not> still_authorized clients i (p_mac p)"
    by (auto simp: stale_peers_def)
  then have m: "map_of (byID h) i = Some r" using hub_okD(1) [OF assms] by simp
  then obtain p where "peers h r = Some p" "p_id p = i" using hub_okD(3) [OF assms] by blast
  with m st show "\<exists>p. map_of (byID h) (p_id p) = Some r \<and> peers h r = Some p
      \<and> \<not> still_authorized clients (p_id p) (p_mac p)" by auto
next
  assume "\<exists>p. map_of (byID h) (p_id p) = Some r \<and> peers h r = Some p
      \<and> \<not> still_authorized clients (p_id p) (p_mac p)"
  then obtain p where "(p_id p, r) \<in> set (byID h)" "peers h r = Some p"
    "\<not> still_authorized clients (p_id p) (p_mac p)"
    using map_of_SomeD by metis
  then show "r \<in> set (stale_peers clients h)"
    by (force simp: stale_peers_def)
qed

lemma retainAuthorized_ok: "hub_ok h \<Longrightarrow> hub_ok (fst (retainAuthorized h clients))"
  by (simp add: retainAuthorized_def Let_def hub_ok_stops)

section \<open>Properties of forwarding\<close>

lemma receives_cong:
  "map_of (byID h1) = map_of (byID h2) \<Longrightarrow> map_of (byMAC h1) = map_of (byMAC h2) \<Longrightarrow>
     receives h1 s frame r = receives h2 s frame r"
  by (simp add: receives_def)

text \<open>
  C4. Delivery.  Forwarding a frame of at least the minimum size never panics; it
  leaves both tables alone and changes exactly the peers entitled to the frame:
  the registered owner of a unicast destination, or every registered peer when the
  destination is a group address or nobody's, and never the sender.  Each of them
  has the frame appended to its queue, or, when the queue is full, keeps its
  queue and counts one drop.
\<close>

theorem forward_delivers:
  assumes "hub_ok h" and "MinimumFrameSize \<le> length frame"
  shows "\<exists>h'. forward now h s frame = Some h' \<and> hub_ok h' \<and> byID h' = byID h \<and> byMAC h' = byMAC h
    \<and> (\<forall>r. \<not> receives h s frame r \<longrightarrow> peers h' r = peers h r)
    \<and> (\<forall>r p. receives h s frame r \<longrightarrow> peers h r = Some p \<longrightarrow>
         (\<exists>p'. peers h' r = Some p' \<and> p_id p' = p_id p \<and> p_mac p' = p_mac p \<and> p_stopOnce p' = p_stopOnce p \<and>
          (if length (ch_buf (p_send p)) < ch_cap (p_send p)
           then ch_buf (p_send p') = ch_buf (p_send p) @ [frame] \<and> p_dropped p' = p_dropped p
           else ch_buf (p_send p') = ch_buf (p_send p) \<and> p_dropped p' = p_dropped p + 1)))"
proof -
  obtain h' where h': "forward now h s frame = Some h'" "byID h' = byID h" "byMAC h' = byMAC h"
    "\<And>r. peers h' r = (if receives h s frame r then map_option (deliver frame (now r)) (peers h r) else peers h r)"
    "hub_ok h'" by (rule forward_Some [OF assms, of now s]) (rule that)
  then show ?thesis
    by (intro exI [of _ h']) (auto simp: send_queue.items_offer deliver_dropped)
qed

text \<open>
  C20. The order in which Go iterates over its maps cannot be observed: two hubs
  with the same tables as maps and the same peers are left with the same peers.
\<close>

theorem forward_order_irrelevant:
  assumes "hub_ok h1" and "hub_ok h2" and "map_of (byID h1) = map_of (byID h2)"
    and "map_of (byMAC h1) = map_of (byMAC h2)" and "peers h1 = peers h2"
    and "MinimumFrameSize \<le> length frame"
  shows "map_option peers (forward now h1 s frame) = map_option peers (forward now h2 s frame)"
proof -
  have rec: "receives h1 s frame r = receives h2 s frame r" for r
    using receives_cong assms(3,4) by blast
  obtain h1' where 1: "forward now h1 s frame = Some h1'" "\<And>r. peers h1' r =
      (if receives h1 s frame r then map_option (deliver frame (now r)) (peers h1 r) else peers h1 r)"
    by (rule forward_Some [OF assms(1,6), of now s]) (rule that)
  obtain h2' where 2: "forward now h2 s frame = Some h2'" "\<And>r. peers h2' r =
      (if receives h2 s frame r then map_option (deliver frame (now r)) (peers h2 r) else peers h2 r)"
    by (rule forward_Some [OF assms(2,6), of now s]) (rule that)
  have "peers h1' = peers h2'" using 1(2) 2(2) assms(5) rec by auto
  with 1(1) 2(1) show ?thesis by simp
qed

text \<open>
  C18. A session forwards only frames it is entitled to send: on any message
  that is not binary, is out of the size bounds, or carries a source address other
  than the one its identity is bound to, the read loop ends the session and the
  hub, with every queue in it, is what it was.
\<close>

theorem read_step_rejects:
  assumes "peers h r = Some p"
    and "t \<noteq> BinaryMessage \<or> length frame < MinimumFrameSize \<or> int (length frame) > mfs \<or> SourceMAC frame \<noteq> p_mac p"
  shows "readLoop mfs now h r (Some (t, frame) # ms) = Return h"
  using assms by (auto simp: read_step_def)

text \<open>A run of deliveries to one peer.\<close>

definition deliver_all :: "(bytes \<times> int) list \<Rightarrow> peer \<Rightarrow> peer" where
  "deliver_all fs p = fold (\<lambda>(frame, now). deliver frame now) fs p"

lemma deliver_all_queue:
  "p_send (deliver_all fs p) = foldl send_queue.offer (p_send p) (map fst fs)"
  unfolding deliver_all_def by (induction fs arbitrary: p) (auto simp: case_prod_beta)

lemma word_diff_Suc: "n < m \<Longrightarrow> (of_nat (m - n) :: 64 word) = of_nat (m - Suc n) + 1"
  by (metis Suc_diff_Suc add.commute of_nat_Suc)

lemma deliver_all_dropped:
  "peer_ok p \<Longrightarrow> p_dropped (deliver_all fs p) =
     p_dropped p + of_nat (length fs - (ch_cap (p_send p) - length (ch_buf (p_send p))))"
proof (induction fs arbitrary: p)
  case Nil
  then show ?case by (simp add: deliver_all_def)
next
  case (Cons x fs)
  obtain f t where x: "x = (f, t)" by (cases x)
  have "deliver_all (x # fs) p = deliver_all fs (deliver f t p)"
    by (simp add: deliver_all_def x)
  then have step: "p_dropped (deliver_all (x # fs) p) = p_dropped (deliver f t p) + of_nat (length fs
      - (ch_cap (p_send p) - length (ch_buf (send_queue.offer (p_send p) f))))"
    using Cons by simp
  show ?case
  proof (cases "length (ch_buf (p_send p)) < ch_cap (p_send p)")
    case True
    then have "length (x # fs) - (ch_cap (p_send p) - length (ch_buf (p_send p))) =
      length fs - (ch_cap (p_send p) - Suc (length (ch_buf (p_send p))))" by simp
    with True step show ?thesis by (simp add: deliver_dropped send_queue.items_offer)
  next
    case False
    with step show ?thesis by (simp add: deliver_dropped send_queue.items_offer)
  qed
qed

text \<open>
  Slow receivers.  Whatever is offered to a peer that nobody drains, in any
  number and at any times, its queue keeps what it held, takes the longest prefix
  of the new frames that fits its capacity, in order, and the 64-bit counter
  advances by exactly the number of frames lost.
\<close>

lemma slow_receiver:
  assumes "peer_ok p"
  shows "ch_buf (p_send (deliver_all fs p)) =
      ch_buf (p_send p) @ take (ch_cap (p_send p) - length (ch_buf (p_send p))) (map fst fs)
    \<and> p_dropped (deliver_all fs p) = p_dropped p + of_nat (length fs
        - (length (ch_buf (p_send (deliver_all fs p))) - length (ch_buf (p_send p))))"
proof -
  have q: "ch_buf (p_send (deliver_all fs p)) =
      ch_buf (p_send p) @ take (ch_cap (p_send p) - length (ch_buf (p_send p))) (map fst fs)"
    by (simp add: deliver_all_queue send_queue.items_offers)
  have "length fs - min (length fs) n = length fs - n" for n by simp
  with q show ?thesis by (simp add: deliver_all_dropped [OF assms])
qed

section \<open>Properties of drop reports\<close>

text \<open>
  The reports of a sequence of calls whose compare-and-swaps happen in the given
  order.  Each call comes with the value it had loaded, which other calls may have
  replaced since: every interleaving of concurrent calls is such a sequence.
\<close>

fun cas_reports :: "(int \<times> int) list \<Rightarrow> peer \<Rightarrow> int list" where
  "cas_reports [] p = []"
| "cas_reports ((loaded, now) # calls) p =
     (case noteDrop_cas loaded now p of
        (p', True) \<Rightarrow> now # cas_reports calls p'
      | (p', False) \<Rightarrow> cas_reports calls p')"

lemma noteDrop_cas_report:
  "noteDrop_cas loaded now p = (p', True) \<Longrightarrow>
     p_lastDropReport p + dropReportInterval \<le> now \<and> p_lastDropReport p' = now"
  by (auto simp: noteDrop_cas_def split: if_splits)

lemma noteDrop_cas_silent: "noteDrop_cas loaded now p = (p', False) \<Longrightarrow> p' = p"
  by (auto simp: noteDrop_cas_def split: if_splits)

lemma cas_reports_spaced:
  "sorted_wrt (\<lambda>t u. t + dropReportInterval \<le> u) (p_lastDropReport p # cas_reports calls p)"
proof (induction calls p rule: cas_reports.induct)
  case (1 p)
  then show ?case by simp
next
  case (2 loaded now calls p)
  obtain p' b where res: "noteDrop_cas loaded now p = (p', b)" by (cases "noteDrop_cas loaded now p")
  show ?case
  proof (cases b)
    case True
    with res have r: "p_lastDropReport p + dropReportInterval \<le> now" "p_lastDropReport p' = now"
      using noteDrop_cas_report [of loaded now p p'] by simp_all
    have "sorted_wrt (\<lambda>t u. t + dropReportInterval \<le> u) (now # cas_reports calls p')"
      using 2(1) [of p' True] res True r(2) by simp
    moreover have "0 \<le> dropReportInterval" by (simp add: dropReportInterval_def)
    ultimately show ?thesis using res True r(1) by fastforce
  next
    case False
    with res have "p' = p" using noteDrop_cas_silent [of loaded now p p'] by simp
    with 2(2) [of p' False] res False show ?thesis by simp
  qed
qed

text \<open>
  C21. Log volume.  However many frames are dropped for a peer, and however the
  calls of \<^verbatim>\<open>noteDrop\<close> interleave, two reports are never less than thirty seconds
  apart, and the first is thirty seconds after the value stored at the start.
\<close>

theorem drop_report_rate:
  "sorted_wrt (\<lambda>t u. t + 30000000000 \<le> u) (p_lastDropReport p # cas_reports calls p)"
  using cas_reports_spaced [of p calls] by (simp add: dropReportInterval_def)

text \<open>
  A drop is never silently forgotten: every call counts one, and it stays
  unreported only when a report was made less than thirty seconds before.
\<close>

lemma noteDrop_counts:
  "p_dropped (fst (noteDrop now p)) = p_dropped p + 1
     \<and> (snd (noteDrop now p) \<longleftrightarrow> p_lastDropReport p + 30000000000 \<le> now)
     \<and> p_lastDropReport (fst (noteDrop now p)) = (if snd (noteDrop now p) then now else p_lastDropReport p)"
  by (auto simp: noteDrop_def noteDrop_cas_def dropReportInterval_def Let_def)

section \<open>Properties of registration\<close>

lemma add_stops_iff:
  "q \<in> set (add_stops r a b) \<longleftrightarrow> q \<noteq> r \<and> (a = Some q \<or> b = Some q)"
  by (auto simp: add_stops_def split: option.splits)

text \<open>
  A new connection takes over.  Registering a peer cannot panic; afterwards
  its identity and its address belong to it, every other table entry is what it was,
  exactly the former owners of the identity and of the address are stopped (both, when
  they are different peers), and nothing else changes in any peer.
\<close>

lemma hub_add_takes_over:
  assumes "hub_ok h" and "peers h r = Some p" and "MACKey (p_mac p) = Some k"
  shows "\<exists>h'. hub_add h r = Some h' \<and> hub_ok h'
    \<and> map_of (byID h') = (map_of (byID h))(p_id p \<mapsto> r)
    \<and> map_of (byMAC h') = (map_of (byMAC h))(k \<mapsto> r)
    \<and> (\<forall>q. peers h' q =
          (if q \<noteq> r \<and> (map_of (byID h) (p_id p) = Some q \<or> map_of (byMAC h) k = Some q)
           then map_option peer_stop (peers h q) else peers h q))"
proof -
  obtain h' where h': "add_locked h r = Some (h', map_of (byID h) (p_id p), map_of (byMAC h) k)"
    "map_of (byID h') = (map_of (byID h))(p_id p \<mapsto> r)" "map_of (byMAC h') = (map_of (byMAC h))(k \<mapsto> r)"
    "peers h' = peers h" "hub_ok h'"
    by (rule add_locked_Some [OF assms(1,2)]) (use assms(3) in auto)
  then show ?thesis
    by (simp add: hub_add_def hub_ok_stops fold_stop_peers add_stops_iff)
qed

text \<open>
  Removal is owner-only: a handler that leaves deletes its own two table entries
  and no entry that a newer connection has taken over, so a replaced session cannot
  unregister its successor.
\<close>

lemma hub_remove_own:
  assumes "hub_ok h" and "peers h r = Some p"
  shows "\<exists>h'. hub_remove h r = Some h' \<and> hub_ok h' \<and> peers h' = peers h
    \<and> (\<forall>i. map_of (byID h') i = (if map_of (byID h) i = Some r then None else map_of (byID h) i))
    \<and> (\<forall>k. map_of (byMAC h') k = (if map_of (byMAC h) k = Some r then None else map_of (byMAC h) k))"
  by (rule hub_remove_Some [OF assms]) auto

text \<open>
  A configuration change disconnects exactly the registered peers whose identity is
  gone or bound to another address, leaves every other peer untouched, and reports
  their number.
\<close>

lemma retainAuthorized_exact:
  assumes "hub_ok h"
  shows "peers (fst (retainAuthorized h clients)) r =
      (case peers h r of
         None \<Rightarrow> None
       | Some p \<Rightarrow> Some (if map_of (byID h) (p_id p) = Some r \<and> \<not> still_authorized clients (p_id p) (p_mac p)
                         then peer_stop p else p))
    \<and> snd (retainAuthorized h clients) =
        card {r. \<exists>p. peers h r = Some p \<and> map_of (byID h) (p_id p) = Some r
                     \<and> \<not> still_authorized clients (p_id p) (p_mac p)}"
proof -
  have "distinct (stale_peers clients h)"
    using byID_refs_distinct [OF assms] by (simp add: stale_peers_def distinct_map_filter)
  then have "length (stale_peers clients h) = card (set (stale_peers clients h))"
    by (simp add: distinct_card)
  also have "set (stale_peers clients h) = {r. \<exists>p. peers h r = Some p \<and> map_of (byID h) (p_id p) = Some r
      \<and> \<not> still_authorized clients (p_id p) (p_mac p)}"
    using stale_peers_iff [OF assms] by auto
  finally show ?thesis
    using stale_peers_iff [OF assms, of r clients]
    by (auto simp: retainAuthorized_def Let_def fold_stop_peers split: option.splits)
qed

section \<open>The theorems at work\<close>

text \<open>A hub with two clients: \<^verbatim>\<open>a\<close> (reference 11, one queue slot left) and \<^verbatim>\<open>b\<close> (reference 12).\<close>

definition mac_a :: bytes where "mac_a = [2, 0, 0, 0, 0, 1]"
definition mac_b :: bytes where "mac_b = [2, 0, 0, 0, 0, 2]"

definition ex_client :: "string \<Rightarrow> bytes \<Rightarrow> authorizedClient" where
  "ex_client i mac = \<lparr>ac_id = i, ac_key = replicate 32 7, ac_mac = mac\<rparr>"

definition ex_hub :: hub where
  "ex_hub = \<lparr>byID = [(''a'', 11), (''b'', 12)], byMAC = [(the (MACKey mac_a), 11), (the (MACKey mac_b), 12)],
     peers = [11 \<mapsto> new_peer (ex_client ''a'' mac_a) 1 0, 12 \<mapsto> new_peer (ex_client ''b'' mac_b) 1 0,
              13 \<mapsto> new_peer (ex_client ''b'' mac_a) 1 0]\<rparr>"

definition ex_frame :: bytes where
  "ex_frame = mac_b @ mac_a @ [8, 0]"

lemma ex_MACKey: "MACKey mac_a = Some 0x020000000001" "MACKey mac_b = Some 0x020000000002"
  by code_simp+

lemma ex_hub_sel:
  "byID ex_hub = [(''a'', 11), (''b'', 12)]" "byMAC ex_hub = [(0x020000000001, 11), (0x020000000002, 12)]"
  "peers ex_hub 11 = Some (new_peer (ex_client ''a'' mac_a) 1 0)"
  "peers ex_hub 12 = Some (new_peer (ex_client ''b'' mac_b) 1 0)"
  "peers ex_hub 13 = Some (new_peer (ex_client ''b'' mac_a) 1 0)"
  by (simp_all add: ex_hub_def ex_MACKey)

lemma ex_peer_sel:
  "p_id (new_peer (ex_client i m) n t) = i" "p_mac (new_peer (ex_client i m) n t) = m"
  "p_send (new_peer (ex_client i m) n t) = \<lparr>ch_cap = n, ch_buf = []\<rparr>" "p_dropped (new_peer (ex_client i m) n t) = 0"
  "\<not> p_stopOnce (new_peer (ex_client i m) n t)"
  by (simp_all add: new_peer_def ex_client_def)

lemma ex_hub_ok: "hub_ok ex_hub"
proof -
  have "peer_ok (new_peer (ex_client i mac_a) 1 0)" "peer_ok (new_peer (ex_client i mac_b) 1 0)" for i
    by (simp_all add: peer_ok_new ex_client_def mac_a_def mac_b_def)
  then show ?thesis
    by (auto simp: hub_ok_def ex_hub_def ex_MACKey ex_peer_sel split: if_splits)
qed

lemma ex_frame_ok: "MinimumFrameSize \<le> length ex_frame"
  by (simp add: ex_frame_def mac_a_def mac_b_def MinimumFrameSize_def)

lemma ex_receives: "receives ex_hub 11 ex_frame r \<longleftrightarrow> r = 12"
proof -
  have "DestinationMAC ex_frame = mac_b" by code_simp
  moreover have "\<not> IsGroupMAC mac_b" by code_simp
  ultimately show ?thesis by (auto simp: receives_def ex_MACKey ex_hub_sel)
qed

theorem forward_delivers_witness:
  "\<exists>h' p'. forward (\<lambda>_. 0) ex_hub 11 ex_frame = Some h' \<and> peers h' 12 = Some p'
     \<and> ch_buf (p_send p') = [ex_frame] \<and> peers h' 11 = peers ex_hub 11"
  using forward_delivers [OF ex_hub_ok ex_frame_ok, of "\<lambda>_. 0" 11]
  by (auto simp: ex_receives ex_hub_sel ex_peer_sel)

definition ex_hub_rev :: hub where
  "ex_hub_rev = ex_hub\<lparr>byID := rev (byID ex_hub)\<rparr>"

lemma ex_hub_rev_ids: "map_of (byID ex_hub_rev) = map_of (byID ex_hub)"
  by (auto simp: ex_hub_rev_def ex_hub_sel)

lemma ex_hub_rev_ok: "hub_ok ex_hub_rev"
  using ex_hub_ok ex_hub_rev_ids unfolding hub_ok_def by (simp add: ex_hub_rev_def ex_hub_sel)

theorem forward_order_irrelevant_witness:
  "map_option peers (forward (\<lambda>_. 0) ex_hub 11 ex_frame) = map_option peers (forward (\<lambda>_. 0) ex_hub_rev 11 ex_frame)"
  by (rule forward_order_irrelevant [OF ex_hub_ok ex_hub_rev_ok ex_hub_rev_ids [symmetric] _ _ ex_frame_ok])
    (simp_all add: ex_hub_rev_def)

theorem read_step_rejects_witness:
  "readLoop 1600 (\<lambda>_. 0) ex_hub 12 [Some (BinaryMessage, ex_frame)] = Return ex_hub"
proof -
  have "SourceMAC ex_frame \<noteq> mac_b" by code_simp
  then show ?thesis using read_step_rejects [OF ex_hub_sel(4)] by (simp add: ex_peer_sel)
qed

end
