(* ===== verification/Relay_Server.thy ===== *)
theory Relay_Server
  imports Relay_Hub
begin

text \<open>
  \<^verbatim>\<open>internal/relay/relay.go\<close>, the server: construction (\<^verbatim>\<open>New\<close>), the connection
  handler (\<^verbatim>\<open>handleWebSocket\<close>), and \<^verbatim>\<open>Reload\<close>, running concurrently.

  Every connection is a goroutine.  \<open>relay_step\<close> interleaves all of them with the
  reload loop; one step is one critical section of the source, or one call on a
  peer outside any lock.  A handler's position in \<^verbatim>\<open>handleWebSocket\<close> is its \<open>phase\<close>;
  its reference is also the reference of the peer object it allocates.  Reloads
  run one at a time, in the loop of \<^verbatim>\<open>ListenAndServe\<close>.
\<close>

section \<open>Server state\<close>

record Server =
  s_cfg :: Relay
  s_clients :: "string \<rightharpoonup> authorizedClient"
  s_hub :: hub
  s_handshake :: int
  s_idle :: int
  s_authSlots :: nat
  s_authCap :: nat

definition relay_New :: "Relay \<Rightarrow> Server res" where
  "relay_New cfg =
     (let maxPendingHandshakes = (if r_MaxPendingHandshakes cfg = 0 then 32 else r_MaxPendingHandshakes cfg) in
      and_then (authorizedClients cfg) (\<lambda>clients.
      Inr \<lparr>s_cfg = cfg, s_clients = clients, s_hub = newHub,
           s_handshake = r_HandshakeTimeoutMS cfg * 10 ^ 6, s_idle = r_IdleTimeoutMS cfg * 10 ^ 6,
           s_authSlots = 0, s_authCap = nat maxPendingHandshakes\<rparr>))"

definition authorized :: "Server \<Rightarrow> string \<Rightarrow> authorizedClient option" where
  "authorized s cid = s_clients s cid"

text \<open>The sequential meaning of \<^verbatim>\<open>Reload\<close>, when nothing else runs.\<close>

definition Reload :: "Server \<Rightarrow> Relay \<Rightarrow> Server res" where
  "Reload s cfg =
     and_then (authorizedClients cfg) (\<lambda>clients.
     Inr (s\<lparr>s_clients := clients, s_hub := fst (retainAuthorized (s_hub s) clients)\<rparr>))"

text \<open>The non-blocking send on \<^verbatim>\<open>authSlots\<close>, and the receive that gives the slot back.\<close>

definition acquire_slot :: "Server \<Rightarrow> Server option" where
  "acquire_slot s =
     (if s_authSlots s < s_authCap s then Some (s\<lparr>s_authSlots := s_authSlots s + 1\<rparr>) else None)"

definition release_slot :: "Server \<Rightarrow> Server" where
  "release_slot s = s\<lparr>s_authSlots := s_authSlots s - 1\<rparr>"

text \<open>The health endpoint: the status for a request method.\<close>

definition health_status :: "string \<Rightarrow> nat" where
  "health_status verb = (if verb \<noteq> ''GET'' then 405 else 200)"

section \<open>Interleaved execution\<close>

datatype phase =
    Handshake
  | Verifying authorizedClient string bytes
  | Authenticated authorizedClient
  | Registering
  | Stopping "ref list"
  | Rechecking
  | Running
  | Leaving
  | Removed
  | Finished

datatype reload_phase =
    Idle
  | Swapped "string \<rightharpoonup> authorizedClient"
  | Disconnecting "ref list"

record system =
  srv :: Server
  phases :: "ref \<rightharpoonup> phase"
  writers :: "ref set"
  reload :: reload_phase

definition set_hub :: "hub \<Rightarrow> system \<Rightarrow> system" where
  "set_hub h S = S\<lparr>srv := (srv S)\<lparr>s_hub := h\<rparr>\<rparr>"

definition goto :: "ref \<Rightarrow> phase \<Rightarrow> system \<Rightarrow> system" where
  "goto r ph S = S\<lparr>phases := (phases S)(r \<mapsto> ph)\<rparr>"

abbreviation hub_of :: "system \<Rightarrow> hub" where
  "hub_of S \<equiv> s_hub (srv S)"

text \<open>
  A channel of negative size is a panic in Go, so the sizes of the configuration are
  required to be natural numbers here; \<^verbatim>\<open>LoadRelay\<close> accepts no others.
\<close>

definition relay_init :: "system \<Rightarrow> bool" where
  "relay_init S \<longleftrightarrow> (\<exists>cfg s. 0 \<le> r_MaxPendingHandshakes cfg \<and> 0 \<le> r_ClientQueueSize cfg
       \<and> relay_New cfg = Inr s \<and> srv S = s)
     \<and> phases S = Map.empty \<and> writers S = {} \<and> reload S = Idle"

inductive relay_step :: "system \<Rightarrow> system \<Rightarrow> bool" where
  accept: "phases S r = None \<Longrightarrow> acquire_slot (srv S) = Some s' \<Longrightarrow>
     relay_step S (goto r Handshake (S\<lparr>srv := s'\<rparr>))"
| reject: "phases S r = Some Handshake \<or> (\<exists>c i ch. phases S r = Some (Verifying c i ch)) \<Longrightarrow>
     relay_step S (goto r Finished (S\<lparr>srv := release_slot (srv S)\<rparr>))"
| lookup: "phases S r = Some Handshake \<Longrightarrow> ParseHello hello = Inr cid \<Longrightarrow>
     authorized (srv S) cid = Some client \<Longrightarrow> length challenge = ChallengeSize \<Longrightarrow>
     relay_step S (goto r (Verifying client cid challenge) S)"
| verify: "phases S r = Some (Verifying client cid challenge) \<Longrightarrow>
     VerifyProof (ac_key client) challenge cid (ac_mac client) pf \<Longrightarrow>
     relay_step S (goto r (Authenticated client) S)"
| admit: "phases S r = Some (Authenticated client) \<Longrightarrow>
     p = new_peer client (nat (r_ClientQueueSize (s_cfg (srv S)))) (s_idle (srv S)) \<Longrightarrow>
     relay_step S (goto r Registering
       (set_hub ((hub_of S)\<lparr>peers := (peers (hub_of S))(r \<mapsto> p)\<rparr>) (S\<lparr>srv := release_slot (srv S)\<rparr>)))"
| add: "phases S r = Some Registering \<Longrightarrow> add_locked (hub_of S) r = Some (h', oldByID, oldByMAC) \<Longrightarrow>
     relay_step S (goto r (Stopping (add_stops r oldByID oldByMAC)) (set_hub h' S))"
| add_stop: "phases S r = Some (Stopping (q # qs)) \<Longrightarrow>
     relay_step S (goto r (Stopping qs) (set_hub (stop_ref q (hub_of S)) S))"
| added: "phases S r = Some (Stopping []) \<Longrightarrow> relay_step S (goto r Rechecking S)"
| recheck_ok: "phases S r = Some Rechecking \<Longrightarrow> peers (hub_of S) r = Some p \<Longrightarrow>
     still_authorized (s_clients (srv S)) (p_id p) (p_mac p) \<Longrightarrow>
     relay_step S (goto r Running (S\<lparr>writers := insert r (writers S)\<rparr>))"
| recheck_revoked: "phases S r = Some Rechecking \<Longrightarrow> peers (hub_of S) r = Some p \<Longrightarrow>
     \<not> still_authorized (s_clients (srv S)) (p_id p) (p_mac p) \<Longrightarrow>
     relay_step S (goto r Leaving S)"
| read_frame: "phases S r = Some Running \<Longrightarrow>
     read_step (r_MaxFrameSize (s_cfg (srv S))) now (hub_of S) r msg = Continue h' \<Longrightarrow>
     relay_step S (set_hub h' S)"
| read_end: "phases S r = Some Running \<Longrightarrow>
     read_step (r_MaxFrameSize (s_cfg (srv S))) now (hub_of S) r msg = Return h' \<Longrightarrow>
     relay_step S (goto r Leaving (set_hub h' S))"
| write_out: "r \<in> writers S \<Longrightarrow> write_step (hub_of S) r ev = Some (h', sent, goes_on) \<Longrightarrow>
     relay_step S (set_hub h' (S\<lparr>writers := (if goes_on then writers S else writers S - {r})\<rparr>))"
| remove: "phases S r = Some Leaving \<Longrightarrow> hub_remove (hub_of S) r = Some h' \<Longrightarrow>
     relay_step S (goto r Removed (set_hub h' S))"
| stop: "phases S r = Some Removed \<Longrightarrow>
     relay_step S (goto r Finished (set_hub (stop_ref r (hub_of S)) S))"
| reload_swap: "reload S = Idle \<Longrightarrow> authorizedClients cfg = Inr m \<Longrightarrow>
     relay_step S (S\<lparr>srv := (srv S)\<lparr>s_clients := m\<rparr>, reload := Swapped m\<rparr>)"
| reload_collect: "reload S = Swapped m \<Longrightarrow>
     relay_step S (S\<lparr>reload := Disconnecting (stale_peers m (hub_of S))\<rparr>)"
| reload_stop: "reload S = Disconnecting (q # qs) \<Longrightarrow>
     relay_step S (set_hub (stop_ref q (hub_of S)) (S\<lparr>reload := Disconnecting qs\<rparr>))"
| reload_done: "reload S = Disconnecting [] \<Longrightarrow> relay_step S (S\<lparr>reload := Idle\<rparr>)"

inductive_cases relay_stepE: "relay_step S T"

section \<open>Invariants\<close>

fun holds_slot :: "phase \<Rightarrow> bool" where
  "holds_slot Handshake = True"
| "holds_slot (Verifying _ _ _) = True"
| "holds_slot (Authenticated _) = True"
| "holds_slot _ = False"

fun has_peer :: "phase \<Rightarrow> bool" where
  "has_peer Registering = True"
| "has_peer (Stopping _) = True"
| "has_peer Rechecking = True"
| "has_peer Running = True"
| "has_peer Leaving = True"
| "has_peer Removed = True"
| "has_peer _ = False"

fun on_table :: "phase \<Rightarrow> bool" where
  "on_table (Stopping _) = True"
| "on_table Rechecking = True"
| "on_table Running = True"
| "on_table Leaving = True"
| "on_table _ = False"

fun in_session :: "phase \<Rightarrow> bool" where
  "in_session (Stopping _) = True"
| "in_session Rechecking = True"
| "in_session Running = True"
| "in_session _ = False"

fun client_of_phase :: "phase \<Rightarrow> authorizedClient option" where
  "client_of_phase (Verifying c _ _) = Some c"
| "client_of_phase (Authenticated c) = Some c"
| "client_of_phase _ = None"

text \<open>Objects and handlers agree, and every address in the system has six bytes.\<close>

definition inv_store :: "system \<Rightarrow> bool" where
  "inv_store S \<longleftrightarrow> hub_ok (hub_of S) \<and> auth_map_ok (s_clients (srv S))
     \<and> (\<forall>r ph. phases S r = Some ph \<longrightarrow> has_peer ph \<longrightarrow> peers (hub_of S) r \<noteq> None)
     \<and> (\<forall>r ph. phases S r = Some ph \<longrightarrow> holds_slot ph \<longrightarrow> peers (hub_of S) r = None)
     \<and> (\<forall>r. phases S r = None \<longrightarrow> peers (hub_of S) r = None)
     \<and> (\<forall>r ph c. phases S r = Some ph \<longrightarrow> client_of_phase ph = Some c \<longrightarrow> length (ac_mac c) = 6)
     \<and> (\<forall>m. reload S = Swapped m \<longrightarrow> s_clients (srv S) = m)"

text \<open>The slot counter counts the handlers that hold a slot.\<close>

definition holders :: "system \<Rightarrow> ref set" where
  "holders S = {r. \<exists>ph. phases S r = Some ph \<and> holds_slot ph}"

definition inv_slots :: "system \<Rightarrow> bool" where
  "inv_slots S \<longleftrightarrow> finite (holders S) \<and> s_authSlots (srv S) = card (holders S)
     \<and> s_authSlots (srv S) \<le> s_authCap (srv S)"

text \<open>Only handlers between \<^verbatim>\<open>hub.add\<close> and \<^verbatim>\<open>hub.remove\<close> are in the tables.\<close>

definition inv_tables :: "system \<Rightarrow> bool" where
  "inv_tables S \<longleftrightarrow>
     (\<forall>i r. map_of (byID (hub_of S)) i = Some r \<longrightarrow> (\<exists>ph. phases S r = Some ph \<and> on_table ph))
     \<and> (\<forall>k r. map_of (byMAC (hub_of S)) k = Some r \<longrightarrow> (\<exists>ph. phases S r = Some ph \<and> on_table ph))"

text \<open>A peer that some \<^verbatim>\<open>hub.add\<close> has replaced and is about to stop.\<close>

definition superseded :: "system \<Rightarrow> ref \<Rightarrow> bool" where
  "superseded S r \<longleftrightarrow> (\<exists>q l. phases S q = Some (Stopping l) \<and> r \<in> set l)"

definition live :: "system \<Rightarrow> ref \<Rightarrow> peer \<Rightarrow> bool" where
  "live S r p \<longleftrightarrow> peers (hub_of S) r = Some p \<and> \<not> p_stopOnce p"

definition inv_current :: "system \<Rightarrow> bool" where
  "inv_current S \<longleftrightarrow>
     (\<forall>r ph p. phases S r = Some ph \<longrightarrow> in_session ph \<longrightarrow> live S r p \<longrightarrow>
        map_of (byID (hub_of S)) (p_id p) = Some r \<or> superseded S r)"

definition inv_revoked :: "system \<Rightarrow> bool" where
  "inv_revoked S \<longleftrightarrow>
     (\<forall>r p. phases S r = Some Running \<longrightarrow> live S r p \<longrightarrow> map_of (byID (hub_of S)) (p_id p) = Some r \<longrightarrow>
        still_authorized (s_clients (srv S)) (p_id p) (p_mac p)
        \<or> (\<exists>m. reload S = Swapped m) \<or> (\<exists>l. reload S = Disconnecting l \<and> r \<in> set l))"

section \<open>Frames of the steps\<close>

lemma goto_sel [simp]:
  "srv (goto r ph S) = srv S" "phases (goto r ph S) = (phases S)(r \<mapsto> ph)"
  "writers (goto r ph S) = writers S" "reload (goto r ph S) = reload S"
  by (simp_all add: goto_def)

lemma set_hub_sel [simp]:
  "s_hub (srv (set_hub h S)) = h" "s_clients (srv (set_hub h S)) = s_clients (srv S)"
  "s_cfg (srv (set_hub h S)) = s_cfg (srv S)" "s_authSlots (srv (set_hub h S)) = s_authSlots (srv S)"
  "s_authCap (srv (set_hub h S)) = s_authCap (srv S)"
  "phases (set_hub h S) = phases S" "writers (set_hub h S) = writers S" "reload (set_hub h S) = reload S"
  by (simp_all add: set_hub_def)

lemma slot_sel [simp]:
  "s_hub (release_slot s) = s_hub s" "s_clients (release_slot s) = s_clients s"
  "s_cfg (release_slot s) = s_cfg s" "s_authCap (release_slot s) = s_authCap s"
  "s_authSlots (release_slot s) = s_authSlots s - 1"
  by (simp_all add: release_slot_def)

lemma acquire_slot_Some:
  "acquire_slot s = Some s' \<Longrightarrow> s_hub s' = s_hub s \<and> s_clients s' = s_clients s \<and> s_cfg s' = s_cfg s
     \<and> s_authCap s' = s_authCap s \<and> s_authSlots s' = s_authSlots s + 1 \<and> s_authSlots s < s_authCap s"
  by (auto simp: acquire_slot_def split: if_splits)

text \<open>
  Steps other than registration and removal leave the tables alone, allocate
  nothing, keep identities and addresses, and never revive a stopped peer.
\<close>

definition evolves :: "hub \<Rightarrow> hub \<Rightarrow> bool" where
  "evolves h h' \<longleftrightarrow> byID h' = byID h \<and> byMAC h' = byMAC h
     \<and> (\<forall>r p'. peers h' r = Some p' \<longrightarrow>
          (\<exists>p. peers h r = Some p \<and> p_id p' = p_id p \<and> p_mac p' = p_mac p \<and> (p_stopOnce p \<longrightarrow> p_stopOnce p')))
     \<and> (\<forall>r. peers h r \<noteq> None \<longrightarrow> peers h' r \<noteq> None)"

lemma evolvesI:
  assumes "byID h' = byID h" and "byMAC h' = byMAC h"
    and "\<And>r. peers h' r = map_option (f r) (peers h r)"
    and "\<And>r p. p_id (f r p) = p_id p \<and> p_mac (f r p) = p_mac p \<and> (p_stopOnce p \<longrightarrow> p_stopOnce (f r p))"
  shows "evolves h h'"
  using assms by (auto simp: evolves_def)

lemma evolves_stop: "evolves h (stop_ref q h)"
  by (rule evolvesI [where f = "\<lambda>r p. if r = q then peer_stop p else p"]) (auto simp: map_option_idI)

lemma evolves_read:
  assumes "hub_ok h" and "read_step mfs now h r msg = Continue h'"
  shows "evolves h h'"
proof -
  from assms(2) obtain frame where "MinimumFrameSize \<le> length frame" "forward now h r frame = Some h'"
    by (auto simp: read_step_def not_less split: option.splits if_splits)
  with forward_Some [OF assms(1) this(1), of now r] have "byID h' = byID h" "byMAC h' = byMAC h"
    "\<And>q. peers h' q = (if receives h r frame q then map_option (deliver frame (now q)) (peers h q) else peers h q)"
    by (metis option.inject)+
  then show ?thesis
    by (intro evolvesI [where f = "\<lambda>q p. if receives h r frame q then deliver frame (now q) p else p"])
      (auto simp: map_option_idI)
qed

lemma evolves_write:
  assumes "write_step h r ev = Some (h', m, b)"
  shows "evolves h h'"
proof -
  have "evolves h (upd_peer r (\<lambda>q. q\<lparr>p_send := ch\<rparr>) h)" for ch
    by (rule evolvesI [where f = "\<lambda>q p. if q = r then p\<lparr>p_send := ch\<rparr> else p"]) (auto simp: map_option_idI)
  moreover have "evolves h (stop_ref r (upd_peer r (\<lambda>q. q\<lparr>p_send := ch\<rparr>) h))" for ch
    by (rule evolvesI [where f = "\<lambda>q p. if q = r then peer_stop (p\<lparr>p_send := ch\<rparr>) else p"])
      (auto simp: map_option_idI option.map_comp comp_def)
  moreover have "evolves h h" by (auto simp: evolves_def)
  ultimately show ?thesis
    using assms evolves_stop [of h r]
    by (auto simp: write_step_def Let_def split: option.splits write_event.splits prod.splits if_splits)
qed

lemma evolves_tables: "evolves h h' \<Longrightarrow> byID h' = byID h \<and> byMAC h' = byMAC h"
  by (simp add: evolves_def)

lemma evolves_back:
  "evolves h h' \<Longrightarrow> peers h' r = Some p' \<Longrightarrow>
     \<exists>p. peers h r = Some p \<and> p_id p' = p_id p \<and> p_mac p' = p_mac p \<and> (p_stopOnce p \<longrightarrow> p_stopOnce p')"
  by (auto simp: evolves_def)

lemma evolves_None: "evolves h h' \<Longrightarrow> peers h' r = None \<longleftrightarrow> peers h r = None"
  unfolding evolves_def by (metis not_None_eq)

section \<open>Store invariant\<close>

lemma inv_storeD:
  assumes "inv_store S"
  shows "hub_ok (hub_of S)" "auth_map_ok (s_clients (srv S))"
    and "phases S r = Some ph \<Longrightarrow> has_peer ph \<Longrightarrow> \<exists>p. peers (hub_of S) r = Some p"
    and "phases S r = Some ph \<Longrightarrow> holds_slot ph \<Longrightarrow> peers (hub_of S) r = None"
    and "phases S r = None \<Longrightarrow> peers (hub_of S) r = None"
    and "phases S r = Some ph \<Longrightarrow> client_of_phase ph = Some c \<Longrightarrow> length (ac_mac c) = 6"
    and "reload S = Swapped m \<Longrightarrow> s_clients (srv S) = m"
  using assms unfolding inv_store_def by auto

lemma relay_New_Inr:
  "relay_New cfg = Inr s \<Longrightarrow> s_hub s = newHub \<and> auth_map_ok (s_clients s) \<and> s_authSlots s = 0"
  by (auto simp: relay_New_def Let_def wsn_res dest: authorizedClients_ok)

lemma inv_store_init: "relay_init S \<Longrightarrow> inv_store S"
proof -
  assume init: "relay_init S"
  then have "s_hub (srv S) = newHub" "auth_map_ok (s_clients (srv S))" "phases S = Map.empty" "reload S = Idle"
    using relay_New_Inr by (auto simp: relay_init_def)
  then show ?thesis by (simp add: inv_store_def newHub_ok) (simp add: newHub_def)
qed

text \<open>Steps that only move one handler, and steps that only change objects.\<close>

lemma inv_store_goto:
  assumes "inv_store S" and "phases S r = Some ph0" and "has_peer ph = has_peer ph0"
    and "holds_slot ph \<Longrightarrow> holds_slot ph0"
    and "\<And>c. client_of_phase ph = Some c \<Longrightarrow> length (ac_mac c) = 6"
  shows "inv_store (goto r ph S)"
  using assms unfolding inv_store_def by auto

lemma inv_store_hub:
  assumes "inv_store S" and "hub_ok h'" and "\<And>r. peers h' r = None \<longleftrightarrow> peers (hub_of S) r = None"
  shows "inv_store (set_hub h' S)"
  using assms unfolding inv_store_def by auto

lemma inv_store_evolves:
  "inv_store S \<Longrightarrow> hub_ok h' \<Longrightarrow> evolves (hub_of S) h' \<Longrightarrow> inv_store (set_hub h' S)"
  by (erule inv_store_hub) (auto simp: evolves_None)

lemma inv_store_step: "inv_store S \<Longrightarrow> relay_step S T \<Longrightarrow> inv_store T"
proof -
  assume inv: "inv_store S" and "relay_step S T"
  note ok = inv_storeD(1) [OF inv]
  from \<open>relay_step S T\<close> show ?thesis
  proof cases
    case (accept r s')
    then show ?thesis
      using inv acquire_slot_Some [OF accept(3)] unfolding inv_store_def by auto
  next
    case (reject r)
    then show ?thesis using inv unfolding inv_store_def by auto
  next
    case (lookup r hello cid client challenge)
    then show ?thesis
      using inv auth_map_okD(4) [OF inv_storeD(2) [OF inv]]
      by (auto simp: authorized_def intro!: inv_store_goto)
  next
    case (verify r client cid challenge pf)
    then show ?thesis
      using inv inv_storeD(6) [OF inv verify(2)] by (auto intro!: inv_store_goto)
  next
    case (admit r client p)
    have "peers (hub_of S) r = None" "length (ac_mac client) = 6"
      using inv_storeD(4,6) [OF inv admit(2)] by simp_all
    then have "hub_ok ((hub_of S)\<lparr>peers := (peers (hub_of S))(r \<mapsto> p)\<rparr>)"
      using hub_ok_alloc [OF ok] peer_ok_new admit(3) by blast
    then show ?thesis using inv admit unfolding inv_store_def by auto
  next
    case (add r h' oldByID oldByMAC)
    then show ?thesis
      using inv add_locked_ok [OF ok add(3)] by (auto intro!: inv_store_goto inv_store_hub)
  next
    case (add_stop r q qs)
    then show ?thesis
      using inv hub_ok_stop [OF ok] evolves_stop by (auto intro!: inv_store_goto inv_store_evolves)
  next
    case (read_frame r now msg h')
    then show ?thesis
      using inv read_step_ok(2) [OF ok] inv_storeD(3) [OF inv read_frame(2)] evolves_read [OF ok]
      by (auto intro!: inv_store_evolves)
  next
    case (read_end r now msg h')
    obtain p where "peers (hub_of S) r = Some p" using inv_storeD(3) [OF inv read_end(2)] by auto
    then have "h' = hub_of S" using read_step_ok(3) [OF ok] read_end(3) by blast
    then show ?thesis using inv read_end ok by (auto intro!: inv_store_goto inv_store_hub)
  next
    case (write_out r ev h' sent goes_on)
    then show ?thesis
      using inv write_step_ok [OF ok write_out(3)] evolves_None [OF evolves_write [OF write_out(3)]]
      unfolding inv_store_def by auto
  next
    case (remove r h')
    then show ?thesis
      using inv hub_remove_Some [OF ok] inv_storeD(3) [OF inv remove(2)]
      by (auto intro!: inv_store_goto inv_store_hub) (metis option.inject)+
  next
    case (stop r)
    then show ?thesis
      using inv hub_ok_stop [OF ok, of r] unfolding inv_store_def by auto
  next
    case (reload_swap cfg m)
    then show ?thesis using inv authorizedClients_ok unfolding inv_store_def by auto
  next
    case (reload_stop q qs)
    then show ?thesis
      using inv hub_ok_stop [OF ok, of q] unfolding inv_store_def by auto
  qed (use inv in \<open>auto simp: inv_store_def\<close>)
qed

section \<open>Slot accounting\<close>

lemma holders_goto:
  "holders (goto r ph S) = (if holds_slot ph then insert r (holders S) else holders S - {r})"
  by (auto simp: holders_def)

lemma holders_cong: "phases S = phases S' \<Longrightarrow> holders S = holders S'"
  by (simp add: holders_def)

lemma holders_mem: "phases S r = Some ph \<Longrightarrow> r \<in> holders S \<longleftrightarrow> holds_slot ph"
  by (simp add: holders_def)

lemma holders_None: "phases S r = None \<Longrightarrow> r \<notin> holders S"
  by (simp add: holders_def)

lemma holders_sel [simp]:
  "holders (set_hub h S) = holders S" "holders (S\<lparr>srv := s\<rparr>) = holders S"
  "holders (S\<lparr>writers := w\<rparr>) = holders S" "holders (S\<lparr>reload := l\<rparr>) = holders S"
  "holders (S\<lparr>srv := s, reload := l\<rparr>) = holders S"
  by (simp_all add: holders_def)

lemma inv_slots_init: "relay_init S \<Longrightarrow> inv_slots S"
  using relay_New_Inr by (auto simp: relay_init_def inv_slots_def holders_def)

lemma inv_slots_step: "inv_slots S \<Longrightarrow> relay_step S T \<Longrightarrow> inv_slots T"
proof -
  assume inv: "inv_slots S" and "relay_step S T"
  have rel: "card (holders S - {r}) = card (holders S) - 1" if "r \<in> holders S" for r
    using that inv by (simp add: inv_slots_def)
  from \<open>relay_step S T\<close> show ?thesis
  proof cases
    case (accept r s')
    then show ?thesis
      using inv acquire_slot_Some [OF accept(3)] holders_None [OF accept(2)]
      by (auto simp: inv_slots_def holders_goto)
  next
    case (reject r)
    then have "r \<in> holders S" by (auto simp: holders_def)
    with reject show ?thesis using inv rel by (auto simp: inv_slots_def holders_goto)
  next
    case (admit r client p)
    then have "r \<in> holders S" by (auto simp: holders_def)
    with admit show ?thesis using inv rel by (auto simp: inv_slots_def holders_goto)
  qed (use inv in \<open>auto simp: inv_slots_def holders_goto holders_mem insert_absorb\<close>)
qed

section \<open>Table invariant\<close>

lemma inv_tables_init: "relay_init S \<Longrightarrow> inv_tables S"
  using relay_New_Inr by (auto simp: relay_init_def inv_tables_def newHub_def)

lemma inv_tables_same:
  assumes "inv_tables S" and "byID (hub_of T) = byID (hub_of S)" and "byMAC (hub_of T) = byMAC (hub_of S)"
    and "\<And>q ph. phases S q = Some ph \<Longrightarrow> on_table ph \<Longrightarrow> \<exists>ph'. phases T q = Some ph' \<and> on_table ph'"
  shows "inv_tables T"
  using assms unfolding inv_tables_def by metis

lemma inv_tables_step:
  assumes store: "inv_store S" and inv: "inv_tables S" and step: "relay_step S T"
  shows "inv_tables T"
proof -
  note ok = inv_storeD(1) [OF store]
  from step show ?thesis
  proof cases
    case (accept r s')
    then show ?thesis
      using acquire_slot_Some [OF accept(3)] by (intro inv_tables_same [OF inv]) auto
  next
    case (add r h' oldByID oldByMAC)
    obtain p where p: "peers (hub_of S) r = Some p" using inv_storeD(3) [OF store add(2)] by auto
    obtain k h where "add_locked (hub_of S) r = Some (h, map_of (byID (hub_of S)) (p_id p), map_of (byMAC (hub_of S)) k)"
      "map_of (byID h) = (map_of (byID (hub_of S)))(p_id p \<mapsto> r)"
      "map_of (byMAC h) = (map_of (byMAC (hub_of S)))(k \<mapsto> r)"
      using add_locked_Some [OF ok p] by metis
    with add show ?thesis using inv by (auto simp: inv_tables_def)
  next
    case (read_frame r now msg h')
    then show ?thesis
      using evolves_tables [OF evolves_read [OF ok read_frame(3)]] by (intro inv_tables_same [OF inv]) auto
  next
    case (read_end r now msg h')
    obtain p where "peers (hub_of S) r = Some p" using inv_storeD(3) [OF store read_end(2)] by auto
    then have "h' = hub_of S" using read_step_ok(3) [OF ok] read_end(3) by blast
    with read_end show ?thesis by (intro inv_tables_same [OF inv]) auto
  next
    case (write_out r ev h' sent goes_on)
    then show ?thesis
      using evolves_tables [OF evolves_write [OF write_out(3)]] by (intro inv_tables_same [OF inv]) auto
  next
    case (remove r h')
    note h = hub_removeD [OF ok remove(3)]
    have "map_of (byID h') i = Some q \<Longrightarrow> map_of (byID (hub_of S)) i = Some q \<and> q \<noteq> r"
      "map_of (byMAC h') k = Some q \<Longrightarrow> map_of (byMAC (hub_of S)) k = Some q \<and> q \<noteq> r" for i k q
      using h by (auto split: if_splits)
    then show ?thesis using inv unfolding remove(1) inv_tables_def by (metis goto_sel(1,2) set_hub_sel(1,6) fun_upd_other)
  next
    case (stop r)
    then show ?thesis by (intro inv_tables_same [OF inv]) auto
  qed (intro inv_tables_same [OF inv]; auto)+
qed

section \<open>Current sessions\<close>

lemma live_evolves:
  assumes "evolves (hub_of S) (hub_of T)" and "live T r p'"
  obtains p where "live S r p" "p_id p' = p_id p" "p_mac p' = p_mac p"
  using evolves_back [OF assms(1)] assms(2) unfolding live_def by (metis (no_types, lifting))

lemma live_stop: "\<not> live (set_hub (stop_ref q h) S) q p"
  by (auto simp: live_def)

lemma evolves_refl [simp]: "evolves h h"
  by (simp add: evolves_def)

lemma superseded_goto:
  assumes "superseded S q" and "\<And>l. phases S r = Some (Stopping l) \<Longrightarrow> q \<notin> set l"
  shows "superseded (goto r ph S) q"
proof -
  from assms(1) obtain q' l where "phases S q' = Some (Stopping l)" "q \<in> set l"
    by (auto simp: superseded_def)
  with assms(2) have "phases (goto r ph S) q' = Some (Stopping l)" by auto
  with \<open>q \<in> set l\<close> show ?thesis unfolding superseded_def by blast
qed

lemma superseded_sel [simp]:
  "superseded (set_hub h S) r = superseded S r" "superseded (S\<lparr>srv := s\<rparr>) r = superseded S r"
  "superseded (S\<lparr>writers := w\<rparr>) r = superseded S r" "superseded (S\<lparr>reload := l\<rparr>) r = superseded S r"
  "superseded (S\<lparr>srv := s, reload := l\<rparr>) r = superseded S r"
  by (simp_all add: superseded_def)

lemma inv_currentD:
  "inv_current S \<Longrightarrow> phases S r = Some ph \<Longrightarrow> in_session ph \<Longrightarrow> live S r p \<Longrightarrow>
     map_of (byID (hub_of S)) (p_id p) = Some r \<or> superseded S r"
  unfolding inv_current_def by blast

text \<open>Steps that keep the tables, start no session and forget no supersession.\<close>

lemma inv_current_same:
  assumes "inv_current S" and "evolves (hub_of S) (hub_of T)"
    and "\<And>q ph. phases T q = Some ph \<Longrightarrow> in_session ph \<Longrightarrow> \<exists>ph'. phases S q = Some ph' \<and> in_session ph'"
    and "\<And>q p. live T q p \<Longrightarrow> superseded S q \<Longrightarrow> superseded T q"
  shows "inv_current T"
  unfolding inv_current_def
proof (intro allI impI)
  fix r ph p' assume "phases T r = Some ph" "in_session ph" and live: "live T r p'"
  then obtain ph' where ph': "phases S r = Some ph'" "in_session ph'" using assms(3) by blast
  obtain p where p: "live S r p" "p_id p' = p_id p" by (rule live_evolves [OF assms(2) live])
  from inv_currentD [OF assms(1) ph' p(1)] show "map_of (byID (hub_of T)) (p_id p') = Some r \<or> superseded T r"
    using evolves_tables [OF assms(2)] p(2) assms(4) [OF live] by auto
qed

text \<open>What the critical section of \<^verbatim>\<open>hub.add\<close> does to the identity table.\<close>

lemma add_lockedD:
  assumes "hub_ok h" and "add_locked h r = Some (h', a, b)"
  obtains p where "peers h r = Some p" "a = map_of (byID h) (p_id p)"
    "map_of (byID h') = (map_of (byID h))(p_id p \<mapsto> r)" "peers h' = peers h"
proof -
  obtain p where "peers h r = Some p" using assms(2) by (auto simp: add_locked_def split: option.splits)
  with add_locked_Some [OF assms(1) this] assms(2) that [of p] show thesis by auto
qed

lemma add_stops_old: "a = Some q \<Longrightarrow> q \<noteq> r \<Longrightarrow> q \<in> set (add_stops r a b)"
  by (simp add: add_stops_def)

lemma inv_current_add:
  assumes store: "inv_store S" and inv: "inv_current S" and ph: "phases S r = Some Registering"
    and add: "add_locked (hub_of S) r = Some (h', a, b)"
  shows "inv_current (goto r (Stopping (add_stops r a b)) (set_hub h' S))" (is "inv_current ?T")
  unfolding inv_current_def
proof (intro allI impI)
  obtain p where p: "peers (hub_of S) r = Some p" "a = map_of (byID (hub_of S)) (p_id p)"
    "map_of (byID h') = (map_of (byID (hub_of S)))(p_id p \<mapsto> r)" "peers h' = peers (hub_of S)"
    by (rule add_lockedD [OF inv_storeD(1) [OF store] add])
  fix q ph' p' assume q: "phases ?T q = Some ph'" "in_session ph'" and live: "live ?T q p'"
  show "map_of (byID (hub_of ?T)) (p_id p') = Some q \<or> superseded ?T q"
  proof (cases "q = r")
    case True
    with live p show ?thesis by (simp add: live_def)
  next
    case False
    from live have live: "live S q p'" by (simp add: live_def p(4))
    have "map_of (byID (hub_of S)) (p_id p') = Some q \<or> superseded S q"
      using inv_currentD [OF inv _ q(2) live] q(1) False by simp
    then show ?thesis
    proof
      assume cur: "map_of (byID (hub_of S)) (p_id p') = Some q"
      then have "superseded ?T q" if "p_id p' = p_id p"
        using add_stops_old [of a q r b] p(2) that False by (auto simp: superseded_def)
      with cur show ?thesis using p(3) by auto
    next
      assume "superseded S q"
      then show ?thesis using ph by (auto intro: superseded_goto)
    qed
  qed
qed

lemma inv_current_init: "relay_init S \<Longrightarrow> inv_current S"
  by (simp add: relay_init_def inv_current_def)

lemma inv_current_remove:
  assumes store: "inv_store S" and inv: "inv_current S" and ph: "phases S r = Some Leaving"
    and rem: "hub_remove (hub_of S) r = Some h'"
  shows "inv_current (goto r Removed (set_hub h' S))" (is "inv_current ?T")
  unfolding inv_current_def
proof (intro allI impI)
  note h' = hub_removeD [OF inv_storeD(1) [OF store] rem]
  fix q ph' p' assume q: "phases ?T q = Some ph'" "in_session ph'" and "live ?T q p'"
  then have "q \<noteq> r" "phases S q = Some ph'" and live: "live S q p'"
    by (auto simp: live_def h'(1) split: if_splits)
  have "superseded S q \<Longrightarrow> superseded ?T q" using ph by (auto intro: superseded_goto)
  then show "map_of (byID (hub_of ?T)) (p_id p') = Some q \<or> superseded ?T q"
    using inv_currentD [OF inv \<open>phases S q = Some ph'\<close> q(2) live] \<open>q \<noteq> r\<close> h'(3) by auto
qed

lemma inv_current_step:
  assumes store: "inv_store S" and inv: "inv_current S" and step: "relay_step S T"
  shows "inv_current T"
proof -
  note ok = inv_storeD(1) [OF store]
  note same = inv_current_same [OF inv]
  from step show ?thesis
  proof cases
    case (accept r s')
    then show ?thesis
      using acquire_slot_Some [OF accept(3)] by (intro same) (auto intro: superseded_goto split: if_splits)
  next
    case (admit r client p)
    show ?thesis
      unfolding inv_current_def
    proof (intro allI impI)
      fix q ph p' assume q: "phases T q = Some ph" "in_session ph" and "live T q p'"
      then have "phases S q = Some ph" "live S q p'"
        using admit by (auto simp: live_def split: if_splits)
      moreover have "superseded S q \<Longrightarrow> superseded T q" using admit by (auto intro!: superseded_goto)
      ultimately show "map_of (byID (hub_of T)) (p_id p') = Some q \<or> superseded T q"
        using inv_currentD [OF inv _ q(2)] admit(1) by auto
    qed
  next
    case (add r h' oldByID oldByMAC)
    then show ?thesis using inv_current_add [OF store inv] by simp
  next
    case (add_stop r q qs)
    then show ?thesis
      using live_stop [of q "hub_of S"] evolves_stop
      by (intro same) (auto simp: live_def superseded_def split: if_splits, metis set_ConsD phase.inject(3) option.inject)
  next
    case (read_frame r now msg h')
    then show ?thesis using evolves_read [OF ok read_frame(3)] by (intro same) auto
  next
    case (read_end r now msg h')
    obtain p where "peers (hub_of S) r = Some p" using inv_storeD(3) [OF store read_end(2)] by auto
    then have "h' = hub_of S" using read_step_ok(3) [OF ok] read_end(3) by blast
    with read_end show ?thesis by (intro same) (auto intro: superseded_goto split: if_splits)
  next
    case (write_out r ev h' sent goes_on)
    then show ?thesis using evolves_write [OF write_out(3)] by (intro same) auto
  next
    case (remove r h')
    then show ?thesis using inv_current_remove [OF store inv] by simp
  next
    case (stop r)
    then show ?thesis
      using evolves_stop by (intro same) (auto intro: superseded_goto split: if_splits)
  next
    case (reload_stop q qs)
    then show ?thesis using evolves_stop by (intro same) auto
  qed (intro same; auto intro: superseded_goto split: if_splits)+
qed

section \<open>Revocation\<close>

definition admitted :: "system \<Rightarrow> ref \<Rightarrow> peer \<Rightarrow> bool" where
  "admitted S r p \<longleftrightarrow>
     phases S r = Some Running \<and> live S r p \<and> map_of (byID (hub_of S)) (p_id p) = Some r"

lemma inv_revoked_alt:
  "inv_revoked S \<longleftrightarrow> (\<forall>r p. admitted S r p \<longrightarrow> still_authorized (s_clients (srv S)) (p_id p) (p_mac p)
     \<or> (\<exists>m. reload S = Swapped m) \<or> (\<exists>l. reload S = Disconnecting l \<and> r \<in> set l))"
  by (auto simp: inv_revoked_def admitted_def)

lemma inv_revoked_init: "relay_init S \<Longrightarrow> inv_revoked S"
  by (simp add: relay_init_def inv_revoked_def)

text \<open>Steps that admit nobody and leave the reload alone.\<close>

lemma inv_revoked_same:
  assumes "inv_revoked S" and "s_clients (srv T) = s_clients (srv S)" and "reload T = reload S"
    and "\<And>r p'. admitted T r p' \<Longrightarrow> \<exists>p. admitted S r p \<and> p_id p' = p_id p \<and> p_mac p' = p_mac p"
  shows "inv_revoked T"
  using assms unfolding inv_revoked_alt by metis

lemma admitted_evolves:
  assumes "admitted T r p'" and "evolves (hub_of S) (hub_of T)" and "phases S r = phases T r"
  shows "\<exists>p. admitted S r p \<and> p_id p' = p_id p \<and> p_mac p' = p_mac p"
proof -
  obtain p where p: "live S r p" "p_id p' = p_id p" "p_mac p' = p_mac p"
    using assms(1) live_evolves [OF assms(2)] unfolding admitted_def by blast
  with assms evolves_tables [OF assms(2)] have "admitted S r p" by (auto simp: admitted_def)
  with p show ?thesis by blast
qed

text \<open>Steps that move one handler to a phase other than \<open>Running\<close>.\<close>

lemma inv_revoked_goto:
  assumes "inv_revoked S" and "evolves (hub_of S) (hub_of T)" and "phases T = (phases S)(r \<mapsto> ph)"
    and "ph \<noteq> Running" and "s_clients (srv T) = s_clients (srv S)" and "reload T = reload S"
  shows "inv_revoked T"
proof (rule inv_revoked_same [OF assms(1,5,6)])
  fix q p' assume "admitted T q p'"
  moreover from this have "q \<noteq> r" using assms(3,4) by (auto simp: admitted_def)
  ultimately show "\<exists>p. admitted S q p \<and> p_id p' = p_id p \<and> p_mac p' = p_mac p"
    using assms(2,3) by (metis admitted_evolves fun_upd_other)
qed

lemma inv_revoked_moved:
  assumes "inv_revoked S" and "ph \<noteq> Running"
  shows "inv_revoked (goto r ph S)" and "inv_revoked (goto r ph (S\<lparr>srv := release_slot (srv S)\<rparr>))"
    and "evolves (hub_of S) h' \<Longrightarrow> inv_revoked (goto r ph (set_hub h' S))"
  using assms by (auto intro!: inv_revoked_goto [OF assms(1), where r = r and ph = ph])

lemma inv_revoked_evolves:
  assumes "inv_revoked S" and "evolves (hub_of S) (hub_of T)" and "phases T = phases S"
    and "s_clients (srv T) = s_clients (srv S)" and "reload T = reload S"
  shows "inv_revoked T"
  using admitted_evolves assms(2,3) by (intro inv_revoked_same [OF assms(1,4,5)]) simp

lemma inv_revoked_collect:
  assumes store: "inv_store S" and "reload S = Swapped m"
  shows "inv_revoked (S\<lparr>reload := Disconnecting (stale_peers m (hub_of S))\<rparr>)"
  unfolding inv_revoked_alt
  using stale_peers_iff [OF inv_storeD(1) [OF store], of _ m] inv_storeD(7) [OF store assms(2)]
  by (auto simp: admitted_def live_def)

lemma inv_revoked_step:
  assumes store: "inv_store S" and inv: "inv_revoked S" and step: "relay_step S T"
  shows "inv_revoked T"
proof -
  note ok = inv_storeD(1) [OF store]
  note goto = inv_revoked_goto [OF inv] and moved = inv_revoked_moved [OF inv]
  note same = inv_revoked_same [OF inv]
  from step show ?thesis
  proof cases
    case (accept r s')
    then show ?thesis using acquire_slot_Some [OF accept(3)] by (intro goto) auto
  next
    case (admit r client p)
    have "admitted S q p'" if "admitted T q p'" for q p'
      using that admit(1) by (cases "q = r") (auto simp: admitted_def live_def)
    then show ?thesis using admit by (intro same) auto
  next
    case (add r h' oldByID oldByMAC)
    obtain p where p: "peers (hub_of S) r = Some p" "map_of (byID h') = (map_of (byID (hub_of S)))(p_id p \<mapsto> r)"
      "peers h' = peers (hub_of S)" by (rule add_lockedD [OF ok add(3)])
    have "admitted S q p'" if "admitted T q p'" for q p'
      using that add(1) p by (auto simp: admitted_def live_def split: if_splits)
    then show ?thesis using add by (intro same) auto
  next
    case (recheck_ok r p)
    have "admitted S q p' \<or> p' = p" if "admitted T q p'" for q p'
      using that recheck_ok by (auto simp: admitted_def live_def split: if_splits)
    moreover have "s_clients (srv T) = s_clients (srv S)" "reload T = reload S" using recheck_ok(1) by simp_all
    ultimately show ?thesis
      using inv recheck_ok(4) unfolding inv_revoked_alt by metis
  next
    case (read_frame r now msg h')
    then show ?thesis using evolves_read [OF ok read_frame(3)] by (intro inv_revoked_evolves [OF inv]) auto
  next
    case (read_end r now msg h')
    obtain p where "peers (hub_of S) r = Some p" using inv_storeD(3) [OF store read_end(2)] by auto
    then have "h' = hub_of S" using read_step_ok(3) [OF ok] read_end(3) by blast
    with read_end show ?thesis by (intro goto) auto
  next
    case (write_out r ev h' sent goes_on)
    then show ?thesis using evolves_write [OF write_out(3)] by (intro inv_revoked_evolves [OF inv]) auto
  next
    case (remove r h')
    have "admitted S q p'" if "admitted T q p'" for q p'
      using that remove(1) hub_removeD [OF ok remove(3)] by (auto simp: admitted_def live_def split: if_splits)
    then show ?thesis using remove by (intro same) auto
  next
    case (reload_collect m)
    then show ?thesis using inv_revoked_collect [OF store] by simp
  next
    case (reload_stop q qs)
    have "admitted S r p' \<and> r \<noteq> q" if "admitted T r p'" for r p'
      using that reload_stop(1) by (auto simp: admitted_def live_def split: if_splits)
    then show ?thesis using inv reload_stop unfolding inv_revoked_alt by fastforce
  next
    case (reload_done)
    then show ?thesis using inv unfolding inv_revoked_alt by (auto simp: admitted_def live_def)
  next
    case (reload_swap cfg m)
    then show ?thesis by (auto simp: inv_revoked_def)
  qed (use moved evolves_stop in auto)
qed

section \<open>All invariants together\<close>

definition sys_inv :: "system \<Rightarrow> bool" where
  "sys_inv S \<longleftrightarrow> inv_store S \<and> inv_slots S \<and> inv_tables S \<and> inv_current S \<and> inv_revoked S"

interpretation relay: invariant_of relay_init relay_step sys_inv
  by standard
    (auto simp: sys_inv_def intro: inv_store_init inv_slots_init inv_tables_init inv_current_init inv_revoked_init
      inv_store_step inv_slots_step inv_tables_step inv_current_step inv_revoked_step)

section \<open>Properties of the running relay\<close>

abbreviation reachable :: "system \<Rightarrow> bool" where
  "reachable \<equiv> reach relay_init relay_step"

lemma reachable_inv:
  assumes "reachable S"
  shows "inv_store S" "inv_slots S" "inv_tables S" "inv_current S" "inv_revoked S"
  using relay.inv_reach [OF assms] by (auto simp: sys_inv_def)

lemma served_registered:
  assumes "reachable S" and "reload S = Idle" and "phases S r = Some Running"
    and "peers (hub_of S) r = Some p" and "\<not> p_stopOnce p" and "\<not> superseded S r"
  shows "map_of (byID (hub_of S)) (p_id p) = Some r
    \<and> (\<exists>client. s_clients (srv S) (p_id p) = Some client \<and> ac_mac client = p_mac p)"
proof -
  have l: "live S r p" using assms by (simp add: live_def)
  have cur: "map_of (byID (hub_of S)) (p_id p) = Some r"
    using inv_currentD [OF reachable_inv(4) [OF assms(1)] assms(3) _ l] assms(6) by simp
  then have "still_authorized (s_clients (srv S)) (p_id p) (p_mac p)"
    using reachable_inv(5) [OF assms(1)] assms(2,3) l by (auto simp: inv_revoked_def)
  with cur show ?thesis by (auto simp: still_authorized_def split: option.splits)
qed

text \<open>
  C1. Revocation.  In every interleaving of handshakes, registrations, sessions and
  reloads: when no reload is in progress, a session that is being served, has not been
  stopped and has not been replaced by a newer connection is the registered
  connection of its identity, and that identity is in the current configuration with
  the session's own address.
\<close>

theorem revoked_not_served:
  assumes "reachable S" and "reload S = Idle" and "phases S r = Some Running"
    and "peers (hub_of S) r = Some p" and "\<not> p_stopOnce p" and "\<not> superseded S r"
  shows "map_of (byID (hub_of S)) (p_id p) = Some r
    \<and> (\<exists>client. s_clients (srv S) (p_id p) = Some client \<and> ac_mac client = p_mac p)"
  using assms by (rule served_registered)

lemma reachable_steps: "relay_step\<^sup>*\<^sup>* S T \<Longrightarrow> reachable S \<Longrightarrow> reachable T"
  by (induction rule: rtranclp_induct) (auto intro: reach.intros)

lemma relay_New_authCap:
  "relay_New cfg = Inr s \<Longrightarrow> s_authCap s = (if r_MaxPendingHandshakes cfg = 0 then 32 else nat (r_MaxPendingHandshakes cfg))"
  by (auto simp: relay_New_def Let_def wsn_res)

lemma step_authCap: "relay_step S T \<Longrightarrow> s_authCap (srv T) = s_authCap (srv S)"
  by (induction rule: relay_step.induct) (simp_all add: acquire_slot_Some)

lemma steps_authCap: "relay_step\<^sup>*\<^sup>* S T \<Longrightarrow> s_authCap (srv T) = s_authCap (srv S)"
  by (induction rule: rtranclp_induct) (simp_all add: step_authCap)

text \<open>
  C12. Handshake slots.  The number of slots taken is at every moment the number of
  connections between acceptance and the end of their handshake, and never more than
  \<^verbatim>\<open>MaxPendingHandshakes\<close> of the configuration the relay was created with, 32 where that is zero; and a further
  connection is accepted exactly as long as fewer are in their handshake: no path through a handler leaks a slot or
  frees one twice, and no reload changes the limit.
\<close>

theorem slots_exact:
  assumes "relay_init S0" and "relay_New cfg = Inr (srv S0)" and "relay_step\<^sup>*\<^sup>* S0 S"
    and "limit = (if r_MaxPendingHandshakes cfg = 0 then 32 else nat (r_MaxPendingHandshakes cfg))"
    and "pending = {r. \<exists>ph. phases S r = Some ph \<and> holds_slot ph}"
  shows "finite pending \<and> s_authSlots (srv S) = card pending \<and> card pending \<le> limit
    \<and> (acquire_slot (srv S) \<noteq> None \<longleftrightarrow> card pending < limit)"
proof -
  have "s_authCap (srv S0) = limit" using relay_New_authCap [OF assms(2)] assms(4) by simp
  then have cap: "s_authCap (srv S) = limit" using steps_authCap [OF assms(3)] by simp
  have "reachable S" by (rule reachable_steps [OF assms(3) reach_init [where init = relay_init, OF assms(1)]])
  then have "inv_slots S" by (rule reachable_inv(2))
  then show ?thesis using cap assms(5) by (simp add: inv_slots_def holders_def acquire_slot_def)
qed

text \<open>
  C13. No handler can crash the relay: in every reachable state the object a handler
  registers, serves or removes exists and its address has a key, so the critical
  sections of \<^verbatim>\<open>hub.add\<close> and \<^verbatim>\<open>hub.remove\<close> and one round of \<^verbatim>\<open>readLoop\<close> on any message
  whatsoever run without a panic.
\<close>

theorem relay_no_panic:
  assumes "reachable S"
  shows "(phases S r = Some Registering \<longrightarrow> add_locked (hub_of S) r \<noteq> None)
    \<and> (phases S r = Some Running \<longrightarrow> read_step mfs now (hub_of S) r msg \<noteq> Panic)
    \<and> (phases S r = Some Leaving \<longrightarrow> hub_remove (hub_of S) r \<noteq> None)"
proof -
  note store = reachable_inv(1) [OF assms]
  note ok = inv_storeD(1) [OF store] and obj = inv_storeD(3) [OF store, of r]
  have "add_locked (hub_of S) r \<noteq> None" if "phases S r = Some Registering"
    using obj [OF that] add_locked_Some [OF ok] by (metis has_peer.simps(1) option.distinct(1))
  moreover have "hub_remove (hub_of S) r \<noteq> None" if "phases S r = Some Leaving"
    using obj [OF that] hub_remove_Some [OF ok] by (metis has_peer.simps(5) option.distinct(1))
  moreover have "read_step mfs now (hub_of S) r msg \<noteq> Panic" if "phases S r = Some Running"
    using obj [OF that] read_step_ok(1) [OF ok] by auto
  ultimately show ?thesis by blast
qed

text \<open>
  The tables hold no dead entries: whatever the hub maps an identity or an address
  to is a session between its registration and its removal, and has that identity
  and that address; so a handler that has finished is in no table.
\<close>

lemma tables_only_sessions:
  assumes "reachable S" and "map_of (byID (hub_of S)) i = Some r \<or> map_of (byMAC (hub_of S)) k = Some r"
  shows "\<exists>ph p. phases S r = Some ph \<and> on_table ph \<and> peers (hub_of S) r = Some p
    \<and> (map_of (byID (hub_of S)) i = Some r \<longrightarrow> p_id p = i)
    \<and> (map_of (byMAC (hub_of S)) k = Some r \<longrightarrow> MACKey (p_mac p) = Some k)"
proof -
  have "\<exists>ph. phases S r = Some ph \<and> on_table ph"
    using assms(2) reachable_inv(3) [OF assms(1)] unfolding inv_tables_def by blast
  then show ?thesis
    using assms(2) hub_okD(3,4) [OF inv_storeD(1) [OF reachable_inv(1) [OF assms(1)]]]
    by (metis option.inject)
qed

text \<open>
  A reload that is not disturbed: a configuration that does not parse changes
  nothing; otherwise the new client table is installed, and afterwards a registered
  peer is stopped if it was before or if the new table does not bind its identity to its
  address, and not otherwise.
\<close>

lemma Reload_effect:
  assumes "hub_ok (s_hub s)"
  shows "case authorizedClients cfg of
      Inl e \<Rightarrow> Reload s cfg = Inl e
    | Inr m \<Rightarrow> \<exists>s'. Reload s cfg = Inr s' \<and> s_clients s' = m \<and> s_authSlots s' = s_authSlots s
        \<and> byID (s_hub s') = byID (s_hub s) \<and> byMAC (s_hub s') = byMAC (s_hub s)
        \<and> (\<forall>i r p. map_of (byID (s_hub s)) i = Some r \<longrightarrow> peers (s_hub s) r = Some p \<longrightarrow>
             (\<exists>p'. peers (s_hub s') r = Some p'
                \<and> (p_stopOnce p' \<longleftrightarrow> p_stopOnce p \<or> \<not> still_authorized m (p_id p) (p_mac p))
                \<and> (\<not> p_stopOnce p' \<longrightarrow> p' = p)))"
proof (cases "authorizedClients cfg")
  case (Inl e)
  then show ?thesis by (simp add: Reload_def)
next
  case (Inr m)
  have reg: "map_of (byID (s_hub s)) (p_id p) = Some r"
    if "map_of (byID (s_hub s)) i = Some r" "peers (s_hub s) r = Some p" for i r p
    using hub_okD(3) [OF assms that(1)] that by auto
  have "\<exists>p'. peers (fold stop_ref (stale_peers m (s_hub s)) (s_hub s)) r = Some p'
      \<and> (p_stopOnce p' \<longleftrightarrow> p_stopOnce p \<or> \<not> still_authorized m (p_id p) (p_mac p))
      \<and> (\<not> p_stopOnce p' \<longrightarrow> p' = p)"
    if "map_of (byID (s_hub s)) i = Some r" "peers (s_hub s) r = Some p" for i r p
    using stale_peers_iff [OF assms, of r m] reg [OF that] that(2) by (auto simp: fold_stop_peers)
  with Inr show ?thesis
    by (simp add: Reload_def retainAuthorized_def Let_def)
qed

section \<open>A client gets in\<close>

lemma add_stop_steps:
  "phases S r = Some (Stopping qs) \<Longrightarrow>
     relay_step\<^sup>*\<^sup>* S (goto r (Stopping []) (set_hub (fold stop_ref qs (hub_of S)) S))"
proof (induction qs arbitrary: S)
  case Nil
  then have "goto r (Stopping []) (set_hub (hub_of S) S) = S"
    by (simp add: goto_def set_hub_def fun_upd_idem)
  then show ?case by simp
next
  case (Cons q qs)
  let ?T = "goto r (Stopping qs) (set_hub (stop_ref q (hub_of S)) S)"
  have eq: "goto r (Stopping []) (set_hub (fold stop_ref qs (hub_of ?T)) ?T) =
      goto r (Stopping []) (set_hub (fold stop_ref (q # qs) (hub_of S)) S)"
    by (simp add: goto_def set_hub_def)
  have "relay_step S ?T" using Cons.prems by (rule add_stop)
  moreover have "relay_step\<^sup>*\<^sup>* ?T (goto r (Stopping []) (set_hub (fold stop_ref (q # qs) (hub_of S)) S))"
    using Cons.IH [of ?T] unfolding eq by simp
  ultimately show ?case by (rule converse_rtranclp_into_rtranclp)
qed

text \<open>From acceptance to the end of the handshake, and from there to a served session.\<close>

lemma handshake_steps:
  assumes "phases S r = None" and "acquire_slot (srv S) = Some s'"
    and "authorized (srv S) cid = Some client" and "hello_id cid" and "auth_map_ok (s_clients (srv S))"
  shows "relay_step\<^sup>*\<^sup>* S (goto r (Authenticated client) (S\<lparr>srv := s'\<rparr>))"
proof -
  have client: "ac_id client = cid" "length (ac_key client) = 32" "length (ac_mac client) = 6"
    using auth_map_okD [OF assms(5)] assms(3) unfolding authorized_def by blast+
  obtain challenge :: bytes where ch: "length challenge = ChallengeSize"
    using length_replicate [of ChallengeSize 0] by (rule that)
  then obtain pf where pf: "Proof (ac_key client) challenge cid (ac_mac client) = Inr pf"
    using client by (auto simp: Proof_Inr ChallengeSize_def)
  let ?S1 = "goto r Handshake (S\<lparr>srv := s'\<rparr>)" and ?S2 = "goto r (Verifying client cid challenge) (S\<lparr>srv := s'\<rparr>)"
  have gg: "goto r x (goto r y T) = goto r x T" for x y T by (simp add: goto_def)
  have 1: "relay_step S ?S1" using assms(1,2) by (rule accept)
  have "relay_step ?S1 (goto r (Verifying client cid challenge) ?S1)"
    using assms(3) acquire_slot_Some [OF assms(2)]
    by (intro lookup [OF _ hello.dec_enc [OF assms(4)] _ ch]) (simp_all add: authorized_def)
  then have 2: "relay_step ?S1 ?S2" by (simp add: gg)
  have "relay_step ?S2 (goto r (Authenticated client) ?S2)"
    using pf by (intro verify [of _ _ _ cid challenge pf]) (simp_all add: VerifyProof_iff)
  then have 3: "relay_step ?S2 (goto r (Authenticated client) (S\<lparr>srv := s'\<rparr>))" by (simp add: gg)
  from 1 2 3 show ?thesis by (meson r_into_rtranclp rtranclp_trans)
qed

lemma session_steps:
  assumes store: "inv_store S" and ph: "phases S r = Some (Authenticated client)"
    and auth: "s_clients (srv S) (ac_id client) = Some client"
  obtains T p where "relay_step\<^sup>*\<^sup>* S T" "phases T r = Some Running" "peers (hub_of T) r = Some p"
    "p_id p = ac_id client" "p_mac p = ac_mac client" "\<not> p_stopOnce p" "ch_buf (p_send p) = []"
    "map_of (byID (hub_of T)) (ac_id client) = Some r"
    "s_authSlots (srv T) = s_authSlots (srv S) - 1" "reload T = reload S" "\<And>q. q \<noteq> r \<Longrightarrow> phases T q = phases S q"
    "s_clients (srv T) = s_clients (srv S)"
proof -
  let ?p = "new_peer client (nat (r_ClientQueueSize (s_cfg (srv S)))) (s_idle (srv S))"
  let ?S1 = "goto r Registering
       (set_hub ((hub_of S)\<lparr>peers := (peers (hub_of S))(r \<mapsto> ?p)\<rparr>) (S\<lparr>srv := release_slot (srv S)\<rparr>))"
  have 1: "relay_step S ?S1" using ph by (rule admit) simp
  then have ok: "hub_ok (hub_of ?S1)" using inv_store_step [OF store] inv_storeD(1) by blast
  have pid: "p_id ?p = ac_id client" "p_mac ?p = ac_mac client" "\<not> p_stopOnce ?p" "ch_buf (p_send ?p) = []"
    by (simp_all add: new_peer_def)
  have "peers (hub_of ?S1) r = Some ?p" by simp
  then obtain k h' where add: "add_locked (hub_of ?S1) r =
      Some (h', map_of (byID (hub_of ?S1)) (p_id ?p), map_of (byMAC (hub_of ?S1)) k)"
    "map_of (byID h') = (map_of (byID (hub_of ?S1)))(p_id ?p \<mapsto> r)" "peers h' = peers (hub_of ?S1)"
    by (rule add_locked_Some [OF ok]) (rule that)
  let ?qs = "add_stops r (map_of (byID (hub_of ?S1)) (p_id ?p)) (map_of (byMAC (hub_of ?S1)) k)"
  let ?S2 = "goto r (Stopping ?qs) (set_hub h' ?S1)"
  have 2: "relay_step ?S1 ?S2" by (rule Relay_Server.add [OF _ add(1)]) simp
  let ?S3 = "goto r (Stopping []) (set_hub (fold stop_ref ?qs (hub_of ?S2)) ?S2)"
  have 3: "relay_step\<^sup>*\<^sup>* ?S2 ?S3" by (rule add_stop_steps) simp
  have 4: "relay_step ?S3 (goto r Rechecking ?S3)" by (rule added) simp
  have r: "r \<notin> set ?qs" by (simp add: add_stops_iff)
  have pT: "peers (hub_of ?S3) r = Some ?p" using r by (simp add: fold_stop_peers add(3))
  have 5: "relay_step (goto r Rechecking ?S3)
      (goto r Running ((goto r Rechecking ?S3)\<lparr>writers := insert r (writers (goto r Rechecking ?S3))\<rparr>))"
    by (rule recheck_ok [where p = ?p]) (use pT pid auth in \<open>simp_all add: still_authorized_def\<close>)
  let ?T = "goto r Running ((goto r Rechecking ?S3)\<lparr>writers := insert r (writers (goto r Rechecking ?S3))\<rparr>)"
  have "relay_step\<^sup>*\<^sup>* S ?T" using 1 2 3 4 5 by (meson r_into_rtranclp rtranclp_trans)
  moreover have "map_of (byID (hub_of ?T)) (ac_id client) = Some r" using add(2) pid(1) by simp
  ultimately show thesis using pT pid by (rule_tac that [of ?T ?p]) simp_all
qed

text \<open>
  C14. The relay admits whom it should: from every reachable state with a free handshake
  slot, a client that is in the table and knows its key has a run that ends in a
  served session, registered under its identity, with an empty queue and the slot
  given back, whoever was connected under that identity or address before.
\<close>

theorem client_gets_served:
  assumes "reachable S" and "phases S r = None" and "s_authSlots (srv S) < s_authCap (srv S)"
    and "authorized (srv S) cid = Some client" and "hello_id cid"
  shows "\<exists>T p. relay_step\<^sup>*\<^sup>* S T \<and> phases T r = Some Running \<and> peers (hub_of T) r = Some p
    \<and> p_id p = cid \<and> p_mac p = ac_mac client \<and> \<not> p_stopOnce p \<and> ch_buf (p_send p) = []
    \<and> map_of (byID (hub_of T)) cid = Some r \<and> s_authSlots (srv T) = s_authSlots (srv S)
    \<and> reload T = reload S \<and> s_clients (srv T) = s_clients (srv S) \<and> (\<forall>q. q \<noteq> r \<longrightarrow> phases T q = phases S q)"
proof -
  note auth = inv_storeD(2) [OF reachable_inv(1) [OF assms(1)]]
  have cid: "ac_id client = cid" using auth_map_okD(1) [OF auth] assms(4) by (simp add: authorized_def)
  obtain s' where s': "acquire_slot (srv S) = Some s'" using assms(3) by (simp add: acquire_slot_def)
  let ?S1 = "goto r (Authenticated client) (S\<lparr>srv := s'\<rparr>)"
  have 1: "relay_step\<^sup>*\<^sup>* S ?S1" by (rule handshake_steps [OF assms(2) s' assms(4,5) auth])
  have store: "inv_store ?S1" using reachable_inv(1) [OF reachable_steps [OF 1 assms(1)]] .
  obtain T p where T: "relay_step\<^sup>*\<^sup>* ?S1 T" "phases T r = Some Running" "peers (hub_of T) r = Some p"
    "p_id p = ac_id client" "p_mac p = ac_mac client" "\<not> p_stopOnce p" "ch_buf (p_send p) = []"
    "map_of (byID (hub_of T)) (ac_id client) = Some r" "s_authSlots (srv T) = s_authSlots (srv ?S1) - 1"
    "reload T = reload ?S1" "\<And>q. q \<noteq> r \<Longrightarrow> phases T q = phases ?S1 q" "s_clients (srv T) = s_clients (srv ?S1)"
    by (rule session_steps [OF store, of r client])
      (use assms(4) acquire_slot_Some [OF s'] cid in \<open>auto simp: authorized_def\<close>)
  have "relay_step\<^sup>*\<^sup>* S T" using 1 T(1) by (rule rtranclp_trans)
  moreover have "s_authSlots (srv ?S1) = Suc (s_authSlots (srv S))" "s_clients (srv ?S1) = s_clients (srv S)"
    using acquire_slot_Some [OF s'] by simp_all
  ultimately show ?thesis using T(2-) cid by (intro exI [of _ T] exI [of _ p]) auto
qed

section \<open>A relay with one configured client\<close>

definition ex_relay :: Relay where
  "ex_relay = \<lparr>r_Listen = ''127.0.0.1:8080'', r_Path = ''/ws'', r_HealthPath = ''/health'', r_MaxFrameSize = 1600,
     r_ClientQueueSize = 8, r_HandshakeTimeoutMS = 5000, r_IdleTimeoutMS = 60000, r_MaxPendingHandshakes = 4,
     r_Clients = [\<lparr>rc_ID = ''a'', rc_Key = ''AAAAAAAAAAAAAAAAAAAAAAAAAAAAAAAAAAAAAAAAAAA'',
                   rc_MAC = ''02:00:00:00:00:01''\<rparr>]\<rparr>"

definition ex_table :: "string \<rightharpoonup> authorizedClient" where
  "ex_table = [''a'' \<mapsto> \<lparr>ac_id = ''a'', ac_key = replicate 32 0, ac_mac = mac_a\<rparr>]"

definition ex_sys :: system where
  "ex_sys = \<lparr>srv = \<lparr>s_cfg = ex_relay, s_clients = ex_table, s_hub = newHub, s_handshake = 5000000000,
      s_idle = 60000000000, s_authSlots = 0, s_authCap = 4\<rparr>, phases = Map.empty, writers = {}, reload = Idle\<rparr>"

lemma ex_key: "DecodeKey ''AAAAAAAAAAAAAAAAAAAAAAAAAAAAAAAAAAAAAAAAAAA'' = Inr (replicate 32 0)"
  by code_simp

lemma ex_mac: "ParseMAC ''02:00:00:00:00:01'' = Inr mac_a"
  by code_simp

lemma ex_clients: "authorizedClients ex_relay = Inr ex_table"
  by (simp add: authorizedClients_def ex_relay_def ex_key ex_mac ex_table_def)

lemma ex_sys_init: "relay_init ex_sys"
proof -
  have "relay_New ex_relay = Inr (srv ex_sys)"
    by (simp add: relay_New_def ex_clients ex_sys_def Let_def) (simp add: ex_relay_def)
  moreover have "0 \<le> r_MaxPendingHandshakes ex_relay \<and> 0 \<le> r_ClientQueueSize ex_relay"
    by (simp add: ex_relay_def)
  ultimately have "\<exists>cfg s. 0 \<le> r_MaxPendingHandshakes cfg \<and> 0 \<le> r_ClientQueueSize cfg
      \<and> relay_New cfg = Inr s \<and> srv ex_sys = s" by blast
  then show ?thesis by (simp add: relay_init_def) (simp add: ex_sys_def)
qed

lemma ex_sys_reachable: "reachable ex_sys"
  using ex_sys_init by (rule reach_init)

text \<open>A state in which the client is being served.\<close>

lemma ex_served:
  "\<exists>S p. reachable S \<and> reload S = Idle \<and> phases S 7 = Some Running \<and> peers (hub_of S) 7 = Some p \<and> p_id p = ''a''
     \<and> \<not> p_stopOnce p \<and> \<not> superseded S 7 \<and> map_of (byID (hub_of S)) ''a'' = Some 7"
proof -
  have auth: "authorized (srv ex_sys) ''a'' = Some \<lparr>ac_id = ''a'', ac_key = replicate 32 0, ac_mac = mac_a\<rparr>"
    by (simp add: authorized_def ex_sys_def ex_table_def)
  obtain s' where s': "acquire_slot (srv ex_sys) = Some s'" by (simp add: acquire_slot_def ex_sys_def)
  let ?c = "\<lparr>ac_id = ''a'', ac_key = replicate 32 0, ac_mac = mac_a\<rparr>"
  let ?S1 = "goto 7 (Authenticated ?c) (ex_sys\<lparr>srv := s'\<rparr>)"
  have 1: "reachable ?S1"
    by (rule reachable_steps [OF handshake_steps [OF _ s' auth _
          inv_storeD(2) [OF reachable_inv(1) [OF ex_sys_reachable]]] ex_sys_reachable])
      (simp_all add: ex_sys_def hello_id_def)
  obtain T p where T: "relay_step\<^sup>*\<^sup>* ?S1 T" "phases T 7 = Some Running" "peers (hub_of T) 7 = Some p"
    "p_id p = ''a''" "\<not> p_stopOnce p" "map_of (byID (hub_of T)) ''a'' = Some 7" "reload T = Idle"
    "\<And>q. q \<noteq> 7 \<Longrightarrow> phases T q = None"
    by (rule session_steps [OF reachable_inv(1) [OF 1], of 7 ?c])
      (use auth acquire_slot_Some [OF s'] in \<open>auto simp: authorized_def ex_sys_def\<close>)
  have "phases T q \<noteq> Some (Stopping l)" for q l using T(2) T(8) [of q] by (cases "q = 7") simp_all
  then have "\<not> superseded T 7" by (simp add: superseded_def)
  with T reachable_steps [OF T(1) 1] show ?thesis by blast
qed

theorem revoked_not_served_witness:
  "\<exists>S client. reachable S \<and> phases S 7 = Some Running \<and> s_clients (srv S) ''a'' = Some client"
proof -
  obtain S p where S: "reachable S" "reload S = Idle" "phases S 7 = Some Running" "peers (hub_of S) 7 = Some p"
    "p_id p = ''a''" "\<not> p_stopOnce p" "\<not> superseded S 7" using ex_served by blast
  from revoked_not_served [OF S(1-4,6,7)] S show ?thesis by auto
qed

theorem slots_exact_witness:
  "\<exists>S. relay_step\<^sup>*\<^sup>* ex_sys S \<and> s_authSlots (srv S) = 1 \<and> acquire_slot (srv S) \<noteq> None \<and> {r. \<exists>ph. phases S r = Some ph \<and> holds_slot ph} = {7}"
proof -
  obtain s' where s': "acquire_slot (srv ex_sys) = Some s'" by (simp add: acquire_slot_def ex_sys_def)
  let ?S = "goto 7 Handshake (ex_sys\<lparr>srv := s'\<rparr>)"
  have S: "relay_step\<^sup>*\<^sup>* ex_sys ?S"
    by (rule r_into_rtranclp, rule accept [OF _ s']) (simp add: ex_sys_def)
  have p: "{7} = {r. \<exists>ph. phases ?S r = Some ph \<and> holds_slot ph}" by (auto simp: ex_sys_def)
  have new: "relay_New ex_relay = Inr (srv ex_sys)"
    by (simp add: relay_New_def ex_clients ex_sys_def Let_def) (simp add: ex_relay_def)
  have "s_authSlots (srv ?S) = 1" "acquire_slot (srv ?S) \<noteq> None"
    using slots_exact [OF ex_sys_init new S refl p] by (simp_all add: ex_relay_def del: goto_sel)
  then show ?thesis using S p by blast
qed

theorem relay_no_panic_witness:
  "\<exists>S. reachable S \<and> phases S 7 = Some Running
     \<and> read_step 1600 (\<lambda>_. 0) (hub_of S) 7 (Some (BinaryMessage, ex_frame)) \<noteq> Panic"
proof -
  obtain S where S: "reachable S" "phases S 7 = Some Running" using ex_served by blast
  from relay_no_panic [OF S(1), of 7] S show ?thesis by blast
qed

theorem client_gets_served_witness:
  "\<exists>T p. relay_step\<^sup>*\<^sup>* ex_sys T \<and> phases T 7 = Some Running \<and> peers (hub_of T) 7 = Some p \<and> p_mac p = mac_a"
proof -
  have "authorized (srv ex_sys) ''a'' = Some \<lparr>ac_id = ''a'', ac_key = replicate 32 0, ac_mac = mac_a\<rparr>"
    by (simp add: authorized_def ex_sys_def ex_table_def)
  from client_gets_served [OF ex_sys_reachable _ _ this, of 7] show ?thesis
    by (auto simp: ex_sys_def hello_id_def)
qed

end
