(* ===== verification/End_To_End.thy ===== *)
theory End_To_End
  imports Environment Client_Runner Relay_Server
begin

text \<open>
  Properties that span the components: what provisioning writes is what the relay and the client load,
  and they then understand each other; and a frame that leaves one client's device
  arrives on another's.
\<close>

section \<open>From provisioning to the handshake\<close>

lemma key_line:
  assumes "length key = 32"
  shows "LoadKey (\<lambda>_. Inr (EncodeKey key @ [CHR 0x0A])) path = Inr key"
proof -
  have "EncodeKey key \<noteq> []" using assms by (cases key rule: b64_encode.cases) (auto simp: EncodeKey_def)
  then have "TrimSpace (EncodeKey key @ [CHR 0x0A]) = EncodeKey key"
    using b64_encode_code by (intro TrimSpace_line) (auto simp: EncodeKey_def)
  moreover have "DecodeKey (EncodeKey key) = Inr key" using key_text.dec_enc assms by (simp add: key32_def)
  ultimately show ?thesis by (simp add: LoadKey_def)
qed

lemma provisioned_relay:
  assumes "state_ok st" and "distinct (map pc_MAC (st_Clients st))" and "c \<in> set (st_Clients st)"
  obtains S client where "checkRelay (relay_config st) = Inr (relay_config st)" "relay_New (relay_config st) = Inr S"
    "auth_map_ok (s_clients S)" "authorized S (pc_ID c) = Some client"
    "DecodeKey (pc_Key c) = Inr (ac_key client)" "ParseMAC (pc_MAC c) = Inr (ac_mac client)"
proof -
  have chk: "checkRelay (relay_config st) = Inr (relay_config st)" by (rule relay_config_checked(2) [OF assms(1,2)])
  have mem: "\<lparr>rc_ID = pc_ID c, rc_Key = pc_Key c, rc_MAC = pc_MAC c\<rparr> \<in> set (r_Clients (relay_config st))"
    using assms(3) by (simp add: relay_config_def)
  obtain m where m: "authorizedClients (relay_config st) = Inr m"
    and tab: "\<forall>c \<in> set (r_Clients (relay_config st)). \<exists>client. m (rc_ID c) = Some client \<and> ac_id client = rc_ID c
         \<and> DecodeKey (rc_Key c) = Inr (ac_key client) \<and> ParseMAC (rc_MAC c) = Inr (ac_mac client)"
    using checkRelay_table [OF chk] by blast
  obtain client where client: "m (pc_ID c) = Some client" "DecodeKey (pc_Key c) = Inr (ac_key client)" "ParseMAC (pc_MAC c) = Inr (ac_mac client)"
    using tab mem by force
  obtain S where S: "relay_New (relay_config st) = Inr S" "s_clients S = m" using m by (auto simp: relay_New_def Let_def)
  show thesis using that [OF chk S(1)] authorizedClients_ok [OF m] S(2) client by (simp add: authorized_def)
qed

lemma provisioned_client:
  assumes ok: "state_ok st" and c: "c \<in> set (st_Clients st)"
    and key: "readFile (c_KeyFile (bundle_config st c)) = Inr (pc_Key c @ [CHR 0x0A])"
    and ca: "readFile (c_CAFile (bundle_config st c)) = Inr pem" "appendCerts pem"
  obtains cfg r where "checkClient (bundle_os c) (bundle_config st c) = Inr cfg" "client_New readFile appendCerts cfg = Inr r"
    "ru_cfg r = cfg" "c_ID cfg = pc_ID c" "DecodeKey (pc_Key c) = Inr (ru_key r)" "ParseMAC (pc_MAC c) = Inr (ru_mac r)" "hello_id (pc_ID c)"
proof -
  let ?cfg = "normal_client (bundle_config st c)"
  obtain net n gw where "list_all (pclient_ok net n gw st) (st_Clients st)" by (rule state_okE [OF ok])
  then have p: "pclient_ok net n gw st c" using c by (simp add: list_all_iff)
  obtain k where k: "pc_Key c = EncodeKey k" "length k = 32" using p unfolding pclient_ok_def by blast
  obtain mac where mac: "pc_MAC c = mac_String mac" "unicast_mac mac" using p unfolding pclient_ok_def by blast
  have pm: "ParseMAC (pc_MAC c) = Inr mac" using mac mac_text.dec_enc by simp
  have dk: "DecodeKey (pc_Key c) = Inr k" using k key_text.dec_enc by (simp add: key32_def)
  have chk: "checkClient (bundle_os c) (bundle_config st c) = Inr ?cfg"
    using bundle_config_ok [OF ok c] by (simp add: checkClient_Inr)
  have sel: "c_KeyFile ?cfg = c_KeyFile (bundle_config st c)" "c_CAFile ?cfg = c_CAFile (bundle_config st c)"
    "c_ID ?cfg = pc_ID c" "c_MAC ?cfg = pc_MAC c"
    using pm mac by (simp_all add: normal_client_def bundle_config_def Let_def)
  have "LoadKey readFile (c_KeyFile ?cfg) = Inr k"
    using key_line [OF k(2), of "c_KeyFile ?cfg"] key sel(1) k(1) by (simp add: LoadKey_def)
  then have "client_New readFile appendCerts ?cfg = Inr \<lparr>ru_cfg = ?cfg, ru_key = k, ru_mac = mac\<rparr>"
    using ca pm sel by (simp add: client_New_def)
  moreover have "hello_id (pc_ID c)"
  proof -
    have "ValidateID (pc_ID c) = Inr ()" using p unfolding pclient_ok_def by blast
    then show ?thesis by (simp add: ValidateID_ok hello_id_def)
  qed
  ultimately show thesis using that [OF chk, of "\<lparr>ru_cfg = ?cfg, ru_key = k, ru_mac = mac\<rparr>"] sel(3) dk pm by simp
qed

text \<open>
  C38. What provisioning renders can be loaded.  For every well-formed deployment the \<^verbatim>\<open>client.json\<close> of every client is
  accepted by the client on its operating system, and \<^verbatim>\<open>server.json\<close> is accepted by the relay, unchanged,
  exactly when no two clients were given the same random hardware address.
\<close>

theorem rendered_configs_load:
  assumes "state_ok st"
  shows "(\<forall>c \<in> set (st_Clients st). \<exists>cfg. checkClient (bundle_os c) (bundle_config st c) = Inr cfg)
    \<and> ((\<exists>cfg. checkRelay (relay_config st) = Inr cfg) \<longleftrightarrow> distinct (map pc_MAC (st_Clients st)))
    \<and> (\<forall>cfg. checkRelay (relay_config st) = Inr cfg \<longrightarrow> cfg = relay_config st)"
  using bundle_config_ok [OF assms] relay_config_checked [OF assms] by (auto simp: checkClient_Inr)

text \<open>
  C7. A provisioned client is served.  For every client of a well-formed deployment with distinct addresses, the
  relay loads the rendered \<^verbatim>\<open>server.json\<close> and knows the client; the client loads the \<^verbatim>\<open>client.json\<close> and \<^verbatim>\<open>client.key\<close>
  of its bundle; and for every challenge the two complete the handshake with each other.
\<close>

theorem provisioned_client_served:
  assumes "state_ok st" and "distinct (map pc_MAC (st_Clients st))" and "c \<in> set (st_Clients st)"
    and "readFile (c_KeyFile (bundle_config st c)) = Inr (pc_Key c @ [CHR 0x0A])"
    and "readFile (c_CAFile (bundle_config st c)) = Inr pem" and "appendCerts pem" and "length challenge = ChallengeSize"
  shows "\<exists>rcfg S client ccfg r relay_conn client_conn.
    checkRelay (relay_config st) = Inr rcfg \<and> relay_New rcfg = Inr S \<and> authorized S (pc_ID c) = Some client
    \<and> checkClient (bundle_os c) (bundle_config st c) = Inr ccfg \<and> client_New readFile appendCerts ccfg = Inr r
    \<and> authenticate (s_clients S) (s_handshake S) (s_idle S) (r_MaxFrameSize rcfg) (Some challenge) t0 t1
        (fresh_conn (map Some (out_msgs client_conn)) []) = (Inr client, relay_conn)
    \<and> client_authenticate r u0 u1 (fresh_conn (map Some (out_msgs relay_conn)) []) = (None, client_conn)"
proof -
  obtain S client where S: "checkRelay (relay_config st) = Inr (relay_config st)" "relay_New (relay_config st) = Inr S"
    "auth_map_ok (s_clients S)" "authorized S (pc_ID c) = Some client"
    "DecodeKey (pc_Key c) = Inr (ac_key client)" "ParseMAC (pc_MAC c) = Inr (ac_mac client)"
    by (rule provisioned_relay [OF assms(1-3)])
  obtain cfg r where r: "checkClient (bundle_os c) (bundle_config st c) = Inr cfg" "client_New readFile appendCerts cfg = Inr r"
    "ru_cfg r = cfg" "c_ID cfg = pc_ID c" "DecodeKey (pc_Key c) = Inr (ru_key r)" "ParseMAC (pc_MAC c) = Inr (ru_mac r)" "hello_id (pc_ID c)"
    by (rule provisioned_client [where readFile = readFile and appendCerts = appendCerts and pem = pem, OF assms(1,3-6)])
  have "\<exists>relay_conn client_conn.
    authenticate (s_clients S) (s_handshake S) (s_idle S) (r_MaxFrameSize (relay_config st)) (Some challenge) t0 t1
        (fresh_conn (map Some (out_msgs client_conn)) []) = (Inr client, relay_conn)
    \<and> client_authenticate r u0 u1 (fresh_conn (map Some (out_msgs relay_conn)) []) = (None, client_conn)"
    by (rule handshake_runs [OF S(3)]) (use S r assms(7) in \<open>auto simp: authorized_def\<close>)
  then show ?thesis using S(1,2,4) r(1,2) by blast
qed


section \<open>From one device to another\<close>

text \<open>
  C8. A frame crosses the network.  A unicast frame within the size limits, from the device of a connected client and
  addressed to another, is sent by the first client, forwarded by the relay to the queue of the second and
  to nobody else, written to its connection, and written whole to its device.
\<close>

theorem frame_crosses:
  assumes hub: "hub_ok h" "peers h a = Some pa" "peers h b = Some pb" "a \<noteq> b"
    and dest: "\<not> IsGroupMAC (DestinationMAC frame)" "MACKey (DestinationMAC frame) = Some k" "map_of (byMAC h) k = Some b"
    and src: "SourceMAC frame = ru_mac ra" "p_mac pa = ru_mac ra"
    and size: "MinimumFrameSize \<le> length frame" "int (length frame) \<le> mfs" "int (length frame) \<le> c_MaxFrameSize (ru_cfg ra)"
      "int (length frame) \<le> c_MaxFrameSize (ru_cfg rb)"
    and idle: "ch_buf (p_send pb) = []" "0 < ch_cap (p_send pb)" "write_fails ca = []"
    and dev: "writer_prefix wr log" "\<And>w v. v \<noteq> [] \<Longrightarrow> \<exists>n w'. wr w v = (n, None, w') \<and> 0 < n"
  shows "\<exists>ca' h1 h2 w' cb'. tap_step ra t0 (Inr frame) ca = (None, ca') \<and> out_msgs ca' = out_msgs ca @ [(BinaryMessage, frame)]
    \<and> read_step mfs now h a (Some (BinaryMessage, frame)) = Continue h1 \<and> (\<forall>r. r \<noteq> b \<longrightarrow> peers h1 r = peers h r)
    \<and> write_step h1 b (WFrame True) = Some (h2, Some frame, True)
    \<and> ws_step rb wr t1 w (fresh_conn [Some (BinaryMessage, frame)] []) = Pumping w' cb' \<and> log w' = log w @ frame"
proof -
  have rec: "receives h a frame r \<longleftrightarrow> r = b" for r using dest hub(4) by (auto simp: receives_def)
  obtain h1 where h1: "forward now h a frame = Some h1"
    "\<And>r. peers h1 r = (if receives h a frame r then map_option (deliver frame (now r)) (peers h r) else peers h r)"
    by (rule forward_Some [OF hub(1) size(1), of now a]) (rule that)
  have "read_step mfs now h a (Some (BinaryMessage, frame)) = Continue h1"
    using hub(2) src size(1,2) h1(1) by (simp add: read_step_def)
  moreover have "\<forall>r. r \<noteq> b \<longrightarrow> peers h1 r = peers h r" using h1(2) rec by simp
  moreover obtain h2 where "write_step h1 b (WFrame True) = Some (h2, Some frame, True)"
    using h1(2) [of b] rec hub(3) idle(1,2) send_queue.items_offer [of "p_send pb" frame]
    by (auto simp: write_step_def chan_recv_def Let_def)
  moreover have "\<exists>ca'. tap_step ra t0 (Inr frame) ca = (None, ca') \<and> out_msgs ca' = out_msgs ca @ [(BinaryMessage, frame)]"
    using src(1) size(1,3) idle(3) by (simp add: tap_step_def equalMAC_eq)
  moreover obtain w' where w': "writeFull wr w frame = Written w'" using writeFull_progress [OF dev] by blast
  moreover have "log w' = log w @ frame" using writeFull_prefix [OF dev(1), of w frame] w' by simp
  moreover have "\<exists>cb'. ws_step rb wr t1 w (fresh_conn [Some (BinaryMessage, frame)] []) = Pumping w' cb'"
    using size(1,4) w' by (simp add: ws_step_def Let_def)
  ultimately show ?thesis by blast
qed

section \<open>Examples\<close>

theorem frame_crosses_witness:
  "\<exists>h1 h2 cb'. read_step 1600 (\<lambda>_. 0) ex_hub 11 (Some (BinaryMessage, ex_frame)) = Continue h1
     \<and> write_step h1 12 (WFrame True) = Some (h2, Some ex_frame, True)
     \<and> ws_step ex_runner slow_dev 0 [] (fresh_conn [Some (BinaryMessage, ex_frame)] []) = Pumping ex_frame cb'"
proof -
  have d: "DestinationMAC ex_frame = mac_b" "SourceMAC ex_frame = mac_a" by code_simp+
  have g: "\<not> IsGroupMAC mac_b" by code_simp
  have dev: "writer_prefix slow_dev id" "\<And>w v. v \<noteq> [] \<Longrightarrow> \<exists>n w'. slow_dev w v = (n, None, w') \<and> 0 < n"
    by (auto simp: writer_prefix_def slow_dev_def min_def)
  have n: "length ex_frame = 14" by code_simp
  have "\<exists>ca' h1 h2 w' cb'. tap_step ex_runner 0 (Inr ex_frame) (fresh_conn [] []) = (None, ca') \<and> out_msgs ca' = out_msgs (fresh_conn [] []) @ [(BinaryMessage, ex_frame)]
    \<and> read_step 1600 (\<lambda>_. 0) ex_hub 11 (Some (BinaryMessage, ex_frame)) = Continue h1 \<and> (\<forall>r. r \<noteq> 12 \<longrightarrow> peers h1 r = peers ex_hub r)
    \<and> write_step h1 12 (WFrame True) = Some (h2, Some ex_frame, True)
    \<and> ws_step ex_runner slow_dev 0 [] (fresh_conn [Some (BinaryMessage, ex_frame)] []) = Pumping w' cb' \<and> id w' = id [] @ ex_frame"
    by (rule frame_crosses [OF ex_hub_ok ex_hub_sel(3,4) _ _ _ _ _ _ ex_frame_ok _ _ _ _ _ _ dev, where k = "0x020000000002"])
      (simp_all add: d g n ex_MACKey ex_hub_sel ex_peer_sel ex_runner_def mac_a_def)
  then show ?thesis by auto
qed

definition ex_read :: "string \<Rightarrow> string res" where
  "ex_read path = Inr (if path = ''/etc/wsn/client.key'' then pc_Key (fst ex_added_pair) @ [CHR 0x0A] else ''CA'')"

theorem provisioned_client_served_witness:
  "\<exists>S client ccfg r relay_conn client_conn.
    relay_New (relay_config (snd ex_added_pair)) = Inr S
    \<and> checkClient Unix (bundle_config (snd ex_added_pair) (fst ex_added_pair)) = Inr ccfg \<and> client_New ex_read (\<lambda>_. True) ccfg = Inr r
    \<and> authenticate (s_clients S) (s_handshake S) (s_idle S) 2048 (Some (replicate 32 9)) 0 0
        (fresh_conn (map Some (out_msgs client_conn)) []) = (Inr client, relay_conn)
    \<and> client_authenticate r 0 0 (fresh_conn (map Some (out_msgs relay_conn)) []) = (None, client_conn)"
proof -
  let ?st = "snd ex_added_pair" and ?c = "fst ex_added_pair"
  note ok = ex_added_ok(2-4)
  have os: "bundle_os ?c = Unix" using ok(3) by (simp add: bundle_os_def)
  have d: "distinct (map pc_MAC (st_Clients ?st))" and mem: "?c \<in> set (st_Clients ?st)" using ok(2) by simp_all
  have rk: "ex_read (c_KeyFile (bundle_config ?st ?c)) = Inr (pc_Key ?c @ [CHR 0x0A])"
    and rc: "ex_read (c_CAFile (bundle_config ?st ?c)) = Inr ''CA''"
    using ok(3) by (simp_all add: bundle_config_def Let_def ex_read_def)
  have ch: "length (replicate 32 9 :: bytes) = ChallengeSize" by (simp add: ChallengeSize_def)
  have "\<exists>rcfg S client ccfg r relay_conn client_conn.
    checkRelay (relay_config ?st) = Inr rcfg \<and> relay_New rcfg = Inr S \<and> authorized S (pc_ID ?c) = Some client
    \<and> checkClient (bundle_os ?c) (bundle_config ?st ?c) = Inr ccfg \<and> client_New ex_read (\<lambda>_. True) ccfg = Inr r
    \<and> authenticate (s_clients S) (s_handshake S) (s_idle S) (r_MaxFrameSize rcfg) (Some (replicate 32 9)) 0 0
        (fresh_conn (map Some (out_msgs client_conn)) []) = (Inr client, relay_conn)
    \<and> client_authenticate r 0 0 (fresh_conn (map Some (out_msgs relay_conn)) []) = (None, client_conn)"
    by (rule provisioned_client_served [OF ok(1) d mem rk rc TrueI ch])
  moreover have "checkRelay (relay_config ?st) = Inr (relay_config ?st)" by (rule relay_config_checked(2) [OF ok(1) d])
  moreover have "r_MaxFrameSize (relay_config ?st) = 2048" by (simp add: relay_config_def DefaultMaxFrameSize_def)
  ultimately show ?thesis using os by (auto, blast)
qed

theorem rendered_configs_load_witness:
  "checkRelay (relay_config (snd ex_added_pair)) = Inr (relay_config (snd ex_added_pair))"
proof -
  have "distinct (map pc_MAC (st_Clients (snd ex_added_pair)))" using ex_added_ok(3) by simp
  then show ?thesis using rendered_configs_load [OF ex_added_ok(2)] by auto
qed

end
