(* ===== verification/Flags.thy ===== *)
theory Flags
  imports Go_Strings
begin

text \<open>
  What the commands use of the package \<^verbatim>\<open>flag\<close>: sets of string flags with defaults, parsed from the arguments with
  \<^verbatim>\<open>flag.ExitOnError\<close>; and \<^verbatim>\<open>splitList\<close> of \<^verbatim>\<open>cmd/wsnctl/main.go\<close>.
\<close>

section \<open>Parsing\<close>

text \<open>The name and, after the first \<^verbatim>\<open>=\<close>, the value.\<close>

fun split_flag :: "string \<Rightarrow> string \<times> string option" where
  "split_flag [] = ([], None)"
| "split_flag (c # s) =
     (if c = CHR ''='' then ([], Some s)
      else (case split_flag s of (name, v) \<Rightarrow> (c # name, v)))"

text \<open>The flags that are defined, with their current values, and the arguments that are left.\<close>

datatype flag_result = Flags "string \<rightharpoonup> string" "string list" | HelpRequested | BadFlags

fun flag_Parse :: "(string \<rightharpoonup> string) \<Rightarrow> string list \<Rightarrow> flag_result" where
  "flag_Parse flags [] = Flags flags []"
| "flag_Parse flags (s # args) =
     (if length s < 2 \<or> hd s \<noteq> CHR ''-'' then Flags flags (s # args)
      else if s = ''--'' then Flags flags args
      else
        (let name = (if s ! 1 = CHR ''-'' then drop 2 s else drop 1 s) in
         if name = [] \<or> hd name = CHR ''-'' \<or> hd name = CHR ''='' then BadFlags
         else
           (case split_flag name of (name, given) \<Rightarrow>
              if flags name = None then (if name = ''help'' \<or> name = ''h'' then HelpRequested else BadFlags)
              else (case given of
                  Some v \<Rightarrow> flag_Parse (flags(name \<mapsto> v)) args
                | None \<Rightarrow> (case args of [] \<Rightarrow> BadFlags | v # args \<Rightarrow> flag_Parse (flags(name \<mapsto> v)) args)))))"

text \<open>The value of a flag; every flag that is read is defined.\<close>

definition flag_value :: "(string \<rightharpoonup> string) \<Rightarrow> string \<Rightarrow> string" where
  "flag_value flags name = (case flags name of None \<Rightarrow> '''' | Some v \<Rightarrow> v)"

definition splitList :: "string \<Rightarrow> string list" where
  "splitList v = (if TrimSpace v = '''' then [] else map TrimSpace (Split (CHR '','') v))"

section \<open>Writing a command line\<close>

text \<open>Each option as two arguments.\<close>

definition flag_args :: "(string \<times> string) list \<Rightarrow> string list" where
  "flag_args options = concat (map (\<lambda>(name, v). [CHR ''-'' # name, v]) options)"

text \<open>A name that can be written this way.\<close>

definition flag_name :: "string \<Rightarrow> bool" where
  "flag_name name \<longleftrightarrow> name \<noteq> [] \<and> hd name \<noteq> CHR ''-'' \<and> CHR ''='' \<notin> set name"

lemma split_flag_plain: "CHR ''='' \<notin> set name \<Longrightarrow> split_flag name = (name, None)"
  by (induction name) auto

lemma flag_Parse_args:
  assumes "\<forall>(name, v) \<in> set options. flag_name name \<and> flags name \<noteq> None"
  shows "flag_Parse flags (flag_args options) = Flags (foldl (\<lambda>f (name, v). f(name \<mapsto> v)) flags options) []"
  using assms
proof (induction options arbitrary: flags)
  case (Cons p options)
  obtain name v where p: "p = (name, v)" by fastforce
  then have n: "flag_name name" "flags name \<noteq> None" using Cons.prems by auto
  then obtain c cs where name: "name = c # cs" "c \<noteq> CHR ''-''" "c \<noteq> CHR ''=''" by (cases name) (auto simp: flag_name_def)
  have "flag_Parse flags (flag_args (p # options)) = flag_Parse (flags(name \<mapsto> v)) (flag_args options)"
    using n split_flag_plain [of name] name by (auto simp: flag_args_def p flag_name_def)
  moreover have "\<forall>(name', v') \<in> set options. flag_name name' \<and> (flags(name \<mapsto> v)) name' \<noteq> None"
    using Cons.prems by auto
  ultimately show ?case using Cons.IH p by simp
qed (simp add: flag_args_def)

text \<open>What a command line sets a flag to: the last value given, or the default.\<close>

definition setting :: "(string \<times> string) list \<Rightarrow> string \<Rightarrow> string \<Rightarrow> string" where
  "setting options name dflt = (case map_of (rev options) name of None \<Rightarrow> dflt | Some v \<Rightarrow> v)"

lemma foldl_options: "foldl (\<lambda>f (name, v). f(name \<mapsto> v)) flags options = flags ++ map_of (rev options)"
proof (induction options rule: rev_induct)
  case (snoc p ps)
  then show ?case by (cases p) (simp add: fun_eq_iff map_add_def split: option.splits)
qed simp

lemma flag_Parse_setting:
  assumes "\<forall>(name, v) \<in> set options. flag_name name \<and> map_of defaults name \<noteq> None"
  obtains flags where "flag_Parse (map_of defaults) (flag_args options) = Flags flags []"
    "\<And>name v. map_of defaults name = Some v \<Longrightarrow> flag_value flags name = setting options name v"
  using flag_Parse_args [OF assms] unfolding foldl_options
  by (rule that) (auto simp: flag_value_def setting_def map_add_def split: option.splits)

text \<open>What is printed as a comma-separated list is read back, when the items are non-empty, without commas and without white space.\<close>

definition list_item :: "string \<Rightarrow> bool" where
  "list_item x \<longleftrightarrow> x \<noteq> [] \<and> (\<forall>c \<in> set x. 32 < (of_char c :: nat) \<and> (of_char c :: nat) < 128 \<and> c \<noteq> CHR '','')"

lemma splitList_Join:
  assumes "\<forall>x \<in> set xs. list_item x"
  shows "splitList (Join '','' xs) = xs"
proof (cases xs)
  case Nil
  then show ?thesis by (simp add: splitList_def) code_simp
next
  case (Cons x ys)
  have "\<forall>c \<in> set (Join '','' xs). 32 < (of_char c :: nat) \<and> (of_char c :: nat) < 128"
  proof
    fix c assume "c \<in> set (Join '','' xs)"
    then have "c = CHR '','' \<or> (\<exists>x \<in> set xs. c \<in> set x)" using set_Join [of "'',''" xs] by auto
    then show "32 < (of_char c :: nat) \<and> (of_char c :: nat) < 128"
      using assms unfolding list_item_def by (elim disjE bexE) (simp, blast)
  qed
  then have "TrimSpace (Join '','' xs) = Join '','' xs" by (rule TrimSpace_ascii_id)
  moreover have "Join '','' xs \<noteq> []"
  proof
    assume "Join '','' xs = []"
    moreover have "Split (CHR '','') (Join '','' xs) = xs" by (rule Split_Join) (use assms Cons in \<open>auto simp: list_item_def\<close>)
    ultimately have "xs = [[]]" by (simp only: Split.simps)
    then show False using assms by (simp add: list_item_def)
  qed
  moreover have "map TrimSpace xs = xs"
    using assms unfolding list_item_def by (intro map_idI TrimSpace_ascii_id) blast
  moreover have "Split (CHR '','') (Join '','' xs) = xs"
    by (rule Split_Join) (use assms Cons in \<open>auto simp: list_item_def\<close>)
  ultimately show ?thesis by (simp add: splitList_def)
qed

end
