(* ===== verification/Server_Process.thy ===== *)
theory Server_Process
  imports End_To_End Flags
begin

text \<open>
  \<^verbatim>\<open>cmd/wsn-server/main.go\<close> and \<^verbatim>\<open>ListenAndServe\<close> of \<^verbatim>\<open>relay.go\<close>: start, the goroutine that turns SIGHUP into a new
  configuration, the loop that applies it, and the end of the process, interleaved with everything the relay itself does
  (\<open>relay_step\<close>).

  The channel of signals holds one signal and further ones are dropped, \<open>hup_pending\<close>.  The channel of configurations is
  unbuffered: the watcher is \<open>Offering\<close> until the loop takes the value, and the loop takes the next one only after \<^verbatim>\<open>Reload\<close>
  has returned.  The file system is what the administrator deploys to the relay machine, and can change at any time.
\<close>

section \<open>States and steps\<close>

datatype watcher = Watching | Offering Relay | Gone

datatype serving = Serving | Returned "error option"

record process =
  core :: system
  watch :: watcher
  hup_pending :: bool
  cancelled :: bool
  loop :: serving
  disk :: filesystem

datatype event =
    Hangup | Terminate | Deployed | Loaded | LoadFailed | Delivered | Rejected | Relayed | WatcherEnds | LoopEnds

text \<open>
  The start: the configuration has been loaded, and \<^verbatim>\<open>watchReload\<close> has called \<^verbatim>\<open>signal.Notify\<close>.  A SIGHUP before that moment, which ends
  the program as it does by default, is not part of the process.
\<close>

definition server_init :: "string \<Rightarrow> process \<Rightarrow> bool" where
  "server_init path P \<longleftrightarrow>
     (\<exists>w cfg w' s. LoadRelay path w = (Inr cfg, w') \<and> files w = disk P \<and> relay_New cfg = Inr s
        \<and> core P = \<lparr>srv = s, phases = Map.empty, writers = {}, reload = Idle\<rparr>)
     \<and> watch P = Watching \<and> \<not> hup_pending P \<and> \<not> cancelled P \<and> loop P = Serving"

text \<open>\<^verbatim>\<open>watchReload\<close>: a signal is taken and the file is loaded; the context ends the goroutine.\<close>

inductive watch_step :: "string \<Rightarrow> process \<Rightarrow> event \<Rightarrow> process \<Rightarrow> bool" for path where
  watch_loaded: "watch P = Watching \<Longrightarrow> hup_pending P \<Longrightarrow> files w = disk P \<Longrightarrow> LoadRelay path w = (Inr cfg, w') \<Longrightarrow>
    watch_step path P Loaded (P\<lparr>hup_pending := False, watch := Offering cfg\<rparr>)"
| watch_failed: "watch P = Watching \<Longrightarrow> hup_pending P \<Longrightarrow> files w = disk P \<Longrightarrow> LoadRelay path w = (Inl e, w') \<Longrightarrow>
    watch_step path P LoadFailed (P\<lparr>hup_pending := False\<rparr>)"
| watch_ends: "cancelled P \<Longrightarrow> watch_step path P WatcherEnds (P\<lparr>watch := Gone\<rparr>)"

text \<open>
  The loop of \<^verbatim>\<open>ListenAndServe\<close>: it takes the configuration on offer and calls \<^verbatim>\<open>Reload\<close>, whose first step replaces the table of
  clients and whose further steps are \<open>relay_step\<close>s; or it ends, with the context or with the listener.
\<close>

inductive loop_step :: "process \<Rightarrow> event \<Rightarrow> process \<Rightarrow> bool" where
  loop_delivered: "watch P = Offering cfg \<Longrightarrow> loop P = Serving \<Longrightarrow> reload (core P) = Idle \<Longrightarrow> authorizedClients cfg = Inr m \<Longrightarrow>
    loop_step P Delivered (P\<lparr>watch := Watching, core := (core P)\<lparr>srv := (srv (core P))\<lparr>s_clients := m\<rparr>, reload := Swapped m\<rparr>\<rparr>)"
| loop_rejected: "watch P = Offering cfg \<Longrightarrow> loop P = Serving \<Longrightarrow> reload (core P) = Idle \<Longrightarrow> authorizedClients cfg = Inl e \<Longrightarrow>
    loop_step P Rejected (P\<lparr>watch := Watching\<rparr>)"
| loop_cancelled: "loop P = Serving \<Longrightarrow> reload (core P) = Idle \<Longrightarrow> cancelled P \<Longrightarrow> loop_step P LoopEnds (P\<lparr>loop := Returned shutdown\<rparr>)"
| loop_listen: "loop P = Serving \<Longrightarrow> reload (core P) = Idle \<Longrightarrow>
    loop_step P LoopEnds (P\<lparr>loop := Returned (if e = Err ''http: Server closed'' then None else Some e)\<rparr>)"

text \<open>The process: its two goroutines, the relay, the signals of the system and the file that the administrator deploys.\<close>

inductive server_step :: "string \<Rightarrow> process \<Rightarrow> event \<Rightarrow> process \<Rightarrow> bool" for path where
  hangup: "server_step path P Hangup (P\<lparr>hup_pending := True\<rparr>)"
| terminate: "server_step path P Terminate (P\<lparr>cancelled := True\<rparr>)"
| deployed: "server_step path P Deployed (P\<lparr>disk := F\<rparr>)"
| watching: "watch_step path P e Q \<Longrightarrow> server_step path P e Q"
| looping: "loop_step P e Q \<Longrightarrow> server_step path P e Q"
| relayed: "relay_step (core P) S \<Longrightarrow> reload (core P) = Idle \<longrightarrow> reload S = Idle \<Longrightarrow> server_step path P Relayed (P\<lparr>core := S\<rparr>)"

lemmas loaded = watching [OF watch_loaded]
lemmas delivered = looping [OF loop_delivered]
lemmas rejected = looping [OF loop_rejected]

text \<open>Nothing is left to do about signals and configurations.\<close>

definition settled :: "process \<Rightarrow> bool" where
  "settled P \<longleftrightarrow> \<not> hup_pending P \<and> watch P = Watching \<and> reload (core P) = Idle"

text \<open>The events that do not disturb a reload: the file stays what it is and can be read, and the process is not stopped.\<close>

definition undisturbed :: "event \<Rightarrow> bool" where
  "undisturbed e \<longleftrightarrow> e \<notin> {Terminate, Deployed, LoadFailed, LoopEnds}"

section \<open>The relay inside the process\<close>

text \<open>What the relay does inside the process it could do on its own.\<close>

lemma server_core_step:
  assumes "server_step path P e Q"
  shows "core Q = core P \<or> relay_step (core P) (core Q)"
  using assms
proof cases
  case watching
  then show ?thesis by cases auto
next
  case looping
  then show ?thesis by cases (auto intro: reload_swap)
qed auto

lemma server_init_core:
  assumes "server_init path P"
  shows "relay_init (core P)"
proof -
  obtain w cfg w' s where l: "LoadRelay path w = (Inr cfg, w')" and s: "relay_New cfg = Inr s"
    "core P = \<lparr>srv = s, phases = Map.empty, writers = {}, reload = Idle\<rparr>"
    using assms by (auto simp: server_init_def)
  obtain raw where "checkRelay raw = Inr cfg" using LoadRelay_Inr [OF l] by metis
  then have "relay_bounds_ok cfg" by (simp add: checkRelay_Inr relay_bounds_ok_def)
  then have "0 \<le> r_MaxPendingHandshakes cfg \<and> 0 \<le> r_ClientQueueSize cfg" by (auto simp: relay_bounds_ok_def)
  with s show ?thesis unfolding relay_init_def by auto
qed

abbreviation server_reachable :: "string \<Rightarrow> process \<Rightarrow> bool" where
  "server_reachable path \<equiv> reach (server_init path) (\<lambda>P Q. \<exists>e. server_step path P e Q)"

interpretation server: invariant_of "server_init path" "\<lambda>P Q. \<exists>e. server_step path P e Q" "\<lambda>P. reachable (core P)" for path
proof
  show "reachable (core P)" if "server_init path P" for P
    using server_init_core [OF that] by (rule reach_init)
  show "reachable (core Q)" if "reachable (core P)" "\<exists>e. server_step path P e Q" for P Q
    using that server_core_step [of path P _ Q] reach_step [OF that(1)] by metis
qed

section \<open>A signal is not lost\<close>

text \<open>
  As long as nothing disturbs the reload, the configuration in the file is still to be read, or is on offer, or is the one in use.
\<close>

definition follows :: "string \<Rightarrow> Relay \<Rightarrow> (string \<rightharpoonup> authorizedClient) \<Rightarrow> process \<Rightarrow> bool" where
  "follows path raw m P \<longleftrightarrow> (\<exists>mode cfg. disk P path = Some (RelayJSON raw, mode) \<and> checkRelay raw = Inr cfg \<and> authorizedClients cfg = Inr m
     \<and> (hup_pending P \<or> watch P = Offering cfg \<or> watch P = Watching \<and> s_clients (srv (core P)) = m \<or> cancelled P))"

lemma relay_step_clients:
  assumes "relay_step S T" and "reload S = Idle \<longrightarrow> reload T = Idle"
  shows "s_clients (srv T) = s_clients (srv S)"
  using assms by cases (auto dest: acquire_slot_Some)

lemma follows_step:
  assumes "server_step path P e Q" and "undisturbed e" and "follows path raw m P"
  shows "follows path raw m Q"
  using assms
proof cases
  case watching
  then show ?thesis
  proof cases
    case (watch_loaded w cfg' w')
    obtain mode cfg where f: "disk P path = Some (RelayJSON raw, mode)" "checkRelay raw = Inr cfg" "authorizedClients cfg = Inr m"
      using assms(3) by (auto simp: follows_def)
    obtain raw' mode' where "files w path = Some (RelayJSON raw', mode')" "checkRelay raw' = Inr cfg'"
      by (rule LoadRelay_Inr [OF watch_loaded(6)])
    then have "cfg' = cfg" using f(1,2) watch_loaded(5) by simp
    then show ?thesis using f watch_loaded(2) by (auto simp: follows_def)
  qed (use assms(2,3) in \<open>auto simp: follows_def undisturbed_def\<close>)
next
  case looping
  then show ?thesis by cases (use assms(2,3) in \<open>auto simp: follows_def undisturbed_def\<close>)
next
  case (relayed S)
  then show ?thesis using assms(3) relay_step_clients [OF relayed(3,4)] by (auto simp: follows_def)
qed (auto simp: follows_def undisturbed_def)

lemma follows_run: "run_of (server_step path) undisturbed P Q \<Longrightarrow> follows path raw m P \<Longrightarrow> follows path raw m Q"
  by (erule run_keeps) (auto intro: follows_step)

section \<open>What a reload achieves\<close>

text \<open>Without the step itself: the configuration of a file that loads, and its table.\<close>

lemma table_of_config:
  assumes "checkRelay raw = Inr cfg"
  obtains m where "authorizedClients cfg = Inr m" "dom m = rc_ID ` set (r_Clients cfg)"
  using checkRelay_table [OF assms] by blast

lemma reload_effective:
  assumes "server_reachable path P" and "disk P path = Some (RelayJSON raw, mode)" and "checkRelay raw = Inr cfg"
    and "run_of (server_step path) undisturbed (P\<lparr>hup_pending := True\<rparr>) Q" and "settled Q" and "\<not> cancelled Q"
  obtains m where "authorizedClients cfg = Inr m" "dom m = rc_ID ` set (r_Clients cfg)" "s_clients (srv (core Q)) = m" "reachable (core Q)"
proof -
  obtain m where m: "authorizedClients cfg = Inr m" "dom m = rc_ID ` set (r_Clients cfg)" by (rule table_of_config [OF assms(3)])
  have "follows path raw m (P\<lparr>hup_pending := True\<rparr>)" using assms(2,3) m(1) by (simp add: follows_def)
  then have "follows path raw m Q" by (rule follows_run [OF assms(4)])
  then have "s_clients (srv (core Q)) = m" using assms(5,6) by (auto simp: follows_def settled_def)
  moreover have "reachable (core (P\<lparr>hup_pending := True\<rparr>))" using server.inv_reach [OF assms(1)] by simp
  then have "reachable (core Q)"
    by (rule run_keeps [where I = "\<lambda>P. reachable (core P)", OF assms(4)]) (blast intro: server.inv_step)
  ultimately show thesis using that m by blast
qed

text \<open>
  C2. A revocation takes effect.  When \<^verbatim>\<open>RevokeClient\<close> has succeeded on a well-formed deployment, the \<^verbatim>\<open>server.json\<close> it wrote
  is deployed and the relay gets SIGHUP, then, in every interleaving with sessions, handshakes, further signals and a reload
  that was already on its way: once the relay has settled, the revoked identity is not authorized, no
  session under it is served, and everybody else in the deployment is still authorized.
\<close>

theorem revocation_takes_effect:
  assumes st: "state_ok st'" "distinct (map pc_MAC (st_Clients st'))"
    and revoked: "revoke_client st cid = Inr st'"
    and deployed: "server_reachable path P" "disk P path = Some (RelayJSON (relay_config st'), mode)"
    and hup: "run_of (server_step path) undisturbed (P\<lparr>hup_pending := True\<rparr>) Q" and "settled Q" and "\<not> cancelled Q"
  shows "authorized (srv (core Q)) cid = None
    \<and> (\<forall>r p. phases (core Q) r = Some Running \<longrightarrow> peers (hub_of (core Q)) r = Some p \<longrightarrow> \<not> p_stopOnce p \<longrightarrow>
         \<not> superseded (core Q) r \<longrightarrow> p_id p \<noteq> cid)
    \<and> (\<forall>c \<in> set (st_Clients st'). authorized (srv (core Q)) (pc_ID c) \<noteq> None)"
proof -
  have chk: "checkRelay (relay_config st') = Inr (relay_config st')" by (rule relay_config_checked(2) [OF st])
  obtain m where m: "dom m = rc_ID ` set (r_Clients (relay_config st'))" "s_clients (srv (core Q)) = m" "reachable (core Q)"
    by (rule reload_effective [OF deployed chk hup assms(7,8)])
  have ids: "rc_ID ` set (r_Clients (relay_config st')) = pc_ID ` set (st_Clients st')" by (simp add: relay_config_def image_image)
  have "cid \<notin> pc_ID ` set (st_Clients st')" using revoked by (auto simp: revoke_client_Inr)
  then have "cid \<notin> dom m" using m(1) ids by simp
  then have gone: "m cid = None" by (simp add: domIff)
  have "p_id p \<noteq> cid" if "phases (core Q) r = Some Running" "peers (hub_of (core Q)) r = Some p" "\<not> p_stopOnce p" "\<not> superseded (core Q) r" for r p
    using served_registered [OF m(3) _ that] assms(7) gone m(2) by (auto simp: settled_def)
  moreover have "m (pc_ID c) \<noteq> None" if "c \<in> set (st_Clients st')" for c
  proof -
    have "pc_ID c \<in> dom m" using that m(1) ids by blast
    then show ?thesis by auto
  qed
  ultimately show ?thesis using gone m(2) by (simp add: authorized_def)
qed

section \<open>A reload is always possible\<close>

lemmas server_run_step = run_step [where step = "server_step path" for path]

text \<open>The reload in progress can be brought to its end.\<close>

lemma finish_stops:
  assumes "reload (core P) = Disconnecting qs"
  shows "\<exists>Q. run_of (server_step path) undisturbed P Q \<and> reload (core Q) = Idle \<and> Q = P\<lparr>core := core Q\<rparr>"
  using assms
proof (induction qs arbitrary: P)
  case Nil
  let ?Q = "P\<lparr>core := (core P)\<lparr>reload := Idle\<rparr>\<rparr>"
  have "server_step path P Relayed ?Q" by (rule relayed [OF reload_done]) (use Nil in simp_all)
  then have "run_of (server_step path) undisturbed P ?Q" by (rule server_run_step [OF run_refl, rotated]) (simp add: undisturbed_def)
  then show ?case by (intro exI [of _ ?Q]) simp
next
  case (Cons q qs)
  let ?S = "set_hub (stop_ref q (hub_of (core P))) ((core P)\<lparr>reload := Disconnecting qs\<rparr>)"
  let ?P = "P\<lparr>core := ?S\<rparr>"
  have 1: "server_step path P Relayed ?P" by (rule relayed [OF reload_stop]) (use Cons.prems in simp_all)
  obtain Q where Q: "run_of (server_step path) undisturbed ?P Q" "reload (core Q) = Idle" "Q = ?P\<lparr>core := core Q\<rparr>"
    using Cons.IH [of ?P] by auto
  have "run_of (server_step path) undisturbed P Q"
    by (rule run_first [where step = "server_step path", OF 1 _ Q(1)]) (simp add: undisturbed_def)
  with Q(2,3) show ?case by (intro exI [of _ Q]) simp
qed

lemma finish_reload:
  obtains Q where "run_of (server_step path) undisturbed P Q" "reload (core Q) = Idle" "Q = P\<lparr>core := core Q\<rparr>"
proof (cases "reload (core P)")
  case Idle
  then show thesis using that [of P] by (simp add: run_refl)
next
  case (Disconnecting qs)
  then show thesis using finish_stops that by blast
next
  case (Swapped m)
  let ?P = "P\<lparr>core := (core P)\<lparr>reload := Disconnecting (stale_peers m (hub_of (core P)))\<rparr>\<rparr>"
  have 1: "server_step path P Relayed ?P" by (rule relayed [OF reload_collect]) (use Swapped in simp_all)
  obtain Q where Q: "run_of (server_step path) undisturbed ?P Q" "reload (core Q) = Idle" "Q = ?P\<lparr>core := core Q\<rparr>"
    using finish_stops [of ?P] by auto
  have "run_of (server_step path) undisturbed P Q"
    by (rule run_first [where step = "server_step path", OF 1 _ Q(1)]) (simp add: undisturbed_def)
  with Q(2,3) show thesis using that [of Q] by simp
qed

text \<open>The value on offer can be taken and applied.\<close>

lemma finish_offer:
  assumes "loop P = Serving" and "watch P \<noteq> Gone"
  obtains Q where "run_of (server_step path) undisturbed P Q" "reload (core Q) = Idle" "watch Q = Watching"
    "hup_pending Q = hup_pending P" "disk Q = disk P" "cancelled Q = cancelled P" "loop Q = Serving"
proof -
  obtain P1 where P1: "run_of (server_step path) undisturbed P P1" "reload (core P1) = Idle" "P1 = P\<lparr>core := core P1\<rparr>"
    by (rule finish_reload)
  have same: "watch P1 = watch P" "loop P1 = loop P" "hup_pending P1 = hup_pending P" "disk P1 = disk P" "cancelled P1 = cancelled P"
    by (subst P1(3), simp)+
  show thesis
  proof (cases "watch P")
    case Watching
    then show thesis using that [OF P1(1,2)] same assms(1) by simp
  next
    case (Offering cfg)
    obtain P2 e where P2: "server_step path P1 e P2" "undisturbed e" "watch P2 = Watching" "hup_pending P2 = hup_pending P"
      "disk P2 = disk P" "cancelled P2 = cancelled P" "loop P2 = Serving"
    proof (cases "authorizedClients cfg")
      case (Inl e)
      show thesis by (rule that [OF rejected]) (use Offering same P1(2) assms(1) Inl in \<open>simp_all add: undisturbed_def\<close>)
    next
      case (Inr m)
      show thesis by (rule that [OF delivered]) (use Offering same P1(2) assms(1) Inr in \<open>simp_all add: undisturbed_def\<close>)
    qed
    obtain Q where Q: "run_of (server_step path) undisturbed P2 Q" "reload (core Q) = Idle" "Q = P2\<lparr>core := core Q\<rparr>"
      by (rule finish_reload)
    have eq: "watch Q = watch P2" "loop Q = loop P2" "hup_pending Q = hup_pending P2" "disk Q = disk P2" "cancelled Q = cancelled P2"
      by (subst Q(3), simp)+
    have "run_of (server_step path) undisturbed P P2" by (rule server_run_step [OF P1(1) P2(2,1)])
    then have "run_of (server_step path) undisturbed P Q" by (rule run_trans [OF Q(1)])
    then show thesis using that Q(2) eq P2 by simp
  qed (use assms(2) in simp)
qed

lemma gone_cancelled: "server_reachable path P \<Longrightarrow> watch P = Gone \<longrightarrow> cancelled P"
proof (induction rule: reach.induct)
  case (reach_init P)
  then show ?case by (auto simp: server_init_def)
next
  case (reach_step P Q)
  then obtain e where "server_step path P e Q" by blast
  then show ?case using reach_step.IH by cases (auto elim: watch_step.cases loop_step.cases)
qed

lemma reload_can_settle:
  assumes "server_reachable path P" and "\<not> cancelled P" and "loop P = Serving"
    and "disk P path = Some (RelayJSON raw, mode)" and "checkRelay raw = Inr cfg"
  shows "\<exists>Q. run_of (server_step path) undisturbed (P\<lparr>hup_pending := True\<rparr>) Q \<and> settled Q \<and> \<not> cancelled Q
    \<and> dom (s_clients (srv (core Q))) = rc_ID ` set (r_Clients cfg)"
proof -
  let ?P = "P\<lparr>hup_pending := True\<rparr>"
  have "watch ?P \<noteq> Gone" using gone_cancelled [OF assms(1)] assms(2) by auto
  then obtain P1 where P1: "run_of (server_step path) undisturbed ?P P1" "reload (core P1) = Idle" "watch P1 = Watching"
    "hup_pending P1" "disk P1 = disk P" "cancelled P1 = cancelled P" "loop P1 = Serving"
    using finish_offer [of ?P path] assms(3) by auto
  obtain w w' where w: "files w = disk P1" "LoadRelay path w = (Inr cfg, w')"
    using P1(5) LoadRelay_no_faults [where F = "disk P", OF assms(4,5)] by metis
  let ?P2 = "P1\<lparr>hup_pending := False, watch := Offering cfg\<rparr>"
  have "server_step path P1 Loaded ?P2" by (rule loaded [OF P1(3,4) w])
  then have 2: "run_of (server_step path) undisturbed ?P ?P2" by (rule server_run_step [OF P1(1), rotated]) (simp add: undisturbed_def)
  obtain Q where Q: "run_of (server_step path) undisturbed ?P2 Q" "reload (core Q) = Idle" "watch Q = Watching" "\<not> hup_pending Q"
    "cancelled Q = cancelled P"
    using finish_offer [of ?P2 path] P1(6,7) by auto
  have run: "run_of (server_step path) undisturbed ?P Q" by (rule run_trans [OF Q(1) 2])
  have fin: "settled Q" "\<not> cancelled Q" using Q assms(2) by (simp_all add: settled_def)
  obtain m where "dom m = rc_ID ` set (r_Clients cfg)" "s_clients (srv (core Q)) = m"
    by (rule reload_effective [OF assms(1,4,5) run fin])
  then show ?thesis using run fin by (intro exI [of _ Q]) simp
qed

text \<open>
  C15. A reload can always be carried out.  In every reachable state of a relay that has not been told to stop, whatever its sessions,
  signals and earlier reloads are doing, a SIGHUP for a configuration that loads can be followed, without any
  outside help, by a state in which the relay has settled with exactly the identities of that configuration.
\<close>

theorem reload_possible:
  assumes "server_reachable path P" and "\<not> cancelled P" and "loop P = Serving"
    and "disk P path = Some (RelayJSON raw, mode)" and "checkRelay raw = Inr cfg"
  shows "\<exists>Q. run_of (server_step path) undisturbed (P\<lparr>hup_pending := True\<rparr>) Q \<and> settled Q \<and> \<not> cancelled Q
    \<and> dom (s_clients (srv (core Q))) = rc_ID ` set (r_Clients cfg)"
  using assms by (rule reload_can_settle)

section \<open>Examples\<close>

text \<open>A relay started with one client, and the file from which it has been revoked.\<close>

definition ex_path :: string where "ex_path = ''/etc/wsn/server.json''"

definition ex_started :: process where
  "ex_started = \<lparr>core = \<lparr>srv = (case relay_New (relay_config (snd ex_added_pair)) of Inr s \<Rightarrow> s | Inl _ \<Rightarrow> undefined),
       phases = Map.empty, writers = {}, reload = Idle\<rparr>,
     watch = Watching, hup_pending = False, cancelled = False, loop = Serving,
     disk = [ex_path \<mapsto> (RelayJSON (relay_config (snd ex_added_pair)), mode_0600)]\<rparr>"

definition ex_redeployed :: process where
  "ex_redeployed = ex_started\<lparr>disk := [ex_path \<mapsto> (RelayJSON (relay_config ex_st0), mode_0600)]\<rparr>"

lemma ex_redeployed_reachable: "server_reachable ex_path ex_redeployed"
proof -
  have d: "distinct (map pc_MAC (st_Clients (snd ex_added_pair)))" and mem: "fst ex_added_pair \<in> set (st_Clients (snd ex_added_pair))"
    using ex_added_ok(3) by simp_all
  obtain S where S: "relay_New (relay_config (snd ex_added_pair)) = Inr S"
    "checkRelay (relay_config (snd ex_added_pair)) = Inr (relay_config (snd ex_added_pair))"
    by (rule provisioned_relay [OF ex_added_ok(2) d mem]) (rule that)
  obtain w w' where "files w = disk ex_started" "LoadRelay ex_path w = (Inr (relay_config (snd ex_added_pair)), w')"
    by (rule LoadRelay_no_faults [where F = "disk ex_started", OF _ S(2)]) (auto simp: ex_started_def)
  then have "server_init ex_path ex_started" using S(1) unfolding server_init_def by (auto simp: ex_started_def)
  then have "server_reachable ex_path ex_started" by (rule reach_init)
  moreover have "\<exists>e. server_step ex_path ex_started e ex_redeployed" unfolding ex_redeployed_def by (rule exI, rule deployed)
  ultimately show ?thesis by (rule reach_step)
qed

lemma ex_st0_loads: "checkRelay (relay_config ex_st0) = Inr (relay_config ex_st0)"
  by (rule relay_config_checked(2) [OF ex_st0_ok]) (simp add: ex_st0_def)

theorem reload_possible_witness:
  "\<exists>Q. run_of (server_step ex_path) undisturbed (ex_redeployed\<lparr>hup_pending := True\<rparr>) Q \<and> settled Q \<and> dom (s_clients (srv (core Q))) = {}"
  using reload_possible [OF ex_redeployed_reachable _ _ _ ex_st0_loads, of mode_0600]
  by (auto simp: ex_redeployed_def ex_started_def relay_config_def ex_st0_def)

theorem revocation_takes_effect_witness:
  "\<exists>Q. run_of (server_step ex_path) undisturbed (ex_redeployed\<lparr>hup_pending := True\<rparr>) Q \<and> authorized (srv (core Q)) (pc_ID (fst ex_added_pair)) = None"
proof -
  have sel: "disk ex_redeployed ex_path = Some (RelayJSON (relay_config ex_st0), mode_0600)" "\<not> cancelled ex_redeployed" "loop ex_redeployed = Serving"
    by (simp_all add: ex_redeployed_def ex_started_def)
  obtain Q where Q: "run_of (server_step ex_path) undisturbed (ex_redeployed\<lparr>hup_pending := True\<rparr>) Q" "settled Q" "\<not> cancelled Q"
    using reload_can_settle [OF ex_redeployed_reachable sel(2,3,1) ex_st0_loads] by blast
  have "add_client ex_st0 ex_add (Inr ex_key) (Inr ex_rnd) = Inr (fst ex_added_pair, snd ex_added_pair)" by (simp add: ex_added_ok(1))
  then have "revoke_client (snd ex_added_pair) (pc_ID (fst ex_added_pair)) = Inr ex_st0" by (rule revoke_added(1) [OF ex_st0_ok])
  from revocation_takes_effect [OF ex_st0_ok _ this ex_redeployed_reachable sel(1) Q]
  show ?thesis using Q(1) by (auto simp: ex_st0_def)
qed

end
