(* ===== verification/Netcheck.thy ===== *)
theory Netcheck
  imports Config
begin

text \<open>
  \<^verbatim>\<open>internal/netcheck/netcheck_linux.go\<close>: the check, before the tunnel is brought up,
  that the networks of a client do not collide with routes the host already has.

  The kernel's routing table is an input: the error of opening \<^verbatim>\<open>/proc/net/route\<close>, or the
  lines the scanner delivers and the error it ends with.
\<close>

unbundle bit_operations_syntax

section \<open>Reading the routing table\<close>

text \<open>\<^verbatim>\<open>strings.Fields\<close>\<close>

fun take_field :: "string \<Rightarrow> string" where
  "take_field [] = []"
| "take_field (c # cs) = (if leading_space (c # cs) \<noteq> 0 then [] else c # take_field cs)"

lemma leading_space_trim [simp]: "leading_space (trim_left s) = 0"
  by (induction s rule: trim_left.induct) (metis trim_left.simps)

lemma length_trim_left: "length (trim_left s) \<le> length s"
proof (induction s rule: trim_left.induct)
  case (1 s)
  then show ?case by (cases "leading_space s = 0") (simp_all add: trim_left.simps [of s])
qed

function Fields :: "string \<Rightarrow> string list" where
  "Fields s =
     (let t = trim_left s in
      if t = [] then [] else take_field t # Fields (drop (length (take_field t)) t))"
  by pat_completeness auto
termination
proof (relation "measure length", simp)
  fix s t :: string
  assume t: "t = trim_left s" "t \<noteq> []"
  then have "leading_space t = 0" by simp
  with t(2) have "take_field t \<noteq> []" by (cases t) simp_all
  then show "(drop (length (take_field t)) t, s) \<in> measure length"
    using t length_trim_left [of s] by (simp add: less_le_trans [OF diff_less])
qed

declare Fields.simps [simp del]

text \<open>\<^verbatim>\<open>strconv.ParseUint(s, 16, 32)\<close>: \<open>None\<close> for a syntax or a range error.\<close>

definition ParseUint_16_32 :: "string \<Rightarrow> int option" where
  "ParseUint_16_32 s =
     (if s = [] then None
      else (case those (map hex_val s) of
          None \<Rightarrow> None
        | Some ds \<Rightarrow>
            (let n = foldl (\<lambda>n d. 16 * n + int d) 0 ds in if n < 2 ^ 32 then Some n else None)))"

text \<open>\<^verbatim>\<open>binary.LittleEndian.PutUint32\<close>\<close>

definition le_bytes4 :: "int \<Rightarrow> bytes" where
  "le_bytes4 n = map word_of_int [n mod 256, n div 2 ^ 8 mod 256, n div 2 ^ 16 mod 256, n div 2 ^ 24 mod 256]"

text \<open>The two nested loops of \<^verbatim>\<open>netMaskBits\<close> visit the bits of the four bytes, highest first.\<close>

definition mask_bit_list :: "bytes \<Rightarrow> bool list" where
  "mask_bit_list netmask = concat (map (\<lambda>v. map (\<lambda>i. bit v i) [7, 6, 5, 4, 3, 2, 1, 0]) netmask)"

fun netMaskBits_loop :: "bool list \<Rightarrow> nat \<Rightarrow> bool \<Rightarrow> int" where
  "netMaskBits_loop [] bits zeroSeen = int bits"
| "netMaskBits_loop (isSet # rest) bits zeroSeen =
     (if zeroSeen \<and> isSet then -1
      else if isSet then netMaskBits_loop rest (bits + 1) zeroSeen
      else netMaskBits_loop rest bits True)"

definition netMaskBits :: "bytes \<Rightarrow> int" where
  "netMaskBits netmask = netMaskBits_loop (mask_bit_list netmask) 0 False"

record systemRoute =
  sr_prefix :: Prefix
  sr_interfaceName :: string

definition addrFrom4 :: "bytes \<Rightarrow> ipv4" where
  "addrFrom4 b = of_octets (unat (b ! 0)) (unat (b ! 1)) (unat (b ! 2)) (unat (b ! 3))"

definition route_line :: "string \<Rightarrow> systemRoute option" where
  "route_line line =
     (let fields = Fields line in
      if length fields < 8 then None
      else (case (ParseUint_16_32 (fields ! 1), ParseUint_16_32 (fields ! 7)) of
          (Some destination, Some netmask) \<Rightarrow>
            (let bits = netMaskBits (le_bytes4 netmask) in
             if bits < 0 then None
             else Some \<lparr>sr_prefix = Masked (PrefixV4 (addrFrom4 (le_bytes4 destination)) (nat bits)),
                        sr_interfaceName = fields ! 0\<rparr>)
        | _ \<Rightarrow> None))"

definition systemRoutes :: "(string list \<times> error option) res \<Rightarrow> systemRoute list \<times> error option" where
  "systemRoutes file =
     (case file of
        Inl e \<Rightarrow> ([], Some e)
      | Inr (lines, err) \<Rightarrow> (List.map_filter route_line (drop 1 lines), err))"

section \<open>The checks\<close>

definition overlap :: "Prefix \<Rightarrow> Prefix \<Rightarrow> bool" where
  "overlap a b \<longleftrightarrow> Contains a (Prefix_Addr b) \<or> Contains b (Prefix_Addr a)"

text \<open>The inner loop over the host's routes, with the interfaces to skip and the error to report.\<close>

fun scan_routes :: "(systemRoute \<Rightarrow> bool) \<Rightarrow> (systemRoute \<Rightarrow> error) \<Rightarrow> Prefix \<Rightarrow> systemRoute list \<Rightarrow> error option" where
  "scan_routes skip err target [] = None"
| "scan_routes skip err target (existing # rest) =
     (if Bits (sr_prefix existing) = 0 \<or> skip existing then scan_routes skip err target rest
      else if overlap target (sr_prefix existing) then Some (err existing)
      else scan_routes skip err target rest)"

definition overlap_error :: "Prefix \<Rightarrow> systemRoute \<Rightarrow> error" where
  "overlap_error target existing =
     Errf ''configured network %s overlaps existing route %s on %s''
       [Prefix_String target, Prefix_String (sr_prefix existing), sr_interfaceName existing]"

fun scan_targets :: "(systemRoute \<Rightarrow> bool) \<Rightarrow> (Prefix \<Rightarrow> systemRoute \<Rightarrow> error) \<Rightarrow> Prefix list \<Rightarrow> systemRoute list \<Rightarrow> error option" where
  "scan_targets skip err [] routes = None"
| "scan_targets skip err (target # targets) routes =
     (case scan_routes skip (err target) target routes of
        Some e \<Rightarrow> Some e
      | None \<Rightarrow> scan_targets skip err targets routes)"

definition clientWithRoutes :: "Client \<Rightarrow> systemRoute list \<Rightarrow> error option" where
  "clientWithRoutes cfg routes =
     (let address = parsed (c_Address cfg);
          targets = Masked address # map (\<lambda>v. Masked (parsed v)) (c_Routes cfg)
      in scan_targets (\<lambda>existing. sr_interfaceName existing = c_Device cfg) overlap_error targets routes)"

definition gateway_error :: "string \<Rightarrow> Prefix \<Rightarrow> systemRoute \<Rightarrow> error" where
  "gateway_error egress target existing =
     Errf ''gateway destination %s overlaps route %s on %s instead of %s''
       [Prefix_String target, Prefix_String (sr_prefix existing), sr_interfaceName existing, egress]"

definition gatewayWithRoutes :: "Client \<Rightarrow> string \<Rightarrow> systemRoute list \<Rightarrow> error option" where
  "gatewayWithRoutes cfg egress routes =
     (let overlay = Masked (parsed (c_Address cfg)) in
      case scan_routes (\<lambda>existing. sr_interfaceName existing = c_Device cfg) (overlap_error overlay) overlay routes of
        Some e \<Rightarrow> Some e
      | None \<Rightarrow>
          scan_targets (\<lambda>existing. sr_interfaceName existing = egress \<or> sr_interfaceName existing = c_Device cfg)
            (gateway_error egress) (map parsed (c_Routes cfg)) routes)"

definition netcheck_Client :: "Client \<Rightarrow> (string list \<times> error option) res \<Rightarrow> error option" where
  "netcheck_Client cfg file =
     (case systemRoutes file of (routes, Some e) \<Rightarrow> Some e | (routes, None) \<Rightarrow> clientWithRoutes cfg routes)"

definition netcheck_Gateway :: "Client \<Rightarrow> string \<Rightarrow> (string list \<times> error option) res \<Rightarrow> error option" where
  "netcheck_Gateway cfg egress file =
     (case systemRoutes file of (routes, Some e) \<Rightarrow> Some e | (routes, None) \<Rightarrow> gatewayWithRoutes cfg egress routes)"

section \<open>Masks\<close>

lemma netMaskBits_loop_zeros:
  "netMaskBits_loop bs n True = (if True \<in> set bs then -1 else int n)"
  by (induction bs arbitrary: n) auto

lemma netMaskBits_loop_eq:
  "netMaskBits_loop bs n False =
     (if True \<in> set (dropWhile id bs) then -1 else int (n + length (takeWhile id bs)))"
  by (induction bs arbitrary: n) (auto simp: netMaskBits_loop_zeros)

text \<open>The mask with \<open>n\<close> leading ones.\<close>

lemma all_zeros: "True \<notin> set bs \<longleftrightarrow> bs = replicate (length bs) False"
  by (induction bs) auto

lemma leading_ones:
  "True \<notin> set (dropWhile id bs) \<longleftrightarrow>
     bs = replicate (length (takeWhile id bs)) True @ replicate (length bs - length (takeWhile id bs)) False"
proof (induction bs)
  case (Cons b bs)
  then show ?case using all_zeros [of bs] by (cases b) simp_all
qed simp

interpretation netcheck_overlap: overlap_test overlap
  by (rule overlap_testI) (simp add: overlap_def)

lemma length_le_bytes4: "length (le_bytes4 n) = 4"
  by (simp add: le_bytes4_def)

lemma mask_bit_list_length: "length (mask_bit_list m) = 8 * length m"
  unfolding mask_bit_list_def by (induction m) simp_all

lemma replicate_takeWhile: "bs = replicate n True @ replicate k False \<Longrightarrow> length (takeWhile id bs) = n \<and> True \<notin> set (dropWhile id bs)"
  by (induction n arbitrary: bs) (auto simp: takeWhile_replicate dropWhile_replicate)

section \<open>The scans decide disjointness\<close>

definition relevant :: "(systemRoute \<Rightarrow> bool) \<Rightarrow> systemRoute \<Rightarrow> bool" where
  "relevant skip rt \<longleftrightarrow> Bits (sr_prefix rt) \<noteq> 0 \<and> \<not> skip rt"

lemma scan_routes_None:
  "scan_routes skip err target routes = None \<longleftrightarrow>
     (\<forall>rt \<in> set routes. relevant skip rt \<longrightarrow> \<not> overlap target (sr_prefix rt))"
  by (induction routes) (auto simp: relevant_def)

lemma scan_targets_None:
  "scan_targets skip err targets routes = None \<longleftrightarrow>
     (\<forall>t \<in> set targets. \<forall>rt \<in> set routes. relevant skip rt \<longrightarrow> \<not> overlap t (sr_prefix rt))"
proof (induction targets)
  case (Cons t targets)
  then show ?case
    using scan_routes_None [of skip "err t" t routes]
    by (cases "scan_routes skip (err t) t routes") auto
qed simp

lemma clientWithRoutes_None:
  "clientWithRoutes cfg routes = None \<longleftrightarrow>
     (\<forall>v \<in> set (c_Address cfg # c_Routes cfg). \<forall>rt \<in> set routes.
        relevant (\<lambda>rt. sr_interfaceName rt = c_Device cfg) rt \<longrightarrow> \<not> overlap (Masked (parsed v)) (sr_prefix rt))"
  unfolding clientWithRoutes_def Let_def scan_targets_None by simp

lemma gatewayWithRoutes_None:
  "gatewayWithRoutes cfg egress routes = None \<longleftrightarrow>
     (\<forall>rt \<in> set routes. relevant (\<lambda>rt. sr_interfaceName rt = c_Device cfg) rt \<longrightarrow>
        \<not> overlap (Masked (parsed (c_Address cfg))) (sr_prefix rt))
     \<and> (\<forall>v \<in> set (c_Routes cfg). \<forall>rt \<in> set routes.
        relevant (\<lambda>rt. sr_interfaceName rt = egress \<or> sr_interfaceName rt = c_Device cfg) rt \<longrightarrow>
        \<not> overlap (parsed v) (sr_prefix rt))"
proof -
  have "gatewayWithRoutes cfg egress routes = None \<longleftrightarrow>
      scan_routes (\<lambda>rt. sr_interfaceName rt = c_Device cfg) (overlap_error (Masked (parsed (c_Address cfg))))
        (Masked (parsed (c_Address cfg))) routes = None
      \<and> scan_targets (\<lambda>rt. sr_interfaceName rt = egress \<or> sr_interfaceName rt = c_Device cfg)
            (gateway_error egress) (map parsed (c_Routes cfg)) routes = None"
    by (simp add: gatewayWithRoutes_def Let_def split: option.split)
  then show ?thesis unfolding scan_routes_None scan_targets_None by simp
qed

definition routes_valid :: "systemRoute list \<Rightarrow> bool" where
  "routes_valid routes \<longleftrightarrow> list_all (\<lambda>rt. valid_prefix (sr_prefix rt)) routes"

lemma overlap_disjoint:
  "valid_prefix p \<Longrightarrow> valid_prefix q \<Longrightarrow> (\<not> overlap p q) = (prefix_set p \<inter> prefix_set q = {})"
  using netcheck_overlap.ov_meet by blast

lemma route_line_valid: "route_line l = Some rt \<Longrightarrow> valid_prefix (sr_prefix rt) \<and> Masked (sr_prefix rt) = sr_prefix rt"
proof -
  have "netMaskBits (le_bytes4 m) \<le> 32" for m
  proof -
    have "length (takeWhile id (mask_bit_list (le_bytes4 m))) \<le> length (mask_bit_list (le_bytes4 m))"
      by (rule length_takeWhile_le)
    then show ?thesis
      by (simp add: netMaskBits_def netMaskBits_loop_eq mask_bit_list_length length_le_bytes4)
  qed
  moreover assume "route_line l = Some rt"
  ultimately show ?thesis
    by (auto simp: route_line_def Let_def drop_push_drop nat_le_iff split: option.splits if_splits)
qed

lemma systemRoutes_valid: "routes_valid (fst (systemRoutes file))"
proof -
  have "valid_prefix (sr_prefix rt)" if "rt \<in> set (List.map_filter route_line ls)" for rt ls
    using that route_line_valid by (auto simp: List.map_filter_def)
  then show ?thesis
    by (auto simp: systemRoutes_def routes_valid_def list_all_iff split: sum.splits prod.splits)
qed

section \<open>Properties\<close>

text \<open>
  Netmasks: four bytes are read as the prefix length \<open>n\<close> exactly when their 32 bits are
  \<open>n\<close> ones followed by zeros, and every other mask is rejected with \<open>-1\<close>.
\<close>

lemma netMaskBits_exact:
  assumes "length m = 4"
  shows "(netMaskBits m = int n \<longleftrightarrow> mask_bit_list m = replicate n True @ replicate (32 - n) False)
    \<and> (netMaskBits m = -1 \<longleftrightarrow> (\<nexists>n. mask_bit_list m = replicate n True @ replicate (32 - n) False))"
proof -
  let ?bs = "mask_bit_list m" and ?k = "length (takeWhile id (mask_bit_list m))"
  have len: "length ?bs = 32" using assms by (simp add: mask_bit_list_length)
  have eq: "netMaskBits m = (if True \<in> set (dropWhile id ?bs) then -1 else int ?k)"
    by (simp add: netMaskBits_def netMaskBits_loop_eq)
  have shape: "True \<notin> set (dropWhile id ?bs) \<longleftrightarrow> ?bs = replicate ?k True @ replicate (32 - ?k) False"
    using leading_ones [of ?bs] len by simp
  have "?k = n \<and> True \<notin> set (dropWhile id ?bs)" if "?bs = replicate n True @ replicate (32 - n) False" for n
    using replicate_takeWhile [OF that] .
  with eq shape show ?thesis by (auto split: if_splits)
qed

text \<open>
  C28. The check on an ordinary client.  For a configuration that loads and any routing
  table, \<^verbatim>\<open>netcheck.Client\<close> accepts exactly when the table could be read and neither the overlay
  nor any route of the client has an address in common with a route of the host that is
  neither a default route nor on the tunnel device itself.
\<close>

theorem netcheck_Client_exact:
  assumes "checkClient os cfg = Inr cfg'"
  shows "netcheck_Client cfg' file = None \<longleftrightarrow>
    snd (systemRoutes file) = None \<and>
    (\<forall>rt \<in> set (fst (systemRoutes file)). Bits (sr_prefix rt) \<noteq> 0 \<longrightarrow> sr_interfaceName rt \<noteq> c_Device cfg' \<longrightarrow>
       (\<forall>v \<in> set (c_Address cfg' # c_Routes cfg'). prefix_set (parsed v) \<inter> prefix_set (sr_prefix rt) = {}))"
proof -
  have cfg': "client_ok os cfg" "cfg' = normal_client cfg" using assms by (simp_all add: checkClient_Inr)
  then have v: "valid_prefix (Masked (parsed v))" if "v \<in> set (c_Address cfg' # c_Routes cfg')" for v
    using that parsed_valid by (fastforce simp: client_ok_def normal_client_def)
  have dis: "(\<not> overlap (Masked (parsed v)) (sr_prefix rt)) = (prefix_set (parsed v) \<inter> prefix_set (sr_prefix rt) = {})"
    if "v \<in> set (c_Address cfg' # c_Routes cfg')" "rt \<in> set (fst (systemRoutes file))" for v rt
    using overlap_disjoint [OF v [OF that(1)]] that(2) systemRoutes_valid [of "file"]
    by (simp add: routes_valid_def list_all_iff)
  obtain routes e where r: "systemRoutes file = (routes, e)" by (cases "systemRoutes file")
  show ?thesis
    using dis unfolding netcheck_Client_def r
    by (cases e) (simp_all add: clientWithRoutes_None relevant_def, blast)
qed

text \<open>
  C29. The check on the gateway is the same for the overlay; its destinations may also be
  reached through the egress interface, and through no other.
\<close>

theorem netcheck_Gateway_exact:
  assumes "checkClient os cfg = Inr cfg'"
  shows "netcheck_Gateway cfg' egress file = None \<longleftrightarrow>
    snd (systemRoutes file) = None \<and>
    (\<forall>rt \<in> set (fst (systemRoutes file)). Bits (sr_prefix rt) \<noteq> 0 \<longrightarrow> sr_interfaceName rt \<noteq> c_Device cfg' \<longrightarrow>
       prefix_set (parsed (c_Address cfg')) \<inter> prefix_set (sr_prefix rt) = {}
       \<and> (sr_interfaceName rt = egress
          \<or> (\<forall>v \<in> set (c_Routes cfg'). prefix_set (parsed v) \<inter> prefix_set (sr_prefix rt) = {})))"
proof -
  have cfg': "client_ok os cfg" "cfg' = normal_client cfg" using assms by (simp_all add: checkClient_Inr)
  then have v: "valid_prefix (parsed v)" if "v \<in> set (c_Address cfg' # c_Routes cfg')" for v
    using that parsed_valid by (fastforce simp: client_ok_def normal_client_def)
  have rv: "valid_prefix (sr_prefix rt)" if "rt \<in> set (fst (systemRoutes file))" for rt
    using that systemRoutes_valid [of "file"] by (simp add: routes_valid_def list_all_iff)
  have dis: "(\<not> overlap (parsed v) (sr_prefix rt)) = (prefix_set (parsed v) \<inter> prefix_set (sr_prefix rt) = {})"
    "(\<not> overlap (Masked (parsed v)) (sr_prefix rt)) = (prefix_set (parsed v) \<inter> prefix_set (sr_prefix rt) = {})"
    if "v \<in> set (c_Address cfg' # c_Routes cfg')" "rt \<in> set (fst (systemRoutes file))" for v rt
    using overlap_disjoint [OF v [OF that(1)] rv [OF that(2)]]
      overlap_disjoint [of "Masked (parsed v)", OF _ rv [OF that(2)]] v [OF that(1)] by simp_all
  obtain routes e where r: "systemRoutes file = (routes, e)" by (cases "systemRoutes file")
  show ?thesis
    using dis unfolding netcheck_Gateway_def r
    by (cases e) (simp_all add: gatewayWithRoutes_None relevant_def, blast)
qed

text \<open>A host with a default route and a local network 10.10.10.0/24 on \<^verbatim>\<open>eth0\<close>.\<close>

definition ex_table_lines :: "string list" where
  "ex_table_lines =
     [''Iface Destination Gateway Flags RefCnt Use Metric Mask MTU Window IRTT'',
      ''eth0 00000000 010A0A0A 0003 0 0 100 00000000 0 0 0'',
      ''eth0 000A0A0A 00000000 0001 0 0 100 00FFFFFF 0 0 0'']"

lemma ex_client_loads: "\<exists>cfg'. checkClient Unix ex_client_cfg = Inr cfg' \<and> netcheck_Client cfg' (Inr (ex_table_lines, None)) = None
    \<and> netcheck_Gateway cfg' ''eth0'' (Inr (ex_table_lines, None)) = None"
proof -
  have "(case checkClient Unix ex_client_cfg of Inl _ \<Rightarrow> False
      | Inr c \<Rightarrow> Option.is_none (netcheck_Client c (Inr (ex_table_lines, None)))
          \<and> Option.is_none (netcheck_Gateway c ''eth0'' (Inr (ex_table_lines, None))))"
    by code_simp
  then show ?thesis by (cases "checkClient Unix ex_client_cfg") (auto simp: Option.is_none_def)
qed

theorem netcheck_Client_exact_witness:
  "\<exists>cfg'. checkClient Unix ex_client_cfg = Inr cfg' \<and>
     (\<forall>rt \<in> set (fst (systemRoutes (Inr (ex_table_lines, None)))). Bits (sr_prefix rt) \<noteq> 0 \<longrightarrow>
        sr_interfaceName rt \<noteq> c_Device cfg' \<longrightarrow>
        (\<forall>v \<in> set (c_Address cfg' # c_Routes cfg'). prefix_set (parsed v) \<inter> prefix_set (sr_prefix rt) = {}))"
proof -
  obtain cfg' where cfg': "checkClient Unix ex_client_cfg = Inr cfg'"
    "netcheck_Client cfg' (Inr (ex_table_lines, None)) = None" using ex_client_loads by blast
  from netcheck_Client_exact [OF cfg'(1), of "Inr (ex_table_lines, None)"] cfg' show ?thesis by blast
qed

theorem netcheck_Gateway_exact_witness:
  "\<exists>cfg'. checkClient Unix ex_client_cfg = Inr cfg' \<and>
     (\<forall>rt \<in> set (fst (systemRoutes (Inr (ex_table_lines, None)))). Bits (sr_prefix rt) \<noteq> 0 \<longrightarrow>
        sr_interfaceName rt \<noteq> c_Device cfg' \<longrightarrow>
        prefix_set (parsed (c_Address cfg')) \<inter> prefix_set (sr_prefix rt) = {})"
proof -
  obtain cfg' where cfg': "checkClient Unix ex_client_cfg = Inr cfg'"
    "netcheck_Gateway cfg' ''eth0'' (Inr (ex_table_lines, None)) = None" using ex_client_loads by blast
  from netcheck_Gateway_exact [OF cfg'(1), of "''eth0''" "Inr (ex_table_lines, None)"] cfg' show ?thesis by blast
qed

end
