(* ===== verification/Programs.thy ===== *)
theory Programs
  imports Client_Runner Relay_Server Files Netcheck Flags
begin

text \<open>
  The programs \<^verbatim>\<open>cmd/wsn-server/main.go\<close> and \<^verbatim>\<open>cmd/wsn-client/main.go\<close>: what they do with their arguments before the relay or the
  client runs.  A program exits with a status and an error on standard error, or goes on with what it started.
\<close>

datatype 'a ending = Exit int "error option" | Go_on 'a

definition parsed_flags :: "(string \<times> string) list \<Rightarrow> string list \<Rightarrow> ((string \<Rightarrow> string) \<Rightarrow> 'a ending) \<Rightarrow> 'a ending" where
  "parsed_flags defaults args body =
     (case flag_Parse (map_of defaults) args of
        BadFlags \<Rightarrow> Exit 2 None
      | HelpRequested \<Rightarrow> Exit 0 None
      | Flags flags _ \<Rightarrow> body (flag_value flags))"

section \<open>The relay\<close>

text \<open>\<open>get\<close> is \<^verbatim>\<open>client.Get\<close>: the status and its text, or an error.\<close>

definition healthcheck :: "(string \<Rightarrow> (nat \<times> string) res) \<Rightarrow> string list \<Rightarrow> 'a ending" where
  "healthcheck get args =
     parsed_flags [(''url'', ''http://127.0.0.1:8080/healthz'')] args (\<lambda>v.
       case get (v ''url'') of
         Inl err \<Rightarrow> Exit 1 (Some err)
       | Inr (status, text) \<Rightarrow> if status \<noteq> 200 then Exit 1 (Some (Errf ''healthcheck returned %s'' [text])) else Exit 0 None)"

text \<open>\<open>load\<close> is \<^verbatim>\<open>config.LoadRelay\<close>.  The result is the path that SIGHUP reads again, and the server.\<close>

definition server_main :: "(string \<Rightarrow> (nat \<times> string) res) \<Rightarrow> (string \<Rightarrow> Relay res) \<Rightarrow> string list \<Rightarrow> (string \<times> Server) ending" where
  "server_main get load args =
     (case args of
        command # rest \<Rightarrow> if command = ''healthcheck'' then healthcheck get rest else
          parsed_flags [(''config'', ''/etc/wsn/server.json'')] args (\<lambda>v.
            case load (v ''config'') of
              Inl err \<Rightarrow> Exit 1 (Some err)
            | Inr cfg \<Rightarrow> (case relay_New cfg of Inl err \<Rightarrow> Exit 1 (Some err) | Inr s \<Rightarrow> Go_on (v ''config'', s)))
      | [] \<Rightarrow>
          (case load ''/etc/wsn/server.json'' of
             Inl err \<Rightarrow> Exit 1 (Some err)
           | Inr cfg \<Rightarrow> (case relay_New cfg of Inl err \<Rightarrow> Exit 1 (Some err) | Inr s \<Rightarrow> Go_on (''/etc/wsn/server.json'', s))))"

section \<open>The client\<close>

text \<open>The checks on each system; those of Windows are done by its installer.\<close>

definition check_client :: "GOOS \<Rightarrow> Client \<Rightarrow> (string list \<times> error option) res \<Rightarrow> error option" where
  "check_client os cfg routes =
     (case os of Windows \<Rightarrow> Some (Err ''Windows route validation is performed by install-windows.ps1'') | Unix \<Rightarrow> netcheck_Client cfg routes)"

definition check_gateway :: "GOOS \<Rightarrow> Client \<Rightarrow> string \<Rightarrow> (string list \<times> error option) res \<Rightarrow> error option" where
  "check_gateway os cfg egress routes =
     (case os of Windows \<Rightarrow> Some (Err ''Windows cannot be provisioned as a WSN gateway'') | Unix \<Rightarrow> netcheck_Gateway cfg egress routes)"

text \<open>
  \<open>logOutput\<close> is the result of \<^verbatim>\<open>daemon.LogOutput\<close>, \<open>load\<close> is \<^verbatim>\<open>config.LoadClient\<close>, \<open>routes\<close> the routing table.
  The second component is what \<^verbatim>\<open>fatalTo\<close> writes to the log of the service.
\<close>

definition exit_with :: "error option \<Rightarrow> 'a ending" where
  "exit_with err = (case err of None \<Rightarrow> Exit 0 None | Some e \<Rightarrow> Exit 1 (Some e))"

definition fatalTo :: "bool \<Rightarrow> error \<Rightarrow> 'a ending \<times> error list" where
  "fatalTo serviceLog err = (Exit 1 (Some err), if serviceLog then [err] else [])"

definition client_main ::
    "GOOS \<Rightarrow> bool res \<Rightarrow> (string \<Rightarrow> Client res) \<Rightarrow> (string \<Rightarrow> string res) \<Rightarrow> (string \<Rightarrow> bool) \<Rightarrow> (string list \<times> error option) res
     \<Rightarrow> string list \<Rightarrow> Runner ending \<times> error list" where
  "client_main os logOutput load readFile appendCerts routes args =
     (case flag_Parse (map_of [(''config'', ''/etc/wsn/client.json''), (''check-network'', ''''), (''egress'', '''')]) args of
        BadFlags \<Rightarrow> (Exit 2 None, [])
      | HelpRequested \<Rightarrow> (Exit 0 None, [])
      | Flags flags _ \<Rightarrow>
     (case logOutput of
        Inl err \<Rightarrow> (Exit 1 (Some err), [])
      | Inr serviceLog \<Rightarrow>
     (case load (flag_value flags ''config'') of
        Inl err \<Rightarrow> fatalTo serviceLog err
      | Inr cfg \<Rightarrow>
          let checkNetwork = flag_value flags ''check-network''; egress = flag_value flags ''egress'' in
          if checkNetwork \<noteq> '''' then
            (if checkNetwork = ''client'' then exit_with (check_client os cfg routes)
             else if checkNetwork = ''gateway''
             then (if egress = '''' then Exit 1 (Some (Err ''-egress is required for gateway validation''))
                   else exit_with (check_gateway os cfg egress routes))
             else Exit 1 (Some (Err ''-check-network must be client or gateway'')), [])
          else
            (case client_New readFile appendCerts cfg of
               Inl err \<Rightarrow> fatalTo serviceLog err
             | Inr runner \<Rightarrow> (Go_on runner, [])))))"

section \<open>What they guarantee\<close>

lemma server_main_Go_on:
  assumes "set (map fst options) \<subseteq> {''config''}"
  shows "server_main get load (flag_args options) = Go_on (path, s) \<longleftrightarrow>
    path = setting options ''config'' ''/etc/wsn/server.json'' \<and> (\<exists>cfg. load path = Inr cfg \<and> relay_New cfg = Inr s)"
proof (cases options)
  case Nil
  then show ?thesis by (auto simp: server_main_def flag_args_def setting_def split: sum.splits)
next
  case (Cons p ps)
  then obtain v where p: "p = (''config'', v)" using assms by (cases p) auto
  have "\<forall>(name, v) \<in> set options. flag_name name \<and> map_of [(''config'', ''/etc/wsn/server.json'')] name \<noteq> None"
    using assms by (auto simp: flag_name_def)
  then obtain flags where f: "flag_Parse (map_of [(''config'', ''/etc/wsn/server.json'')]) (flag_args options) = Flags flags []"
    "\<And>name v. map_of [(''config'', ''/etc/wsn/server.json'')] name = Some v \<Longrightarrow> flag_value flags name = setting options name v"
    by (rule flag_Parse_setting) blast
  have "server_main get load (flag_args options) =
      parsed_flags [(''config'', ''/etc/wsn/server.json'')] (flag_args options) (\<lambda>v.
            case load (v ''config'') of
              Inl err \<Rightarrow> Exit 1 (Some err)
            | Inr cfg \<Rightarrow> (case relay_New cfg of Inl err \<Rightarrow> Exit 1 (Some err) | Inr s \<Rightarrow> Go_on (v ''config'', s)))"
    by (simp add: server_main_def Cons p flag_args_def)
  then show ?thesis
    unfolding parsed_flags_def f(1) using f(2) [of "''config''"] by (auto split: sum.splits)
qed

lemma client_main_setting:
  assumes "set (map fst options) \<subseteq> {''config'', ''check-network'', ''egress''}"
  obtains flags where "flag_Parse (map_of [(''config'', ''/etc/wsn/client.json''), (''check-network'', ''''), (''egress'', '''')]) (flag_args options) = Flags flags []"
    "flag_value flags ''config'' = setting options ''config'' ''/etc/wsn/client.json''"
    "flag_value flags ''check-network'' = setting options ''check-network'' ''''"
    "flag_value flags ''egress'' = setting options ''egress'' ''''"
proof -
  have "\<forall>(name, v) \<in> set options. flag_name name \<and>
      map_of [(''config'', ''/etc/wsn/client.json''), (''check-network'', ''''), (''egress'', '''')] name \<noteq> None"
    using assms by (auto simp: flag_name_def)
  then show thesis by (rule flag_Parse_setting) (rule that, assumption, simp_all)
qed

lemma check_client_accepts: "check_client os cfg routes = None \<longleftrightarrow> os = Unix \<and> netcheck_Client cfg routes = None"
  by (simp add: check_client_def split: GOOS.splits)

lemma check_gateway_accepts: "check_gateway os cfg egress routes = None \<longleftrightarrow> os = Unix \<and> netcheck_Gateway cfg egress routes = None"
  by (simp add: check_gateway_def split: GOOS.splits)

lemma exit_with_0: "exit_with e = Exit 0 None \<longleftrightarrow> e = None" "exit_with e \<noteq> Go_on r"
  by (simp_all add: exit_with_def split: option.splits)

text \<open>
  C37. Nothing starts on a bad configuration.  The relay goes on exactly when the configuration at the path it was given, or at the default
  path, loads and a server can be made of it; then the table of that server holds exactly the configured identities.  The client goes on
  exactly when it was not asked to check the network, the configuration at its path loads, and the key, address and
  authority it names can be used.  It exits with status 0 exactly when it was asked for a check that accepts: \<^verbatim>\<open>client\<close>, or
  \<^verbatim>\<open>gateway\<close> with an egress interface, on the loaded configuration and the routes of the host, and never on Windows.  All this
  for every command line that gives the options in any order, any number of times or not at all; the last value counts.
\<close>

theorem programs_start_checked:
  assumes "set (map fst server_options) \<subseteq> {''config''}" and "set (map fst options) \<subseteq> {''config'', ''check-network'', ''egress''}"
    and "server_path = setting server_options ''config'' ''/etc/wsn/server.json''" and "path = setting options ''config'' ''/etc/wsn/client.json''"
    and "check = setting options ''check-network'' ''''" and "egress = setting options ''egress'' ''''"
  shows "(\<forall>p s. server_main get (\<lambda>path. fst (LoadRelay path w)) (flag_args server_options) = Go_on (p, s) \<longleftrightarrow>
      p = server_path \<and> (\<exists>cfg. fst (LoadRelay p w) = Inr cfg \<and> relay_New cfg = Inr s))
   \<and> (\<forall>args p s. server_main get (\<lambda>path. fst (LoadRelay path w)) args = Go_on (p, s) \<longrightarrow>
      (\<exists>raw mode cfg. files w p = Some (RelayJSON raw, mode) \<and> checkRelay raw = Inr cfg \<and> s_cfg s = cfg
         \<and> dom (s_clients s) = rc_ID ` set (r_Clients cfg)))
   \<and> (\<forall>r. (\<exists>es. client_main os lg load readFile appendCerts routes (flag_args options) = (Go_on r, es)) \<longleftrightarrow>
      check = '''' \<and> (\<exists>service. lg = Inr service) \<and> (\<exists>cfg. load path = Inr cfg \<and> client_New readFile appendCerts cfg = Inr r))
   \<and> ((\<exists>es. client_main os lg load readFile appendCerts routes (flag_args options) = (Exit 0 None, es)) \<longleftrightarrow>
      os = Unix \<and> (\<exists>service. lg = Inr service) \<and> (\<exists>cfg. load path = Inr cfg
        \<and> (check = ''client'' \<and> netcheck_Client cfg routes = None
           \<or> check = ''gateway'' \<and> egress \<noteq> '''' \<and> netcheck_Gateway cfg egress routes = None)))"
proof (intro conjI allI impI)
  fix p s
  show "server_main get (\<lambda>path. fst (LoadRelay path w)) (flag_args server_options) = Go_on (p, s) \<longleftrightarrow>
      p = server_path \<and> (\<exists>cfg. fst (LoadRelay p w) = Inr cfg \<and> relay_New cfg = Inr s)"
    using server_main_Go_on [OF assms(1)] assms(3) by simp
next
  fix args p s assume a: "server_main get (\<lambda>path. fst (LoadRelay path w)) args = Go_on (p, s)"
  obtain cfg where cfg: "fst (LoadRelay p w) = Inr cfg" "relay_New cfg = Inr s"
    using a by (auto simp: server_main_def healthcheck_def parsed_flags_def split: list.splits if_splits flag_result.splits sum.splits prod.splits)
  then obtain raw mode where raw: "files w p = Some (RelayJSON raw, mode)" "checkRelay raw = Inr cfg"
    by (metis LoadRelay_Inr prod.collapse)
  obtain m where m: "authorizedClients cfg = Inr m" "dom m = rc_ID ` set (r_Clients cfg)" using checkRelay_table [OF raw(2)] by blast
  then have "s_cfg s = cfg" "s_clients s = m" using cfg(2) by (auto simp: relay_New_def Let_def)
  with raw m(2) show "\<exists>raw mode cfg. files w p = Some (RelayJSON raw, mode) \<and> checkRelay raw = Inr cfg \<and> s_cfg s = cfg
      \<and> dom (s_clients s) = rc_ID ` set (r_Clients cfg)" by blast
next
  obtain flags where f: "flag_Parse (map_of [(''config'', ''/etc/wsn/client.json''), (''check-network'', ''''), (''egress'', '''')]) (flag_args options) = Flags flags []"
    "flag_value flags ''config'' = path" "flag_value flags ''check-network'' = check" "flag_value flags ''egress'' = egress"
    using client_main_setting [OF assms(2)] assms(4-6) by metis
  have run: "client_main os lg load readFile appendCerts routes (flag_args options) =
     (case lg of
        Inl err \<Rightarrow> (Exit 1 (Some err), [])
      | Inr serviceLog \<Rightarrow>
     (case load path of
        Inl err \<Rightarrow> fatalTo serviceLog err
      | Inr cfg \<Rightarrow>
          if check \<noteq> '''' then
            (if check = ''client'' then exit_with (check_client os cfg routes)
             else if check = ''gateway''
             then (if egress = '''' then Exit 1 (Some (Err ''-egress is required for gateway validation''))
                   else exit_with (check_gateway os cfg egress routes)) else Exit 1 (Some (Err ''-check-network must be client or gateway'')), [])
          else
            (case client_New readFile appendCerts cfg of
               Inl err \<Rightarrow> fatalTo serviceLog err
             | Inr runner \<Rightarrow> (Go_on runner, []))))"
    unfolding client_main_def f(1) flag_result.case Let_def f(2-4) by (rule refl)
  show "(\<exists>es. client_main os lg load readFile appendCerts routes (flag_args options) = (Go_on r, es)) \<longleftrightarrow>
      check = '''' \<and> (\<exists>service. lg = Inr service) \<and> (\<exists>cfg. load path = Inr cfg \<and> client_New readFile appendCerts cfg = Inr r)" for r
    unfolding run by (auto simp: fatalTo_def exit_with_0 split: sum.splits)
  show "(\<exists>es. client_main os lg load readFile appendCerts routes (flag_args options) = (Exit 0 None, es)) \<longleftrightarrow>
      os = Unix \<and> (\<exists>service. lg = Inr service) \<and> (\<exists>cfg. load path = Inr cfg
        \<and> (check = ''client'' \<and> netcheck_Client cfg routes = None
           \<or> check = ''gateway'' \<and> egress \<noteq> '''' \<and> netcheck_Gateway cfg egress routes = None))"
    unfolding run by (auto simp: fatalTo_def exit_with_0 check_client_accepts check_gateway_accepts split: sum.splits)
qed

text \<open>A relay with one client, and a gateway check that was asked for twice.\<close>

theorem programs_start_checked_witness:
  "\<exists>s cfg es. server_main (\<lambda>_. Inl (Err ''''))
       (\<lambda>path. fst (LoadRelay path \<lparr>files = [''r.json'' \<mapsto> (RelayJSON ex_relay, mode_0600)], unsynced = {}, trail = [], faults = [], tmp_nr = 0\<rparr>))
       (flag_args [(''config'', ''r.json'')]) = Go_on (''r.json'', s) \<and> dom (s_clients s) = {''a''}
     \<and> client_main Unix (Inr False) (\<lambda>p. if p = ''c.json'' then Inr cfg else Inl (Err ''open'')) (\<lambda>_. Inl (Err '''')) (\<lambda>_. True)
         (Inr (ex_table_lines, None))
         (flag_args [(''egress'', ''eth0''), (''check-network'', ''client''), (''config'', ''c.json''), (''check-network'', ''gateway'')]) = (Exit 0 None, es)"
proof -
  let ?w = "\<lparr>files = [''r.json'' \<mapsto> (RelayJSON ex_relay, mode_0600)], unsynced = {}, trail = [], faults = [], tmp_nr = 0\<rparr>"
  let ?sopt = "[(''config'', ''r.json'')]"
  let ?opt = "[(''egress'', ''eth0''), (''check-network'', ''client''), (''config'', ''c.json''), (''check-network'', ''gateway'')]"
  obtain cfg where gw: "netcheck_Gateway cfg ''eth0'' (Inr (ex_table_lines, None)) = None" using ex_client_loads by blast
  let ?load = "\<lambda>p. if p = ''c.json'' then Inr cfg else Inl (Err ''open'')"
  have chk: "checkRelay ex_relay = Inr ex_relay" by code_simp
  have l: "fst (LoadRelay ''r.json'' ?w) = Inr ex_relay"
    by (simp add: LoadRelay_def read_json_def io_bind_def io_lift_def syscall_def update_call_def set_files_def chk)
  obtain s where s: "relay_New ex_relay = Inr s" by (simp add: relay_New_def ex_clients Let_def)
  have sub: "set (map fst ?sopt) \<subseteq> {''config''}" "set (map fst ?opt) \<subseteq> {''config'', ''check-network'', ''egress''}" by simp_all
  have p: "''r.json'' = setting ?sopt ''config'' ''/etc/wsn/server.json''" "''c.json'' = setting ?opt ''config'' ''/etc/wsn/client.json''"
    "''gateway'' = setting ?opt ''check-network'' ''''" "''eth0'' = setting ?opt ''egress'' ''''"
    by (simp_all add: setting_def)
  note t = programs_start_checked [OF sub p, of "\<lambda>_. Inl (Err '''')" ?w Unix "Inr False" ?load "\<lambda>_. Inl (Err '''')" "\<lambda>_. True" "Inr (ex_table_lines, None)"]
  have 1: "server_main (\<lambda>_. Inl (Err '''')) (\<lambda>path. fst (LoadRelay path ?w)) (flag_args ?sopt) = Go_on (''r.json'', s)"
    using t [THEN conjunct1] l s by blast
  obtain raw mode cfg' where "files ?w ''r.json'' = Some (RelayJSON raw, mode)" "checkRelay raw = Inr cfg'" "dom (s_clients s) = rc_ID ` set (r_Clients cfg')"
    using t [THEN conjunct2, THEN conjunct1, rule_format, OF 1] by blast
  then have 2: "dom (s_clients s) = {''a''}" using chk by (auto simp: ex_relay_def)
  have "\<exists>es. client_main Unix (Inr False) ?load (\<lambda>_. Inl (Err '''')) (\<lambda>_. True) (Inr (ex_table_lines, None)) (flag_args ?opt) = (Exit 0 None, es)"
    by (rule t [THEN conjunct2, THEN conjunct2, THEN conjunct2, THEN iffD2]) (simp add: gw, rule exI [of _ False], simp)
  then show ?thesis using 1 2 by blast
qed

end
