(* ===== verification/Client_Session.thy ===== *)
theory Client_Session
  imports Client_Runner
begin

text \<open>
  The end of \<^verbatim>\<open>runSession\<close> in \<^verbatim>\<open>client.go\<close>: the two pumps and \<^verbatim>\<open>pingLoop\<close> as goroutines that report their error on a channel
  for three, the select that ends the session, and the deferred calls that close the connection and the device.

  The steps are of two kinds.  \<open>outside_step\<close> needs something from outside the program: a frame, a message, a failure of a device or a
  connection that is open, a cancelled context.  \<open>own_step\<close> does not: a goroutine sends or receives on the channel,
  \<^verbatim>\<open>runSession\<close> closes what it has opened, and a call on a device or connection that has been closed returns an error, as
  \<^verbatim>\<open>os.File\<close> and the WebSocket library document.  A goroutine in a call on something open may stay there for ever.
\<close>

section \<open>States and steps\<close>

datatype worker = TapPump | RelayPump | Ping

text \<open>Waiting for a frame, a message or the ticker; writing a frame; blocked on the channel with an error; returned.\<close>

datatype at = Waiting | Writing bytes | Reporting error | Ended

text \<open>\<^verbatim>\<open>runSession\<close> itself, with the error it returns once it has left the select.\<close>

datatype main_at = Selecting | ClosingConn "error option" | ClosingDevice "error option" | SessionOver "error option"

record session_state =
  at_of :: "worker \<Rightarrow> at"
  errCh :: "error list"
  main_of :: main_at
  ctx_done :: bool
  device_open :: bool
  conn_open :: bool
  reports :: "error list"    \<comment> \<open>all errors sent so far, oldest first\<close>

definition session_start :: session_state where
  "session_start = \<lparr>at_of = (\<lambda>_. Waiting), errCh = [], main_of = Selecting, ctx_done = False,
     device_open = True, conn_open = True, reports = []\<rparr>"

definition move_to :: "worker \<Rightarrow> at \<Rightarrow> session_state \<Rightarrow> session_state" where
  "move_to x a s = s\<lparr>at_of := (at_of s)(x := a)\<rparr>"

text \<open>
  The two halves of a round of \<^verbatim>\<open>tapToWebSocket\<close>, taken from \<open>tap_step\<close>: what the pump does with the result of
  \<^verbatim>\<open>device.Read\<close> (\<open>None\<close> when it goes on to write), and the error when the write fails.
\<close>

definition tap_read :: "Runner \<Rightarrow> bytes res \<Rightarrow> error option" where
  "tap_read ru rd = fst (tap_step ru 0 rd (fresh_conn [] []))"

definition tap_write_error :: "Runner \<Rightarrow> bytes \<Rightarrow> error option" where
  "tap_write_error ru frame = fst (tap_step ru 0 (Inr frame) (fresh_conn [] [True]))"

text \<open>The same for \<^verbatim>\<open>webSocketToTap\<close> and \<open>ws_step\<close>, with a device that takes every frame whole and one that fails with \<open>e\<close>.\<close>

definition pump_error :: "'w pump \<Rightarrow> error option" where
  "pump_error r = (case r of PumpError e _ _ \<Rightarrow> Some e | _ \<Rightarrow> None)"

definition ws_read :: "Runner \<Rightarrow> message option \<Rightarrow> error option" where
  "ws_read ru m = pump_error (ws_step ru (\<lambda>w b. (int (length b), None, w)) 0 () (fresh_conn [m] []))"

definition ws_write_error :: "Runner \<Rightarrow> error \<Rightarrow> bytes \<Rightarrow> error option" where
  "ws_write_error ru e frame = pump_error (ws_step ru (\<lambda>w b. (0, Some e, w)) 0 () (fresh_conn [Some (BinaryMessage, frame)] []))"

text \<open>A ping whose control message cannot be written.\<close>

definition ping_error :: "error \<Rightarrow> error" where
  "ping_error e = Errw ''relay ping: %w'' [] e"

inductive outside_step :: "Runner \<Rightarrow> session_state \<Rightarrow> session_state \<Rightarrow> bool" for ru where
  tap_frame: "at_of s TapPump = Waiting \<Longrightarrow> device_open s \<Longrightarrow> tap_read ru (Inr frame) = None \<Longrightarrow>
    outside_step ru s (move_to TapPump (Writing frame) s)"
| tap_fails: "at_of s TapPump = Waiting \<Longrightarrow> device_open s \<Longrightarrow> tap_read ru rd = Some e \<Longrightarrow>
    outside_step ru s (move_to TapPump (Reporting e) s)"
| tap_sent: "at_of s TapPump = Writing frame \<Longrightarrow> conn_open s \<Longrightarrow> outside_step ru s (move_to TapPump Waiting s)"
| tap_write_fails: "at_of s TapPump = Writing frame \<Longrightarrow> conn_open s \<Longrightarrow> tap_write_error ru frame = Some e \<Longrightarrow>
    outside_step ru s (move_to TapPump (Reporting e) s)"
| ws_message: "at_of s RelayPump = Waiting \<Longrightarrow> conn_open s \<Longrightarrow> ws_read ru (Some (ty, frame)) = None \<Longrightarrow>
    outside_step ru s (move_to RelayPump (Writing frame) s)"
| ws_fails: "at_of s RelayPump = Waiting \<Longrightarrow> conn_open s \<Longrightarrow> ws_read ru m = Some e \<Longrightarrow>
    outside_step ru s (move_to RelayPump (Reporting e) s)"
| ws_written: "at_of s RelayPump = Writing frame \<Longrightarrow> device_open s \<Longrightarrow> outside_step ru s (move_to RelayPump Waiting s)"
| ws_write_fails: "at_of s RelayPump = Writing frame \<Longrightarrow> device_open s \<Longrightarrow> ws_write_error ru err frame = Some e \<Longrightarrow>
    outside_step ru s (move_to RelayPump (Reporting e) s)"
| ping_fails: "at_of s Ping = Waiting \<Longrightarrow> conn_open s \<Longrightarrow> outside_step ru s (move_to Ping (Reporting (ping_error e)) s)"
| cancel: "outside_step ru s (s\<lparr>ctx_done := True\<rparr>)"

inductive own_step :: "Runner \<Rightarrow> session_state \<Rightarrow> session_state \<Rightarrow> bool" for ru where
  tap_read_closed: "at_of s TapPump = Waiting \<Longrightarrow> \<not> device_open s \<Longrightarrow> tap_read ru (Inl err) = Some e \<Longrightarrow>
    own_step ru s (move_to TapPump (Reporting e) s)"
| tap_write_closed: "at_of s TapPump = Writing frame \<Longrightarrow> \<not> conn_open s \<Longrightarrow> tap_write_error ru frame = Some e \<Longrightarrow>
    own_step ru s (move_to TapPump (Reporting e) s)"
| ws_read_closed: "at_of s RelayPump = Waiting \<Longrightarrow> \<not> conn_open s \<Longrightarrow> ws_read ru None = Some e \<Longrightarrow>
    own_step ru s (move_to RelayPump (Reporting e) s)"
| ws_write_closed: "at_of s RelayPump = Writing frame \<Longrightarrow> \<not> device_open s \<Longrightarrow> ws_write_error ru err frame = Some e \<Longrightarrow>
    own_step ru s (move_to RelayPump (Reporting e) s)"
| ping_closed: "at_of s Ping = Waiting \<Longrightarrow> \<not> conn_open s \<Longrightarrow> own_step ru s (move_to Ping (Reporting (ping_error e)) s)"
| send: "at_of s x = Reporting e \<Longrightarrow> length (errCh s) < 3 \<Longrightarrow>
    own_step ru s (move_to x Ended (s\<lparr>errCh := errCh s @ [e], reports := reports s @ [e]\<rparr>))"
| stopped: "main_of s = Selecting \<Longrightarrow> ctx_done s \<Longrightarrow> own_step ru s (s\<lparr>main_of := ClosingConn None\<rparr>)"
| failed: "main_of s = Selecting \<Longrightarrow> errCh s = e # es \<Longrightarrow> own_step ru s (s\<lparr>errCh := es, main_of := ClosingConn (Some e)\<rparr>)"
| close_conn: "main_of s = ClosingConn r \<Longrightarrow> own_step ru s (s\<lparr>conn_open := False, main_of := ClosingDevice r\<rparr>)"
| close_device: "main_of s = ClosingDevice r \<Longrightarrow> own_step ru s (s\<lparr>device_open := False, main_of := SessionOver r\<rparr>)"

definition session_step :: "Runner \<Rightarrow> session_state \<Rightarrow> session_state \<Rightarrow> bool" where
  "session_step ru s t \<longleftrightarrow> outside_step ru s t \<or> own_step ru s t"

abbreviation session_reachable :: "Runner \<Rightarrow> session_state \<Rightarrow> bool" where
  "session_reachable ru \<equiv> reach (\<lambda>s. s = session_start) (session_step ru)"

section \<open>No report is blocked or lost\<close>

text \<open>The workers that have reported.\<close>

definition ended :: "session_state \<Rightarrow> worker set" where
  "ended s = {x. at_of s x = Ended}"

fun main_result :: "main_at \<Rightarrow> error option option" where
  "main_result Selecting = None"
| "main_result (ClosingConn r) = Some r"
| "main_result (ClosingDevice r) = Some r"
| "main_result (SessionOver r) = Some r"

text \<open>
  One report for each worker that has ended; the select takes the first, or none when the context is done; and what is
  closed when.
\<close>

definition session_inv :: "session_state \<Rightarrow> bool" where
  "session_inv s \<longleftrightarrow> length (reports s) = card (ended s)
     \<and> (case main_result (main_of s) of
          Some (Some e) \<Rightarrow> reports s = e # errCh s
        | Some None \<Rightarrow> ctx_done s \<and> reports s = errCh s
        | None \<Rightarrow> reports s = errCh s)
     \<and> (\<forall>r. main_of s = ClosingDevice r \<longrightarrow> \<not> conn_open s)
     \<and> (\<forall>r. main_of s = SessionOver r \<longrightarrow> \<not> conn_open s \<and> \<not> device_open s)
     \<and> (\<forall>frame. at_of s Ping \<noteq> Writing frame)"

lemma worker_UNIV: "(UNIV :: worker set) = {TapPump, RelayPump, Ping}"
proof -
  have "x = TapPump \<or> x = RelayPump \<or> x = Ping" for x by (cases x) auto
  then show ?thesis by auto
qed

lemma finite_ended [simp]: "finite (ended s)"
  by (rule finite_subset [OF subset_UNIV]) (simp add: worker_UNIV)

lemma card_ended:
  assumes "x \<notin> ended s"
  shows "card (ended s) < 3"
proof -
  have "ended s \<subset> UNIV" using assms by auto
  then have "card (ended s) < card (UNIV :: worker set)" by (rule psubset_card_mono [rotated]) (simp add: worker_UNIV)
  then show ?thesis by (simp add: worker_UNIV)
qed

lemma move_to_sel [simp]:
  "at_of (move_to x a s) = (at_of s)(x := a)" "errCh (move_to x a s) = errCh s" "main_of (move_to x a s) = main_of s"
  "ctx_done (move_to x a s) = ctx_done s" "reports (move_to x a s) = reports s"
  "device_open (move_to x a s) = device_open s" "conn_open (move_to x a s) = conn_open s"
  by (simp_all add: move_to_def)

lemma ended_moved:
  "at_of s x \<noteq> Ended \<Longrightarrow> a \<noteq> Ended \<Longrightarrow> ended (move_to x a s) = ended s"
  "ended (move_to x Ended s) = insert x (ended s)"
  by (auto simp: ended_def)

lemma ended_cong: "at_of s = at_of t \<Longrightarrow> ended s = ended t"
  by (simp add: ended_def)

lemma session_inv_outside: "outside_step ru s t \<Longrightarrow> session_inv s \<Longrightarrow> session_inv t"
  by (cases rule: outside_step.cases, assumption)
    (auto simp: session_inv_def ended_moved cong: ended_cong split: option.splits)

lemma session_inv_own:
  assumes "own_step ru s t" and "session_inv s"
  shows "session_inv t"
  using assms
proof cases
  case (send x e)
  have "x \<notin> ended s" using send(2) by (simp add: ended_def)
  moreover have "ended (s\<lparr>errCh := errCh s @ [e], reports := reports s @ [e]\<rparr>) = ended s" by (rule ended_cong) simp
  ultimately have "card (ended t) = Suc (card (ended s))" using send(1) by (simp add: ended_moved)
  then show ?thesis using assms(2) send(1) by (auto simp: session_inv_def split: option.splits)
qed (auto simp: session_inv_def ended_moved cong: ended_cong split: option.splits)

lemma session_inv_start: "session_inv session_start"
  by (simp add: session_inv_def session_start_def ended_def)

interpretation session: invariant_of "\<lambda>s. s = session_start" "session_step ru" session_inv for ru
  by standard (auto simp: session_step_def intro: session_inv_start session_inv_outside session_inv_own)

lemma session_inv_run: "(own_step ru)\<^sup>*\<^sup>* s t \<Longrightarrow> session_inv s \<Longrightarrow> session_inv t"
  by (induction rule: rtranclp_induct) (auto intro: session_inv_own)

text \<open>A report can always be sent.\<close>

lemma report_fits:
  assumes "session_inv s" and "at_of s x = Reporting e"
  shows "length (errCh s) < 3"
proof -
  have "length (errCh s) \<le> length (reports s)"
    using assms(1) by (auto simp: session_inv_def split: option.splits)
  also have "length (reports s) < 3"
    using assms card_ended [of x s] by (simp add: session_inv_def ended_def)
  finally show ?thesis .
qed

section \<open>The program ends a session by itself\<close>

fun at_work :: "at \<Rightarrow> nat" where
  "at_work Waiting = 2"
| "at_work (Writing _) = 2"
| "at_work (Reporting _) = 1"
| "at_work Ended = 0"

fun main_work :: "main_at \<Rightarrow> nat" where
  "main_work Selecting = 3"
| "main_work (ClosingConn _) = 2"
| "main_work (ClosingDevice _) = 1"
| "main_work (SessionOver _) = 0"

definition session_work :: "session_state \<Rightarrow> nat" where
  "session_work s = at_work (at_of s TapPump) + at_work (at_of s RelayPump) + at_work (at_of s Ping) + main_work (main_of s)"

lemma own_step_work: "own_step ru s t \<Longrightarrow> session_work t < session_work s"
proof (induction rule: own_step.induct)
  case (send s x e)
  then show ?case by (cases x) (simp_all add: session_work_def)
qed (simp_all add: session_work_def)

lemma own_run_work: "(own_step ru ^^ n) s t \<Longrightarrow> session_work t + n \<le> session_work s"
proof (induction n arbitrary: t)
  case (Suc n)
  then obtain u where "(own_step ru ^^ n) s u" "own_step ru u t" by auto
  with Suc.IH own_step_work show ?case by fastforce
qed simp

lemma at_work_le: "at_work a \<le> 2" by (cases a) simp_all
lemma main_work_le: "main_work m \<le> 3" by (cases m) simp_all

lemma session_work_le: "session_work s \<le> 9"
  using at_work_le [of "at_of s TapPump"] at_work_le [of "at_of s RelayPump"] at_work_le [of "at_of s Ping"] main_work_le [of "main_of s"]
  by (simp add: session_work_def)

text \<open>A reason for the session to end, which nothing takes away.\<close>

definition ending :: "session_state \<Rightarrow> bool" where
  "ending s \<longleftrightarrow> ctx_done s \<or> reports s \<noteq> [] \<or> (\<exists>x e. at_of s x = Reporting e)"

lemma ending_own: "own_step ru s t \<Longrightarrow> ending s \<Longrightarrow> ending t"
  by (induction rule: own_step.induct) (auto simp: ending_def)

lemma ending_run: "(own_step ru)\<^sup>*\<^sup>* s t \<Longrightarrow> ending s \<Longrightarrow> ending t"
  by (induction rule: rtranclp_induct) (auto intro: ending_own)

text \<open>A call on a closed device or connection makes a pump return.\<close>

lemma tap_read_closed_error: "tap_read ru (Inl e) = Some (Errw ''read TAP: %w'' [] e)"
  by (simp add: tap_read_def tap_step_def)

lemma tap_write_closed_error: "\<exists>e. tap_write_error ru frame = Some e"
  by (simp add: tap_write_error_def tap_step_def WriteMessage_def fresh_conn_def)

lemma ws_read_closed_error: "\<exists>e. ws_read ru None = Some e"
  by (simp add: ws_read_def ws_step_def pump_error_def ReadMessage_def fresh_conn_def)

lemma ws_write_closed_error: "\<exists>e. ws_write_error ru err frame = Some e"
  by (auto simp: ws_write_error_def ws_step_def pump_error_def ReadMessage_def fresh_conn_def writeFull.simps [of _ _ frame]
      MinimumFrameSize_def Let_def)

text \<open>Where no own step is possible, the session has not begun to end or everything has ended.\<close>

lemma own_blocked:
  assumes inv: "session_inv s" and "ending s" and stuck: "\<And>t. \<not> own_step ru s t"
  shows "(\<exists>r. main_of s = SessionOver r) \<and> (\<forall>x. at_of s x = Ended)"
proof -
  have rep: "at_of s x \<noteq> Reporting e" for x e using send [OF _ report_fits [OF inv]] stuck by blast
  have "ctx_done s \<or> reports s \<noteq> []" using assms(2) rep by (auto simp: ending_def)
  then have "main_of s \<noteq> Selecting"
    using inv stuck stopped [of s ru] failed [of s _ _ ru] by (cases "errCh s") (auto simp: session_inv_def)
  then obtain r where over: "main_of s = SessionOver r"
    using stuck close_conn [of s _ ru] close_device [of s _ ru] by (cases "main_of s") auto
  then have closed: "\<not> conn_open s" "\<not> device_open s" using inv by (simp_all add: session_inv_def)
  have "at_of s x = Ended" for x
  proof (cases x)
    case TapPump
    have "at_of s TapPump \<noteq> Waiting" using tap_read_closed [OF _ closed(2) tap_read_closed_error] stuck by blast
    moreover have "at_of s TapPump \<noteq> Writing frame" for frame
      using tap_write_closed [OF _ closed(1)] tap_write_closed_error [of ru frame] stuck by blast
    ultimately show ?thesis using rep [of x] TapPump by (cases "at_of s x") auto
  next
    case RelayPump
    have "at_of s RelayPump \<noteq> Waiting" using ws_read_closed [OF _ closed(1)] ws_read_closed_error [of ru] stuck by blast
    moreover have "at_of s RelayPump \<noteq> Writing frame" for frame
      using ws_write_closed [OF _ closed(2)] ws_write_closed_error [of ru "Err ''closed''" frame] stuck by blast
    ultimately show ?thesis using rep [of x] RelayPump by (cases "at_of s x") auto
  next
    case Ping
    have "at_of s Ping \<noteq> Waiting" using ping_closed [OF _ closed(1)] stuck by blast
    then show ?thesis using rep [of x] Ping inv by (cases "at_of s x") (auto simp: session_inv_def)
  qed
  then show ?thesis using over by blast
qed



end
