(* ===== verification/Relay_Switch.thy ===== *)
theory Relay_Switch
  imports Relay_Hub
begin

text \<open>
  What the hub of \<^verbatim>\<open>relay.go\<close> implements: an Ethernet switch whose ports are the sessions.  The
  specification knows owners of identities and of addresses, and for each port the frames waiting in it; it has no tables
  with 64-bit keys, no association lists and no iteration order.  Every operation of the hub refines
  the operation of the switch, and so does every sequence of them.
\<close>

section \<open>The switch\<close>

record port =
  port_id :: string
  port_mac :: bytes
  live :: bool
  room :: nat
  inbox :: "bytes list"
  lost :: "64 word"

record switch =
  owner_of_id :: "string \<rightharpoonup> ref"
  owner_of_mac :: "bytes \<rightharpoonup> ref"
  ports :: "ref \<rightharpoonup> port"

definition port_kill :: "port \<Rightarrow> port" where
  "port_kill p = p\<lparr>live := False\<rparr>"

definition port_push :: "bytes \<Rightarrow> port \<Rightarrow> port" where
  "port_push f p = (if length (inbox p) < room p then p\<lparr>inbox := inbox p @ [f]\<rparr> else p\<lparr>lost := lost p + 1\<rparr>)"

text \<open>Changing the ports that satisfy a predicate.\<close>

definition change_ports :: "(ref \<Rightarrow> port \<Rightarrow> bool) \<Rightarrow> (port \<Rightarrow> port) \<Rightarrow> switch \<Rightarrow> switch" where
  "change_ports P f s = s\<lparr>ports := (\<lambda>r. map_option (\<lambda>p. if P r p then f p else p) (ports s r))\<rparr>"

text \<open>
  Entitled to a frame: the owner of its destination, or every owner of an identity when the destination is a group
  address or nobody's; never the sender.
\<close>

definition entitled :: "switch \<Rightarrow> ref \<Rightarrow> bytes \<Rightarrow> ref \<Rightarrow> bool" where
  "entitled s sender frame r \<longleftrightarrow> r \<noteq> sender \<and>
     (let destination = take 6 frame in
      if destination ! 0 AND 1 \<noteq> 0 \<or> owner_of_mac s destination = None then \<exists>i. owner_of_id s i = Some r
      else owner_of_mac s destination = Some r)"

datatype switch_op =
    Connect ref authorizedClient nat int
  | Attach ref
  | Detach ref
  | Send ref "ref \<Rightarrow> int" bytes
  | Retain "string \<rightharpoonup> authorizedClient"
  | Take ref bool

text \<open>\<open>None\<close>: the operation is not offered in this state.\<close>

fun switch_step :: "switch_op \<Rightarrow> switch \<Rightarrow> switch option" where
  "switch_step (Connect r a n idle) s =
     (if ports s r = None \<and> length (ac_mac a) = 6
      then Some (s\<lparr>ports := (ports s)(r \<mapsto> \<lparr>port_id = ac_id a, port_mac = ac_mac a, live = True, room = n, inbox = [], lost = 0\<rparr>)\<rparr>)
      else None)"
| "switch_step (Attach r) s =
     (case ports s r of
        None \<Rightarrow> None
      | Some p \<Rightarrow> Some (change_ports
          (\<lambda>q _. q \<noteq> r \<and> (owner_of_id s (port_id p) = Some q \<or> owner_of_mac s (port_mac p) = Some q)) port_kill s
          \<lparr>owner_of_id := (owner_of_id s)(port_id p \<mapsto> r), owner_of_mac := (owner_of_mac s)(port_mac p \<mapsto> r)\<rparr>))"
| "switch_step (Detach r) s =
     (if ports s r = None then None
      else Some (s\<lparr>owner_of_id := (\<lambda>i. if owner_of_id s i = Some r then None else owner_of_id s i),
                  owner_of_mac := (\<lambda>m. if owner_of_mac s m = Some r then None else owner_of_mac s m)\<rparr>))"
| "switch_step (Send r now f) s =
     (if length f < 14 then None else Some (change_ports (\<lambda>q _. entitled s r f q) (port_push f) s))"
| "switch_step (Retain clients) s =
     Some (change_ports
       (\<lambda>q p. owner_of_id s (port_id p) = Some q \<and> \<not> still_authorized clients (port_id p) (port_mac p)) port_kill s)"
| "switch_step (Take r ok) s =
     (case ports s r of
        None \<Rightarrow> None
      | Some p \<Rightarrow> (case inbox p of
            [] \<Rightarrow> None
          | _ # fs \<Rightarrow> Some (s\<lparr>ports := (ports s)(r \<mapsto> (if ok then p\<lparr>inbox := fs\<rparr> else port_kill (p\<lparr>inbox := fs\<rparr>)))\<rparr>)))"

fun switch_run :: "switch_op list \<Rightarrow> switch \<Rightarrow> switch option" where
  "switch_run [] s = Some s"
| "switch_run (x # xs) s = (case switch_step x s of None \<Rightarrow> None | Some s' \<Rightarrow> switch_run xs s')"

section \<open>The hub and its abstraction\<close>

fun hub_step :: "switch_op \<Rightarrow> hub \<Rightarrow> hub option" where
  "hub_step (Connect r a n idle) h = Some (h\<lparr>peers := (peers h)(r \<mapsto> new_peer a n idle)\<rparr>)"
| "hub_step (Attach r) h = hub_add h r"
| "hub_step (Detach r) h = hub_remove h r"
| "hub_step (Send r now f) h = forward now h r f"
| "hub_step (Retain clients) h = Some (fst (retainAuthorized h clients))"
| "hub_step (Take r ok) h = map_option fst (write_step h r (WFrame ok))"

fun hub_run :: "switch_op list \<Rightarrow> hub \<Rightarrow> hub option" where
  "hub_run [] h = Some h"
| "hub_run (x # xs) h = (case hub_step x h of None \<Rightarrow> None | Some h' \<Rightarrow> hub_run xs h')"

definition abs_port :: "peer \<Rightarrow> port" where
  "abs_port p = \<lparr>port_id = p_id p, port_mac = p_mac p, live = (\<not> p_stopOnce p), room = ch_cap (p_send p),
     inbox = ch_buf (p_send p), lost = p_dropped p\<rparr>"

definition abs_macs :: "(64 word \<rightharpoonup> ref) \<Rightarrow> bytes \<rightharpoonup> ref" where
  "abs_macs t m = (if length m = 6 then Option.bind (MACKey m) t else None)"

definition abs_hub :: "hub \<Rightarrow> switch" where
  "abs_hub h = \<lparr>owner_of_id = map_of (byID h), owner_of_mac = abs_macs (map_of (byMAC h)),
     ports = (\<lambda>r. map_option abs_port (peers h r))\<rparr>"

lemma abs_hub_sel [simp]:
  "owner_of_id (abs_hub h) = map_of (byID h)" "owner_of_mac (abs_hub h) = abs_macs (map_of (byMAC h))"
  "ports (abs_hub h) r = map_option abs_port (peers h r)"
  by (simp_all add: abs_hub_def)

lemma abs_port_sel [simp]:
  "port_id (abs_port p) = p_id p" "port_mac (abs_port p) = p_mac p" "live (abs_port p) \<longleftrightarrow> \<not> p_stopOnce p"
  "room (abs_port p) = ch_cap (p_send p)" "inbox (abs_port p) = ch_buf (p_send p)" "lost (abs_port p) = p_dropped p"
  by (simp_all add: abs_port_def)

lemma abs_port_stop [simp]: "abs_port (peer_stop p) = port_kill (abs_port p)"
  by (simp add: abs_port_def port_kill_def)

lemma abs_port_deliver [simp]: "abs_port (deliver f now p) = port_push f (abs_port p)"
  by (simp add: abs_port_def port_push_def send_queue.items_offer deliver_dropped)

text \<open>Keys stand for addresses one to one, so an update of the table is an update of the owners.\<close>

lemma abs_macs_upd:
  assumes "length m = 6" and "MACKey m = Some k"
  shows "abs_macs (t(k \<mapsto> r)) = (abs_macs t)(m \<mapsto> r)"
proof
  fix m'
  have "MACKey m' = Some k \<longleftrightarrow> m' = m" if "length m' = 6"
    using MACKey_inj [OF that assms(1)] assms(2) by metis
  then show "abs_macs (t(k \<mapsto> r)) m' = ((abs_macs t)(m \<mapsto> r)) m'"
    using assms by (cases "MACKey m'") (auto simp: abs_macs_def)
qed

lemma abs_macs_drop:
  "abs_macs (\<lambda>k. if t k = Some r then None else t k) = (\<lambda>m. if abs_macs t m = Some r then None else abs_macs t m)"
proof
  fix m
  show "abs_macs (\<lambda>k. if t k = Some r then None else t k) m = (if abs_macs t m = Some r then None else abs_macs t m)"
    by (cases "MACKey m") (auto simp: abs_macs_def)
qed

text \<open>Two switches are equal when owners and ports are.\<close>

lemma switch_eqI:
  "owner_of_id s = owner_of_id t \<Longrightarrow> owner_of_mac s = owner_of_mac t \<Longrightarrow> (\<And>r. ports s r = ports t r) \<Longrightarrow> s = (t :: switch)"
  by (cases s; cases t) (auto simp: fun_eq_iff)

lemma change_ports_sel [simp]:
  "owner_of_id (change_ports P f s) = owner_of_id s" "owner_of_mac (change_ports P f s) = owner_of_mac s"
  "ports (change_ports P f s) r = map_option (\<lambda>p. if P r p then f p else p) (ports s r)"
  by (simp_all add: change_ports_def)

lemma entitled_receives:
  assumes "MinimumFrameSize \<le> length f"
  shows "entitled (abs_hub h) s f r \<longleftrightarrow> receives h s f r"
proof -
  have "length f \<ge> 6" "DestinationMAC f = take 6 f"
    using assms by (simp_all add: DestinationMAC_def MinimumFrameSize_def)
  then show ?thesis by (simp add: entitled_def receives_def IsGroupMAC_def abs_macs_def Let_def)
qed

section \<open>Refinement\<close>

lemma attach_refines:
  assumes "hub_ok h" and "switch_step (Attach r) (abs_hub h) = Some s'"
  shows "\<exists>h'. hub_add h r = Some h' \<and> hub_ok h' \<and> abs_hub h' = s'"
proof -
  obtain p where p: "peers h r = Some p" using assms(2) by (auto split: option.splits)
  obtain k h1 where h1: "MACKey (p_mac p) = Some k" "add_locked h r = Some (h1, map_of (byID h) (p_id p), map_of (byMAC h) k)"
    "map_of (byID h1) = (map_of (byID h))(p_id p \<mapsto> r)" "map_of (byMAC h1) = (map_of (byMAC h))(k \<mapsto> r)" "peers h1 = peers h" "hub_ok h1"
    by (rule add_locked_Some [OF assms(1) p])
  have len: "length (p_mac p) = 6" using peer_okD(1) hub_okD(5) [OF assms(1) p] by blast
  let ?h = "fold stop_ref (add_stops r (map_of (byID h) (p_id p)) (map_of (byMAC h) k)) h1"
  have owner: "abs_macs (map_of (byMAC h)) (p_mac p) = map_of (byMAC h) k" using len h1(1) by (simp add: abs_macs_def)
  have "abs_hub ?h = s'"
  proof (rule switch_eqI)
    show "owner_of_id (abs_hub ?h) = owner_of_id s'" "owner_of_mac (abs_hub ?h) = owner_of_mac s'"
      using assms(2) p h1(3,4) abs_macs_upd [OF len h1(1)] by auto
    show "ports (abs_hub ?h) q = ports s' q" for q
      using assms(2) p h1(5) owner by (cases "peers h q") (auto simp: fold_stop_peers add_stops_iff)
  qed
  then show ?thesis using h1 by (simp add: hub_add_def hub_ok_stops)
qed

lemma detach_refines:
  assumes "hub_ok h" and "switch_step (Detach r) (abs_hub h) = Some s'"
  shows "\<exists>h'. hub_remove h r = Some h' \<and> hub_ok h' \<and> abs_hub h' = s'"
proof -
  obtain p where "peers h r = Some p" using assms(2) by (auto split: if_splits)
  then obtain h' where h': "hub_remove h r = Some h'" "peers h' = peers h" "hub_ok h'"
    "map_of (byID h') = (\<lambda>i. if map_of (byID h) i = Some r then None else map_of (byID h) i)"
    "map_of (byMAC h') = (\<lambda>k. if map_of (byMAC h) k = Some r then None else map_of (byMAC h) k)"
    by (rule hub_remove_Some [OF assms(1)]) (rule that)
  have "abs_hub h' = s'"
    by (rule switch_eqI) (use assms(2) h' in \<open>auto simp: abs_macs_drop split: if_splits\<close>)
  with h' show ?thesis by blast
qed

lemma send_refines:
  assumes "hub_ok h" and "switch_step (Send r now f) (abs_hub h) = Some s'"
  shows "\<exists>h'. forward now h r f = Some h' \<and> hub_ok h' \<and> abs_hub h' = s'"
proof -
  have len: "MinimumFrameSize \<le> length f" using assms(2) by (auto simp: MinimumFrameSize_def split: if_splits)
  obtain h' where h': "forward now h r f = Some h'" "byID h' = byID h" "byMAC h' = byMAC h"
    "\<And>q. peers h' q = (if receives h r f q then map_option (deliver f (now q)) (peers h q) else peers h q)" "hub_ok h'"
    by (rule forward_Some [OF assms(1) len, of now r]) (rule that)
  have "abs_hub h' = s'"
  proof (rule switch_eqI)
    show "ports (abs_hub h') q = ports s' q" for q
      using assms(2) h'(4) [of q] entitled_receives [OF len, of h r q] by (cases "peers h q") (auto split: if_splits)
  qed (use assms(2) h' in \<open>auto split: if_splits\<close>)
  with h' show ?thesis by blast
qed

lemma retain_refines:
  assumes "hub_ok h"
  shows "switch_step (Retain clients) (abs_hub h) = Some (abs_hub (fst (retainAuthorized h clients)))"
proof -
  have "abs_hub (fst (retainAuthorized h clients)) = the (switch_step (Retain clients) (abs_hub h))"
  proof (rule switch_eqI)
    show "ports (abs_hub (fst (retainAuthorized h clients))) q = ports (the (switch_step (Retain clients) (abs_hub h))) q" for q
      using stale_peers_iff [OF assms, of q clients]
      by (cases "peers h q") (auto simp: retainAuthorized_def Let_def fold_stop_peers)
  qed (simp_all add: retainAuthorized_def Let_def)
  then show ?thesis by simp
qed

lemma take_refines:
  assumes "hub_ok h" and "switch_step (Take r ok) (abs_hub h) = Some s'"
  shows "\<exists>h'. map_option fst (write_step h r (WFrame ok)) = Some h' \<and> hub_ok h' \<and> abs_hub h' = s'"
proof -
  obtain p f fs where p: "peers h r = Some p" "ch_buf (p_send p) = f # fs"
    using assms(2) by (auto split: option.splits list.splits)
  obtain h' m b where w: "write_step h r (WFrame ok) = Some (h', m, b)"
    using p by (cases ok) (auto simp: write_step_def chan_recv_def Let_def)
  have "abs_hub h' = s'"
  proof (rule switch_eqI)
    show "ports (abs_hub h') q = ports s' q" for q
      using assms(2) p w by (auto simp: write_step_def chan_recv_def Let_def abs_port_def port_kill_def split: if_splits)
  qed (use assms(2) p w in \<open>auto simp: write_step_def chan_recv_def Let_def split: if_splits\<close>)
  then show ?thesis using write_step_ok [OF assms(1) w] w by simp
qed

lemma connect_refines:
  assumes "hub_ok h" and "switch_step (Connect r a n idle) (abs_hub h) = Some s'"
  shows "hub_ok (h\<lparr>peers := (peers h)(r \<mapsto> new_peer a n idle)\<rparr>) \<and> abs_hub (h\<lparr>peers := (peers h)(r \<mapsto> new_peer a n idle)\<rparr>) = s'"
proof
  show "hub_ok (h\<lparr>peers := (peers h)(r \<mapsto> new_peer a n idle)\<rparr>)"
    using assms by (intro hub_ok_alloc peer_ok_new) (auto split: if_splits)
  show "abs_hub (h\<lparr>peers := (peers h)(r \<mapsto> new_peer a n idle)\<rparr>) = s'"
    by (rule switch_eqI) (use assms(2) in \<open>auto simp: abs_port_def new_peer_def split: if_splits\<close>)
qed

lemma step_refines:
  assumes "hub_ok h" and "switch_step x (abs_hub h) = Some s'"
  shows "\<exists>h'. hub_step x h = Some h' \<and> hub_ok h' \<and> abs_hub h' = s'"
proof (cases x)
  case (Connect r a n idle)
  then show ?thesis using connect_refines assms by (simp del: switch_step.simps)
next
  case (Retain clients)
  then show ?thesis using retain_refines [OF assms(1)] retainAuthorized_ok [OF assms(1)] assms(2) by (simp del: switch_step.simps)
qed (use assms attach_refines detach_refines send_refines take_refines in \<open>simp_all del: switch_step.simps\<close>)

lemma run_refines:
  "hub_ok h \<Longrightarrow> switch_run xs (abs_hub h) = Some s' \<Longrightarrow> \<exists>h'. hub_run xs h = Some h' \<and> hub_ok h' \<and> abs_hub h' = s'"
proof (induction xs arbitrary: h)
  case (Cons x xs)
  then obtain s1 where s1: "switch_step x (abs_hub h) = Some s1" "switch_run xs s1 = Some s'"
    by (auto simp del: switch_step.simps split: option.splits)
  from step_refines [OF Cons.prems(1) s1(1)] obtain h1 where "hub_step x h = Some h1" "hub_ok h1" "abs_hub h1 = s1" by blast
  with Cons.IH [of h1] s1(2) show ?case by simp
qed simp

text \<open>
  C3. The hub is a switch.  Every sequence of registrations, removals, forwarded frames, reloads and queue reads that the
  switch allows is executed by the hub without a panic, and leaves exactly the owners, the waiting frames, the
  counted losses and the stopped sessions that the switch says.
\<close>

theorem hub_refines_switch:
  assumes "switch_run xs \<lparr>owner_of_id = Map.empty, owner_of_mac = Map.empty, ports = Map.empty\<rparr> = Some s"
  shows "\<exists>h. hub_run xs newHub = Some h \<and> hub_ok h \<and> abs_hub h = s"
proof -
  have "abs_hub newHub = \<lparr>owner_of_id = Map.empty, owner_of_mac = Map.empty, ports = Map.empty\<rparr>"
    by (rule switch_eqI) (auto simp: newHub_def abs_macs_def bind_split split: option.splits)
  with run_refines [OF newHub_ok, of xs s] assms show ?thesis by simp
qed

text \<open>Two sessions with one address: the second takes over, and the removal of the first leaves it alone.\<close>

theorem hub_refines_switch_witness:
  "\<exists>h. hub_run [Connect 1 (ex_client ''a'' mac_a) 1 0, Attach 1, Connect 2 (ex_client ''b'' mac_a) 1 0, Attach 2, Detach 1,
       Connect 3 (ex_client ''c'' mac_b) 1 0, Attach 3, Send 3 (\<lambda>_. 0) (mac_a @ mac_b @ [8, 0])] newHub = Some h
     \<and> owner_of_mac (abs_hub h) mac_a = Some 2 \<and> map_option inbox (ports (abs_hub h) 2) = Some [mac_a @ mac_b @ [8, 0]]
     \<and> map_option live (ports (abs_hub h) 1) = Some False"
proof -
  let ?xs = "[Connect 1 (ex_client ''a'' mac_a) 1 0, Attach 1, Connect 2 (ex_client ''b'' mac_a) 1 0, Attach 2, Detach 1,
       Connect 3 (ex_client ''c'' mac_b) 1 0, Attach 3, Send 3 (\<lambda>_. 0) (mac_a @ mac_b @ [8, 0])]"
  obtain s where s: "switch_run ?xs \<lparr>owner_of_id = Map.empty, owner_of_mac = Map.empty, ports = Map.empty\<rparr> = Some s"
    by (simp add: ex_client_def mac_a_def mac_b_def)
  have "owner_of_mac s mac_a = Some 2 \<and> map_option inbox (ports s 2) = Some [mac_a @ mac_b @ [8, 0]] \<and> map_option live (ports s 1) = Some False"
    using s by (auto simp: ex_client_def mac_a_def mac_b_def entitled_def port_push_def port_kill_def Let_def)
  with hub_refines_switch [OF s] show ?thesis by auto
qed

end
