(* ===== verification/Deployment.thy ===== *)
theory Deployment
  imports Enrollment
begin

text \<open>
  A deployment directory over its life: any sequence of \<^verbatim>\<open>wsnctl\<close> commands that work on it, whatever fails in them,
  wherever they are killed and wherever the machine stops.
\<close>

section \<open>Commands\<close>

text \<open>The subcommands with what they take from outside; \<^verbatim>\<open>fingerprint\<close> reads one file and does not belong to a deployment.\<close>

datatype command =
    CInit x509 entropy entropy InitOptions
  | CAdd AddOptions "bytes res" "bytes res"
  | CEnroll platform EnrollOptions "bytes res" "bytes res"
  | CRevoke string
  | CBundle platform BundleOptions
  | CServerBundle platform string
  | CRotate x509 entropy
  | CList

fun exec_command :: "string \<Rightarrow> command \<Rightarrow> world \<Rightarrow> world" where
  "exec_command d (CInit X e e' options) w = snd (Init X e e' d options w)"
| "exec_command d (CAdd options key rnd) w = snd (AddClient d options key rnd w)"
| "exec_command d (CEnroll P options key rnd) w = snd (Enroll P d options key rnd w)"
| "exec_command d (CRevoke cid) w = snd (RevokeClient d cid w)"
| "exec_command d (CBundle P options) w = snd (provision_Bundle P d options w)"
| "exec_command d (CServerBundle P output) w = snd (ServerBundle P d output w)"
| "exec_command d (CRotate X e) w = snd (RotateCertificate X e d w)"
| "exec_command d CList w = snd (List d w)"

text \<open>Commands one after the other, whatever each returns.\<close>

definition session :: "string \<Rightarrow> command list \<Rightarrow> world \<Rightarrow> world" where
  "session d cs w = fold (exec_command d) cs w"

text \<open>
  What is asked of the commands: random bytes have the length that was asked for, and the archive of a bundle is not
  written over one of the four protected files of the deployment.
\<close>

definition protected :: "string \<Rightarrow> string set" where
  "protected d = {join d ''state.json'', join d ''server.json'', join d ''relay-ca.key'', join d ''relay.key''}"

definition random_ok :: "bytes res \<Rightarrow> bytes res \<Rightarrow> bool" where
  "random_ok key rnd \<longleftrightarrow> (case key of Inl _ \<Rightarrow> True | Inr k \<Rightarrow> length k = 32) \<and> (case rnd of Inl _ \<Rightarrow> True | Inr r \<Rightarrow> length r = 6)"

fun command_ok :: "string \<Rightarrow> command \<Rightarrow> bool" where
  "command_ok d (CAdd options key rnd) \<longleftrightarrow> random_ok key rnd"
| "command_ok d (CEnroll P options key rnd) \<longleftrightarrow>
     random_ok key rnd \<and> en_Output options \<notin> protected d \<and> en_ServerOutput options \<notin> protected d"
| "command_ok d (CBundle P options) \<longleftrightarrow> b_Output options \<notin> protected d"
| "command_ok d (CServerBundle P output) \<longleftrightarrow> output \<notin> protected d"
| "command_ok d _ \<longleftrightarrow> True"

lemma random_okD: "random_ok key rnd \<Longrightarrow> key = Inr k \<Longrightarrow> length k = 32" "random_ok key rnd \<Longrightarrow> rnd = Inr r \<Longrightarrow> length r = 6"
  by (simp_all add: random_ok_def)

section \<open>Outputs\<close>

lemma dep_inv_ignores: "p \<notin> protected d \<Longrightarrow> ignores p (dep_inv d)"
  unfolding ignores_def guarded_def
proof (intro allI impI)
  fix F x name y
  assume p: "p \<notin> protected d" and F: "\<forall>name x. plain name \<longrightarrow> F (join d name) = Some x \<longrightarrow> dep_ok name x"
    and name: "plain name" "(F(p \<mapsto> x)) (join d name) = Some y"
  show "dep_ok name y"
  proof (cases "join d name = p")
    case True
    then have "name \<notin> {''state.json'', ''server.json'', ''relay-ca.key'', ''relay.key''}" using p by (auto simp: protected_def)
    then show ?thesis by (simp add: dep_ok_def)
  next
    case False
    then have "F (join d name) = Some y" using name(2) by simp
    then show ?thesis using F name(1) by blast
  qed
qed

text \<open>The names that are used when no output is given are not protected either: they end differently.\<close>

lemma protected_last: "p \<in> protected d \<Longrightarrow> List.last p = CHR ''n'' \<or> List.last p = CHR ''y''"
  by (auto simp: protected_def join_def)

lemma bundle_output_free: "b_Output options \<notin> protected d \<Longrightarrow> bundle_output c options \<notin> protected d"
  using protected_last [of "pc_ID c @ ''-windows.zip''" d] protected_last [of "pc_ID c @ ''-linux.tar.gz''" d]
  by (auto simp: bundle_output_def)

lemma server_output_free: "output \<notin> protected d \<Longrightarrow> server_output output \<notin> protected d"
  using protected_last [of "''wsn-server-private.tar.gz''" d] by (auto simp: server_output_def)

section \<open>Every command keeps the directory guarded\<close>

lemma triple_quiet_skip: "quiet m Q \<Longrightarrow> (\<And>x. triple I (\<lambda>_. True) (f x) C) \<Longrightarrow> triple I (\<lambda>_. True) (io_bind m f) C"
  by (rule triple_quiet_bind, assumption, rule triple_weaken) auto

lemma triple_bind_any: "triple I A m (\<lambda>_ _. True) \<Longrightarrow> (\<And>x. triple I (\<lambda>_. True) (f x) C) \<Longrightarrow> triple I A (io_bind m f) C"
  by (rule triple_bind)

lemma triple_load_any: "(\<And>st. triple I (\<lambda>_. True) (f st) C) \<Longrightarrow> triple I (\<lambda>_. True) (io_bind (loadState d) f) C"
  by (rule triple_loadState, rule triple_weaken) auto

lemma triple_tar_any: "ignores output I \<Longrightarrow> triple I (\<lambda>_. True) (tarDirectory P s output) (\<lambda>_ _. True)"
  by (rule triple_weaken [OF triple_tarDirectory]) (auto simp: ignores_def)

lemma triple_zip_any: "ignores output I \<Longrightarrow> triple I (\<lambda>_. True) (zipDirectory P s output) (\<lambda>_ _. True)"
  by (rule triple_weaken [OF triple_zipDirectory]) (auto simp: ignores_def)

lemma triple_Bundle_any:
  assumes "b_Output options \<notin> protected d"
  shows "triple (dep_inv d) (\<lambda>_. True) (provision_Bundle P d options) (\<lambda>_ _. True)"
proof -
  have "ignores (bundle_output c options) (dep_inv d)" for c
    by (rule dep_inv_ignores, rule bundle_output_free, fact assms)
  then show ?thesis
    unfolding provision_Bundle_def Let_def
    by (intro triple_load_any triple_bind_lift triple_quiet_skip [OF quiet_verifyClientBinary] triple_call
        triple_quiet_skip [OF quiet_renderBundle] triple_bind_any triple_return)
      (auto simp: triple_tar_any triple_zip_any)
qed

lemma triple_ServerBundle_any:
  assumes "output \<notin> protected d"
  shows "triple (dep_inv d) (\<lambda>_. True) (ServerBundle P d output) (\<lambda>_ _. True)"
proof -
  have "ignores (server_output output) (dep_inv d)" by (rule dep_inv_ignores, rule server_output_free, fact assms)
  then show ?thesis
    unfolding ServerBundle_def Let_def server_output_def [symmetric]
    by (intro triple_load_any triple_call triple_quiet_skip [OF quiet_copyFile] triple_bind_any triple_return triple_tar_any) auto
qed

lemma triple_any: "(\<And>S. triple I (starts d S) m (B S)) \<Longrightarrow> triple I (\<lambda>_. True) m (\<lambda>_ _. True)"
  unfolding triple_def outcome_def by blast

lemma triple_or_revoke:
  assumes "triple (dep_inv d) (\<lambda>_. True) m (\<lambda>_ _. True)"
  shows "triple (dep_inv d) (\<lambda>_. True) (or_revoke d cid m) (\<lambda>_ _. True)"
  unfolding triple_def outcome_def
proof (intro allI impI conjI TrueI)
  fix w :: world assume w: "dep_inv d (files w)"
  let ?R = "\<lambda>F G. dep_inv d F \<longrightarrow> dep_inv d G"
  obtain r w1 where m: "m w = (r, w1)" by (cases "m w")
  have e1: "effect ?R w w1" using triple_effect [OF assms, of w] w m by simp
  then have w1: "dep_inv d (files w1)" using w by (simp add: effect_def)
  have e2: "effect ?R w1 (snd (RevokeClient d cid w1))" by (rule triple_effect [OF triple_any [OF triple_RevokeClient] w1]) simp
  have "effect ?R w (snd (RevokeClient d cid w1))" by (rule effect_trans [OF e1 e2]) blast
  then show "effect ?R w (snd (or_revoke d cid m w))"
    using e1 m by (auto simp: or_revoke_def split: sum.splits prod.splits)
qed

lemma triple_Enroll_any:
  assumes "random_ok key rnd" and "en_Output options \<notin> protected d" and "en_ServerOutput options \<notin> protected d"
  shows "triple (dep_inv d) (\<lambda>_. True) (Enroll P d options key rnd) (\<lambda>_ _. True)"
  unfolding Enroll_def
proof (intro triple_bind_any triple_or_revoke triple_Bundle_any triple_ServerBundle_any triple_return)
  show "triple (dep_inv d) (\<lambda>_. True) (AddClient d (en_Add options) key rnd) (\<lambda>_ _. True)"
    by (rule triple_any [OF triple_AddClient]) (use random_okD [OF assms(1)] in blast)+
qed (use assms in \<open>simp_all add: enroll_bundle_def\<close>)

lemma exec_command_effect:
  assumes "command_ok d c" and "dep_inv d (files w)"
  shows "effect (\<lambda>F G. dep_inv d F \<longrightarrow> dep_inv d G) w (exec_command d c w)"
proof (cases c)
  case (CAdd options key rnd)
  have "triple (dep_inv d) (\<lambda>_. True) (AddClient d options key rnd) (\<lambda>_ _. True)"
    by (rule triple_any [OF triple_AddClient]) (use assms(1) CAdd random_okD in auto)
  from triple_effect [OF this assms(2)] CAdd show ?thesis by simp
next
  case (CEnroll P options key rnd)
  then show ?thesis using triple_effect [OF triple_Enroll_any assms(2)] assms(1) by simp
next
  case (CBundle P options)
  then show ?thesis using triple_effect [OF triple_Bundle_any assms(2)] assms(1) by simp
next
  case (CServerBundle P out)
  then show ?thesis using triple_effect [OF triple_ServerBundle_any assms(2)] assms(1) by simp
next
  case (CRotate X e)
  have "triple (dep_inv d) (\<lambda>_. True) (RotateCertificate X e d) (\<lambda>_ _. True)"
    by (rule triple_weaken [OF triple_Rotate_dep]) (auto simp: dep_raw_def)
  from triple_effect [OF this, of w] show ?thesis using assms(2) CRotate by simp
qed (use assms(2) in \<open>auto intro: triple_effect [OF triple_Init] triple_effect [OF triple_RevokeClient] triple_effect [OF triple_List [where A = "\<lambda>_. True"]]\<close>)

section \<open>Every command keeps the documents flushed\<close>

definition documents :: "string \<Rightarrow> string set" where
  "documents d = {join d ''state.json'', join d ''server.json''}"

lemma documents_tmps: "documents d \<inter> tmps d = {}"
  by (auto simp: documents_def plain_not_tmp)

lemma documents_join: "join d name \<in> documents d \<longleftrightarrow> name = ''state.json'' \<or> name = ''server.json''"
  by (auto simp: documents_def)

lemma documents_protected: "p \<notin> protected d \<Longrightarrow> p \<notin> documents d"
  by (auto simp: documents_def protected_def)

lemma avoids_case_prod [avoids_rules]: "(\<And>x y. avoids K (f x y)) \<Longrightarrow> avoids K (case p of (x, y) \<Rightarrow> f x y)"
  by (simp split: prod.splits)

lemma avoids_save [avoids_rules]: "avoids (documents d) (saveState d st)" "avoids (documents d) (writeRelayConfig d st)"
  unfolding saveState_def writeRelayConfig_def by (intro avoids_rules documents_tmps; simp)+

lemma avoids_loadState [avoids_rules]: "avoids K (loadState d)"
  unfolding loadState_def by (intro avoids_rules)

lemma avoids_writePEM [avoids_rules]: "name \<noteq> ''state.json'' \<Longrightarrow> name \<noteq> ''server.json'' \<Longrightarrow> avoids (documents d) (writePEM d name what der mode)"
  unfolding writePEM_def by (rule avoids_WriteFile) (simp add: documents_join)

lemma avoids_leaf [avoids_rules]: "avoids (documents d) (generateLeafCertificate X e d ip ca k)"
  unfolding generateLeafCertificate_def by (intro avoids_rules) simp_all

lemma avoids_certificates [avoids_rules]: "avoids (documents d) (generateCertificates X e e' d ip)"
  unfolding generateCertificates_def Let_def by (intro avoids_rules) simp_all

lemma avoids_Stat [avoids_rules]: "avoids K (Stat path)"
proof -
  have "snd (Stat path w) = snd (syscall ''stat'' (\<lambda>F. F) w)" for w
    by (simp add: Stat_def split: prod.splits sum.splits)
  then show ?thesis using avoids_syscall [of K "''stat''" "\<lambda>F. F"] by (simp add: avoids_def)
qed

lemma avoids_ReadDir [avoids_rules]: "avoids K (ReadDir k s)"
proof -
  have "snd (ReadDir k s w) = snd (syscall ''readdir'' (\<lambda>F. F) w)" for w
    by (simp add: ReadDir_def Let_def split: prod.splits sum.splits)
  then show ?thesis using avoids_syscall [of K "''readdir''" "\<lambda>F. F"] by (simp add: avoids_def)
qed

lemma avoids_each_entry [avoids_rules]: "avoids K (each_entry calls es)"
proof (induction es)
  case (Cons e es)
  have "avoids K (foldr (\<lambda>what m. io_bind (syscall what (\<lambda>F. F)) (\<lambda>_. m)) calls (io_lift (Inr ())))"
    by (induction calls) (auto intro: avoids_rules)
  then show ?case using Cons by (auto intro: avoids_bind)
qed (simp add: avoids_lift)

lemma avoids_archives [avoids_rules]:
  "output \<notin> K \<Longrightarrow> avoids K (tarDirectory P s output)" "output \<notin> K \<Longrightarrow> avoids K (zipDirectory P s output)"
  unfolding tarDirectory_def zipDirectory_def by (intro avoids_rules; assumption)+

lemma avoids_stage [avoids_rules]: "avoids K (stage name c mode s)"
  unfolding stage_def by (intro avoids_rules)

lemma avoids_copyFile [avoids_rules]: "avoids K (copyFile source name mode s)"
  unfolding copyFile_def by (intro avoids_rules)

lemma avoids_hashes [avoids_rules]:
  "avoids K (fileSHA256 P path)" "avoids K (Fingerprint P path)" "avoids K (verifyClientBinary P path os)"
  unfolding fileSHA256_def Fingerprint_def verifyClientBinary_def by (intro avoids_rules)+

lemma avoids_assets [avoids_rules]: "avoids K (render_assets P names s)"
  by (induction names arbitrary: s) (auto simp: Let_def intro: avoids_rules split: option.splits)

lemma avoids_renderBundle [avoids_rules]: "avoids K (renderBundle P d st c options)"
  unfolding renderBundle_def render_identity_def render_meta_def tap_hashes_def render_binaries_def Let_def
  by (intro avoids_rules)

lemma avoids_Bundle [avoids_rules]:
  assumes "b_Output options \<notin> protected d"
  shows "avoids (documents d) (provision_Bundle P d options)"
  unfolding provision_Bundle_def Let_def
  by (intro avoids_rules documents_protected bundle_output_free assms)

lemma avoids_ServerBundle [avoids_rules]:
  assumes "output \<notin> protected d"
  shows "avoids (documents d) (ServerBundle P d output)"
  unfolding ServerBundle_def Let_def server_output_def [symmetric]
  by (intro avoids_rules documents_protected server_output_free assms)

lemma avoids_clients [avoids_rules]:
  "avoids (documents d) (AddClient d options key rnd)" "avoids (documents d) (RevokeClient d cid)" "avoids K (List d)"
  unfolding AddClient_def RevokeClient_def List_def by (intro avoids_rules)+

lemma avoids_or_revoke [avoids_rules]:
  assumes "avoids (documents d) m"
  shows "avoids (documents d) (or_revoke d cid m)"
  unfolding avoids_def
proof
  fix w :: world
  let ?R = "flushed_step (documents d)"
  obtain r w1 where m: "m w = (r, w1)" by (cases "m w")
  have e1: "passes ?R w w1" using assms m unfolding avoids_def by (metis snd_conv)
  have e2: "passes ?R w1 (snd (RevokeClient d cid w1))" using avoids_clients(2) unfolding avoids_def by blast
  have "passes ?R w (snd (RevokeClient d cid w1))" by (rule passes_trans [OF e1 e2]) blast
  then show "passes ?R w (snd (or_revoke d cid m w))"
    using e1 m by (auto simp: or_revoke_def split: sum.splits prod.splits)
qed

lemma avoids_Enroll [avoids_rules]:
  assumes "en_Output options \<notin> protected d" and "en_ServerOutput options \<notin> protected d"
  shows "avoids (documents d) (Enroll P d options key rnd)"
  unfolding Enroll_def by (intro avoids_rules) (use assms in \<open>simp_all add: enroll_bundle_def\<close>)

lemma avoids_Init [avoids_rules]: "avoids (documents d) (Init X e e' d options)"
  unfolding Init_def by (intro avoids_rules documents_tmps) simp

lemma avoids_Rotate [avoids_rules]: "avoids (documents d) (RotateCertificate X e d)"
  unfolding RotateCertificate_def by (intro avoids_rules)

lemma exec_command_flushed:
  assumes "command_ok d c"
  shows "passes (flushed_step (documents d)) w (exec_command d c w)"
proof -
  have *: "avoids (documents d) m \<Longrightarrow> passes (flushed_step (documents d)) w (snd (m w))" for m :: "'a io"
    by (simp add: avoids_def)
  show ?thesis using assms by (cases c) (simp_all add: * avoids_rules)
qed

section \<open>Sequences of commands\<close>

lemma session_effect:
  "list_all (command_ok d) cs \<Longrightarrow> dep_inv d (files w) \<Longrightarrow>
     effect (\<lambda>F G. dep_inv d F \<longrightarrow> dep_inv d G) w (session d cs w) \<and> passes (flushed_step (documents d)) w (session d cs w)"
  unfolding session_def
proof (induction cs arbitrary: w)
  case Nil
  then show ?case by (simp add: effect_def passes_def)
next
  case (Cons c cs)
  let ?R = "\<lambda>F G. dep_inv d F \<longrightarrow> dep_inv d G" and ?w = "exec_command d c w"
  have e: "effect ?R w ?w" "passes (flushed_step (documents d)) w ?w"
    using Cons.prems exec_command_effect exec_command_flushed by simp_all
  then have "dep_inv d (files ?w)" using Cons.prems(2) by (simp add: effect_def)
  then have r: "effect ?R ?w (fold (exec_command d) cs ?w)" "passes (flushed_step (documents d)) ?w (fold (exec_command d) cs ?w)"
    using Cons by simp_all
  have "effect ?R w (fold (exec_command d) cs ?w)" by (rule effect_trans [OF e(1) r(1)]) blast
  moreover have "passes (flushed_step (documents d)) w (fold (exec_command d) cs ?w)" by (rule passes_trans [OF e(2) r(2)]) blast
  ultimately show ?case by simp
qed

text \<open>
  C9. The deployment directory is never torn.  Through any sequence of the eight \<^verbatim>\<open>wsnctl\<close> commands that work on it, whatever
  calls fail in them, wherever a command is killed and wherever the machine stops, \<^verbatim>\<open>state.json\<close>, if it exists, holds a
  complete well-formed deployment, \<^verbatim>\<open>server.json\<close> holds the complete rendering of one, and both and the private keys
  of the authority and the relay are readable by their owner only.  This is so of every file system the
  commands pass through and of every one that a crash can leave.
\<close>

theorem deployment_never_torn:
  assumes "dep_inv d (files w)" and "join d ''state.json'' \<notin> unsynced w" and "join d ''server.json'' \<notin> unsynced w"
    and "list_all (command_ok d) cs"
  shows "\<exists>hs. history (session d cs w) = history w @ hs
    \<and> (\<forall>F. F \<in> set (files (session d cs w) # hs) \<or> crash_image w (session d cs w) F \<longrightarrow> (\<forall>c m.
         (F (join d ''state.json'') = Some (c, m) \<longrightarrow> m = mode_0600 \<and> (\<exists>st. c = StateJSON st \<and> state_ok st))
         \<and> (F (join d ''server.json'') = Some (c, m) \<longrightarrow> m = mode_0600 \<and> (\<exists>st. c = RelayJSON (relay_config st) \<and> state_ok st))
         \<and> (F (join d ''relay-ca.key'') = Some (c, m) \<or> F (join d ''relay.key'') = Some (c, m) \<longrightarrow> m = mode_0600)))"
proof -
  have e: "effect (\<lambda>F G. dep_inv d F \<longrightarrow> dep_inv d G) w (session d cs w)" "passes (flushed_step (documents d)) w (session d cs w)"
    using session_effect [OF assms(4,1)] by blast+
  obtain hs where hs: "history (session d cs w) = history w @ hs" "\<forall>F \<in> set (files (session d cs w) # hs). dep_inv d F"
    using e(1) assms(1) unfolding effect_def by auto
  have crash: "dep_inv d G" if "crash_image w (session d cs w) G" for G
    by (rule dep.crash_guarded [OF e assms(1) _ _ that]) (use assms(2,3) in \<open>auto simp: documents_def dep_raw_def\<close>)
  have "(F (join d ''state.json'') = Some (c, m) \<longrightarrow> m = mode_0600 \<and> (\<exists>st. c = StateJSON st \<and> state_ok st))
      \<and> (F (join d ''server.json'') = Some (c, m) \<longrightarrow> m = mode_0600 \<and> (\<exists>st. c = RelayJSON (relay_config st) \<and> state_ok st))
      \<and> (F (join d ''relay-ca.key'') = Some (c, m) \<or> F (join d ''relay.key'') = Some (c, m) \<longrightarrow> m = mode_0600)"
    if "dep_inv d F" for F c m
  proof (intro conjI impI)
    show "m = mode_0600" "\<exists>st. c = StateJSON st \<and> state_ok st" if "F (join d ''state.json'') = Some (c, m)"
      using dep_invD [OF \<open>dep_inv d F\<close> _ that] by (simp_all add: dep_ok_def)
    show "m = mode_0600" "\<exists>st. c = RelayJSON (relay_config st) \<and> state_ok st" if "F (join d ''server.json'') = Some (c, m)"
      using dep_invD [OF \<open>dep_inv d F\<close> _ that] by (simp_all add: dep_ok_def)
    show "m = mode_0600" if "F (join d ''relay-ca.key'') = Some (c, m) \<or> F (join d ''relay.key'') = Some (c, m)"
      using that dep_invD [OF \<open>dep_inv d F\<close>, of "''relay-ca.key''" c m] dep_invD [OF \<open>dep_inv d F\<close>, of "''relay.key''" c m]
      by (auto simp: dep_ok_def)
  qed
  then show ?thesis using hs crash by blast
qed

text \<open>An initialization in which creating \<^verbatim>\<open>relay-ca.crt\<close> fails, and a server bundle that misses it.\<close>

theorem deployment_never_torn_witness:
  "\<exists>st w. w = session ''/d'' [CInit ex_x509 ex_entropy ex_entropy ex_init, CServerBundle ex_platform '''']
        (ex_empty (replicate 11 False @ [True]))
     \<and> files w (join ''/d'' ''state.json'') = Some (StateJSON st, mode_0600) \<and> state_ok st
     \<and> (\<forall>G c m. crash_image (ex_empty (replicate 11 False @ [True])) w G \<longrightarrow> G (join ''/d'' ''server.json'') = Some (c, m) \<longrightarrow>
          (\<exists>st. c = RelayJSON (relay_config st)))"
proof -
  let ?cs = "[CInit ex_x509 ex_entropy ex_entropy ex_init, CServerBundle ex_platform '''']"
  let ?e = "ex_empty (replicate 11 False @ [True])"
  let ?w = "session ''/d'' ?cs ?e"
  have "files ?w (join ''/d'' ''state.json'') \<noteq> None" by code_simp
  then obtain c m where "files ?w (join ''/d'' ''state.json'') = Some (c, m)" by auto
  moreover have "dep_inv ''/d'' (files ?e)" "unsynced ?e = {}" by (simp_all add: guarded_def ex_empty_def)
  moreover have "list_all (command_ok ''/d'') ?cs"
    by (simp add: protected_def join_def)
  ultimately show ?thesis using deployment_never_torn [of "''/d''" ?e ?cs] by (metis empty_iff list.set_intros(1))
qed

end
