(* ===== verification/Admin.thy ===== *)
theory Admin
  imports Enrollment Flags
begin

text \<open>
  \<^verbatim>\<open>cmd/wsnctl/main.go\<close>: the command line of the administrator, over the operations of \<^verbatim>\<open>provision.go\<close>.  A
  run of the program is its exit status, what it printed, the error that \<^verbatim>\<open>must\<close> reported, and the files.
\<close>

section \<open>The program\<close>

type_synonym report = "int \<times> string \<times> error option"

text \<open>What an invocation draws from outside: the platform and the random values.\<close>

record invocation =
  in_platform :: platform
  in_ca :: entropy
  in_leaf :: entropy
  in_key :: "bytes res"
  in_random :: "bytes res"

text \<open>\<^verbatim>\<open>must\<close> on the error of an operation, then the line printed.\<close>

definition finish :: "'a io \<Rightarrow> ('a \<Rightarrow> string) \<Rightarrow> world \<Rightarrow> report \<times> world" where
  "finish operation text w =
     (case operation w of
        (Inl err, w') \<Rightarrow> ((1, '''', Some err), w')
      | (Inr x, w') \<Rightarrow> ((0, text x, None), w'))"

definition with_flags :: "(string \<times> string) list \<Rightarrow> string list \<Rightarrow> ((string \<Rightarrow> string) \<Rightarrow> world \<Rightarrow> report \<times> world) \<Rightarrow> world \<Rightarrow> report \<times> world" where
  "with_flags defaults args body w =
     (case flag_Parse (map_of defaults) args of
        BadFlags \<Rightarrow> ((2, '''', None), w)
      | HelpRequested \<Rightarrow> ((0, '''', None), w)
      | Flags flags _ \<Rightarrow> body (flag_value flags) w)"

definition line :: "string \<Rightarrow> string" where "line s = s @ [CHR 0x0A]"

definition client_text :: "ProvisionedClient \<Rightarrow> string" where
  "client_text client = line (''added '' @ pc_ID client @ '' ('' @ pc_OS client @ '', '' @ pc_Address client @ '', '' @ pc_MAC client @ '')'')"

definition init_flags :: "(string \<times> string) list" where
  "init_flags = [(''state'', ''./wsn-state''), (''public-ip'', ''''), (''overlay'', ''''), (''gateway'', ''''), (''dns'', ''''), (''search'', '''')]"

definition init_values :: "(string \<Rightarrow> string) \<Rightarrow> InitOptions" where
  "init_values v = \<lparr>i_PublicIP = v ''public-ip'', i_Overlay = v ''overlay'', i_Gateway = v ''gateway'', i_DNS = v ''dns'',
     i_Search = splitList (v ''search'')\<rparr>"

definition init_text :: "string \<Rightarrow> string \<Rightarrow> string" where
  "init_text directory fingerprint = line (''initialized '' @ directory) @ line (''relay CA public-key fingerprint: '' @ fingerprint)"

definition initDeployment :: "invocation \<Rightarrow> string list \<Rightarrow> world \<Rightarrow> report \<times> world" where
  "initDeployment I args =
     with_flags init_flags args (\<lambda>v.
       finish (io_bind (Init (certs (in_platform I)) (in_ca I) (in_leaf I) (v ''state'') (init_values v))
           (\<lambda>_. Fingerprint (in_platform I) (v ''state'' @ ''/relay-ca.crt'')))
         (init_text (v ''state'')))"

definition add_flags :: "(string \<times> string) list" where
  "add_flags = [(''state'', ''./wsn-state''), (''id'', ''''), (''os'', ''linux''), (''role'', ''client''), (''address'', ''''),
     (''device'', ''''), (''routes'', ''''), (''egress'', '''')]"

definition add_values :: "(string \<Rightarrow> string) \<Rightarrow> AddOptions" where
  "add_values v = \<lparr>a_ID = v ''id'', a_OS = v ''os'', a_Role = v ''role'', a_Address = v ''address'', a_Device = v ''device'',
     a_Routes = splitList (v ''routes''), a_Egress = v ''egress''\<rparr>"

definition addClient :: "invocation \<Rightarrow> string list \<Rightarrow> world \<Rightarrow> report \<times> world" where
  "addClient I args =
     with_flags add_flags args (\<lambda>v. finish (AddClient (v ''state'') (add_values v) (in_key I) (in_random I)) client_text)"

definition enroll_flags :: "(string \<times> string) list" where
  "enroll_flags = add_flags @ [(''client-binary'', ''''), (''tap-installer'', ''''), (''tapctl'', ''''), (''output'', ''''),
     (''server-output'', ''wsn-server-private.tar.gz'')]"

definition enroll_text :: "EnrollResult \<Rightarrow> string" where
  "enroll_text result = client_text (er_Client result) @ line (''client bundle: '' @ er_ClientBundle result)
     @ line (''server bundle: '' @ er_ServerBundle result)
     @ line ''next: copy the server bundle to the VDS and run deploy/server/reload.sh on it''"

definition enroll_values :: "(string \<Rightarrow> string) \<Rightarrow> EnrollOptions" where
  "enroll_values v = \<lparr>en_Add = add_values v, en_ClientBinary = v ''client-binary'', en_TapInstaller = v ''tap-installer'',
     en_Tapctl = v ''tapctl'', en_Output = v ''output'', en_ServerOutput = v ''server-output''\<rparr>"

definition enroll :: "invocation \<Rightarrow> string list \<Rightarrow> world \<Rightarrow> report \<times> world" where
  "enroll I args =
     with_flags enroll_flags args (\<lambda>v.
       finish (Enroll (in_platform I) (v ''state'') (enroll_values v) (in_key I) (in_random I))
         enroll_text)"

definition revoke_flags :: "(string \<times> string) list" where
  "revoke_flags = [(''state'', ''./wsn-state''), (''id'', '''')]"

definition revokeClient :: "string list \<Rightarrow> world \<Rightarrow> report \<times> world" where
  "revokeClient args =
     with_flags revoke_flags args (\<lambda>v. finish (RevokeClient (v ''state'') (v ''id'')) (\<lambda>_. line (''revoked '' @ v ''id'')))"

definition state_flags :: "(string \<times> string) list" where
  "state_flags = [(''state'', ''./wsn-state'')]"

definition list_text :: "ProvisionedClient list \<Rightarrow> string" where
  "list_text clients = concat (map (\<lambda>c. line (Join [CHR 0x09] [pc_ID c, pc_OS c, pc_Role c, pc_Address c, pc_MAC c])) clients)"

definition listClients :: "string list \<Rightarrow> world \<Rightarrow> report \<times> world" where
  "listClients args = with_flags state_flags args (\<lambda>v. finish (List (v ''state'')) list_text)"

definition bundle_flags :: "(string \<times> string) list" where
  "bundle_flags = [(''state'', ''./wsn-state''), (''id'', ''''), (''client-binary'', ''''), (''tap-installer'', ''''), (''tapctl'', ''''), (''output'', '''')]"

definition bundle_command :: "invocation \<Rightarrow> string list \<Rightarrow> world \<Rightarrow> report \<times> world" where
  "bundle_command I args =
     with_flags bundle_flags args (\<lambda>v.
       finish (provision_Bundle (in_platform I) (v ''state'')
           \<lparr>b_ID = v ''id'', b_ClientBinary = v ''client-binary'', b_TapInstaller = v ''tap-installer'', b_Tapctl = v ''tapctl'', b_Output = v ''output''\<rparr>)
         (\<lambda>path. line (''created private bundle '' @ path)))"

definition serverBundle :: "invocation \<Rightarrow> string list \<Rightarrow> world \<Rightarrow> report \<times> world" where
  "serverBundle I args =
     with_flags [(''state'', ''./wsn-state''), (''output'', '''')] args (\<lambda>v.
       finish (ServerBundle (in_platform I) (v ''state'') (v ''output'')) (\<lambda>path. line (''created private server bundle '' @ path)))"

definition rotateCertificate :: "invocation \<Rightarrow> string list \<Rightarrow> world \<Rightarrow> report \<times> world" where
  "rotateCertificate I args =
     with_flags state_flags args (\<lambda>v.
       finish (RotateCertificate (certs (in_platform I)) (in_leaf I) (v ''state''))
         (\<lambda>_. line ''rotated relay certificate; regenerate and deploy the server bundle''))"

definition wsnctl :: "invocation \<Rightarrow> string list \<Rightarrow> world \<Rightarrow> report \<times> world" where
  "wsnctl I arguments w =
     (case arguments of
        [] \<Rightarrow> ((2, '''', None), w)
      | command # args \<Rightarrow>
          if command = ''init'' then initDeployment I args w
          else if command = ''add-client'' then addClient I args w
          else if command = ''enroll'' then enroll I args w
          else if command = ''revoke-client'' then revokeClient args w
          else if command = ''list-clients'' then listClients args w
          else if command = ''bundle'' then bundle_command I args w
          else if command = ''server-bundle'' then serverBundle I args w
          else if command = ''rotate-certificate'' then rotateCertificate I args w
          else ((2, '''', None), w))"

section \<open>What reaches the operations\<close>

text \<open>A command line that writes out every option.\<close>

definition init_args :: "string \<Rightarrow> InitOptions \<Rightarrow> (string \<times> string) list" where
  "init_args d opt = [(''state'', d), (''public-ip'', i_PublicIP opt), (''overlay'', i_Overlay opt), (''gateway'', i_Gateway opt), (''dns'', i_DNS opt),
     (''search'', Join '','' (i_Search opt))]"

definition add_args :: "string \<Rightarrow> AddOptions \<Rightarrow> (string \<times> string) list" where
  "add_args d opt = [(''state'', d), (''id'', a_ID opt), (''os'', a_OS opt), (''role'', a_Role opt), (''address'', a_Address opt), (''device'', a_Device opt),
     (''routes'', Join '','' (a_Routes opt)), (''egress'', a_Egress opt)]"

definition enroll_args :: "string \<Rightarrow> EnrollOptions \<Rightarrow> (string \<times> string) list" where
  "enroll_args d opt = add_args d (en_Add opt) @ [(''client-binary'', en_ClientBinary opt), (''tap-installer'', en_TapInstaller opt),
     (''tapctl'', en_Tapctl opt), (''output'', en_Output opt), (''server-output'', en_ServerOutput opt)]"


lemma with_flags_args:
  assumes "\<forall>(name, v) \<in> set options. flag_name name \<and> map_of defaults name \<noteq> None"
  shows "with_flags defaults (flag_args options) body w =
    body (flag_value (foldl (\<lambda>f (name, v). f(name \<mapsto> v)) (map_of defaults) options)) w"
  using flag_Parse_args [OF assms] by (simp add: with_flags_def)

lemma addClient_args:
  assumes "\<forall>x \<in> set (a_Routes opt). list_item x"
  shows "addClient I (flag_args (add_args d opt)) w = finish (AddClient d opt (in_key I) (in_random I)) client_text w"
proof -
  let ?v = "flag_value (foldl (\<lambda>f (name, v). f(name \<mapsto> v)) (map_of add_flags) (add_args d opt))"
  have "with_flags add_flags (flag_args (add_args d opt)) body w = body ?v w" for body
    by (rule with_flags_args) (simp add: add_args_def add_flags_def flag_name_def)
  moreover have "?v ''state'' = d" "add_values ?v = opt"
    using splitList_Join [OF assms] by (simp_all add: add_args_def add_values_def flag_value_def)
  ultimately show ?thesis unfolding addClient_def by simp
qed

lemma enroll_args_routed:
  assumes "\<forall>x \<in> set (a_Routes (en_Add opt)). list_item x"
  shows "enroll I (flag_args (enroll_args d opt)) w = finish (Enroll (in_platform I) d opt (in_key I) (in_random I)) enroll_text w"
proof -
  let ?v = "flag_value (foldl (\<lambda>f (name, v). f(name \<mapsto> v)) (map_of enroll_flags) (enroll_args d opt))"
  have "with_flags enroll_flags (flag_args (enroll_args d opt)) body w = body ?v w" for body
    by (rule with_flags_args) (simp add: enroll_args_def add_args_def enroll_flags_def add_flags_def flag_name_def)
  moreover have "?v ''state'' = d" "enroll_values ?v = opt"
    using splitList_Join [OF assms] by (simp_all add: enroll_args_def add_args_def add_values_def enroll_values_def flag_value_def)
  ultimately show ?thesis unfolding enroll_def by simp
qed

lemma wsnctl_routes:
  "wsnctl I (''init'' # args) w = initDeployment I args w"
  "wsnctl I (''add-client'' # args) w = addClient I args w"
  "wsnctl I (''enroll'' # args) w = enroll I args w"
  "wsnctl I (''revoke-client'' # args) w = revokeClient args w"
  "wsnctl I (''list-clients'' # args) w = listClients args w"
  "wsnctl I (''bundle'' # args) w = bundle_command I args w"
  "wsnctl I (''server-bundle'' # args) w = serverBundle I args w"
  "wsnctl I (''rotate-certificate'' # args) w = rotateCertificate I args w"
  by (simp_all add: wsnctl_def)

lemma init_args_routed:
  assumes "\<forall>x \<in> set (i_Search opt). list_item x"
  shows "initDeployment I (flag_args (init_args d opt)) w =
    finish (io_bind (Init (certs (in_platform I)) (in_ca I) (in_leaf I) d opt) (\<lambda>_. Fingerprint (in_platform I) (d @ ''/relay-ca.crt'')))
      (init_text d) w"
proof -
  let ?v = "flag_value (foldl (\<lambda>f (name, v). f(name \<mapsto> v)) (map_of init_flags) (init_args d opt))"
  have "with_flags init_flags (flag_args (init_args d opt)) body w = body ?v w" for body
    by (rule with_flags_args) (simp add: init_args_def init_flags_def flag_name_def)
  moreover have "?v ''state'' = d" "init_values ?v = opt"
    using splitList_Join [OF assms] by (simp_all add: init_args_def init_values_def flag_value_def)
  ultimately show ?thesis unfolding initDeployment_def by simp
qed

lemma bundle_args_routed:
  "bundle_command I (flag_args [(''state'', d), (''id'', b_ID opt), (''client-binary'', b_ClientBinary opt), (''tap-installer'', b_TapInstaller opt),
      (''tapctl'', b_Tapctl opt), (''output'', b_Output opt)]) w =
    finish (provision_Bundle (in_platform I) d opt) (\<lambda>path. line (''created private bundle '' @ path)) w"
proof -
  let ?o = "[(''state'', d), (''id'', b_ID opt), (''client-binary'', b_ClientBinary opt), (''tap-installer'', b_TapInstaller opt),
      (''tapctl'', b_Tapctl opt), (''output'', b_Output opt)]"
  have "with_flags bundle_flags (flag_args ?o) body w = body (flag_value (foldl (\<lambda>f (name, v). f(name \<mapsto> v)) (map_of bundle_flags) ?o)) w" for body
    by (rule with_flags_args) (simp add: bundle_flags_def flag_name_def)
  moreover have "flag_value (foldl (\<lambda>f (name, v). f(name \<mapsto> v)) (map_of bundle_flags) ?o) = flag_value (map_of bundle_flags ++ map_of (rev ?o))"
    by (simp only: foldl_options)
  ultimately show ?thesis unfolding bundle_command_def by (cases opt) (simp add: flag_value_def)
qed

lemma state_args_routed:
  "serverBundle I (flag_args [(''state'', d), (''output'', out)]) w =
    finish (ServerBundle (in_platform I) d out) (\<lambda>path. line (''created private server bundle '' @ path)) w"
  "revokeClient (flag_args [(''state'', d), (''id'', cid)]) w = finish (RevokeClient d cid) (\<lambda>_. line (''revoked '' @ cid)) w"
  "listClients (flag_args [(''state'', d)]) w = finish (List d) list_text w"
  "rotateCertificate I (flag_args [(''state'', d)]) w =
    finish (RotateCertificate (certs (in_platform I)) (in_leaf I) d) (\<lambda>_. line ''rotated relay certificate; regenerate and deploy the server bundle'') w"
  unfolding serverBundle_def revokeClient_def listClients_def rotateCertificate_def
  by (subst with_flags_args; simp add: flag_name_def revoke_flags_def state_flags_def flag_value_def)+

text \<open>A flag that is not defined, and one without a value.\<close>

lemma flag_Parse_unknown:
  assumes "flag_name name" and "flags name = None" and "name \<notin> {''help'', ''h''}"
  shows "flag_Parse flags ((CHR ''-'' # name) # rest) = BadFlags"
  using assms split_flag_plain [of name] by (cases name) (auto simp: flag_name_def)

lemma flag_Parse_no_value:
  assumes "flag_name name" and "flags name \<noteq> None"
  shows "flag_Parse flags [CHR ''-'' # name] = BadFlags"
  using assms split_flag_plain [of name] by (cases name) (auto simp: flag_name_def)

definition command_flags :: "(string \<times> (string \<times> string) list) list" where
  "command_flags = [(''init'', init_flags), (''add-client'', add_flags), (''enroll'', enroll_flags), (''revoke-client'', revoke_flags),
     (''list-clients'', state_flags), (''bundle'', bundle_flags), (''server-bundle'', [(''state'', ''./wsn-state''), (''output'', '''')]),
     (''rotate-certificate'', state_flags)]"

lemma with_flags_bad: "flag_Parse (map_of flags) args = BadFlags \<Longrightarrow> with_flags flags args body w = ((2, '''', None), w)"
  by (simp add: with_flags_def)

lemma bad_flags:
  assumes "(cmd, flags) \<in> set command_flags" and "flag_Parse (map_of flags) args = BadFlags"
  shows "wsnctl I (cmd # args) w = ((2, '''', None), w)"
proof -
  have "cmd = ''init'' \<and> flags = init_flags \<or> cmd = ''add-client'' \<and> flags = add_flags \<or> cmd = ''enroll'' \<and> flags = enroll_flags
      \<or> cmd = ''revoke-client'' \<and> flags = revoke_flags \<or> cmd = ''list-clients'' \<and> flags = state_flags \<or> cmd = ''bundle'' \<and> flags = bundle_flags
      \<or> cmd = ''server-bundle'' \<and> flags = [(''state'', ''./wsn-state''), (''output'', '''')] \<or> cmd = ''rotate-certificate'' \<and> flags = state_flags"
    using assms(1) unfolding command_flags_def list.set insert_iff empty_iff prod.inject by (simp only: simp_thms)
  then show ?thesis
    using assms(2)
    by (elim disjE conjE) (simp_all only: wsnctl_routes with_flags_bad initDeployment_def addClient_def enroll_def revokeClient_def listClients_def
        bundle_command_def serverBundle_def rotateCertificate_def)
qed

section \<open>Properties\<close>

text \<open>
  C33. The command line reaches the operations.  For every set of options whose lists have plain items, the command line that
  writes each of them out makes \<^verbatim>\<open>wsnctl\<close> run the operation of its subcommand, each of the eight, with exactly these options, and report
  what it returns.  For each of them, a flag that it does not define, in the first place, or a lone flag without a value changes nothing and ends
  with status 2, and so does any other subcommand.
\<close>

theorem command_line_roundtrip:
  assumes "\<forall>x \<in> set (a_Routes (en_Add opt)). list_item x" and "\<forall>x \<in> set (i_Search iopt). list_item x"
  shows "wsnctl I (''enroll'' # flag_args (enroll_args d opt)) w = finish (Enroll (in_platform I) d opt (in_key I) (in_random I)) enroll_text w
    \<and> wsnctl I (''add-client'' # flag_args (add_args d (en_Add opt))) w = finish (AddClient d (en_Add opt) (in_key I) (in_random I)) client_text w
    \<and> wsnctl I (''init'' # flag_args (init_args d iopt)) w =
        finish (io_bind (Init (certs (in_platform I)) (in_ca I) (in_leaf I) d iopt) (\<lambda>_. Fingerprint (in_platform I) (d @ ''/relay-ca.crt'')))
          (init_text d) w
    \<and> wsnctl I (''bundle'' # flag_args [(''state'', d), (''id'', b_ID bopt), (''client-binary'', b_ClientBinary bopt), (''tap-installer'', b_TapInstaller bopt),
          (''tapctl'', b_Tapctl bopt), (''output'', b_Output bopt)]) w =
        finish (provision_Bundle (in_platform I) d bopt) (\<lambda>path. line (''created private bundle '' @ path)) w
    \<and> wsnctl I (''server-bundle'' # flag_args [(''state'', d), (''output'', out)]) w =
        finish (ServerBundle (in_platform I) d out) (\<lambda>path. line (''created private server bundle '' @ path)) w
    \<and> wsnctl I (''revoke-client'' # flag_args [(''state'', d), (''id'', cid)]) w = finish (RevokeClient d cid) (\<lambda>_. line (''revoked '' @ cid)) w
    \<and> wsnctl I (''list-clients'' # flag_args [(''state'', d)]) w = finish (List d) list_text w
    \<and> wsnctl I (''rotate-certificate'' # flag_args [(''state'', d)]) w = finish (RotateCertificate (certs (in_platform I)) (in_leaf I) d)
        (\<lambda>_. line ''rotated relay certificate; regenerate and deploy the server bundle'') w
    \<and> (\<forall>(cmd, flags) \<in> set command_flags. \<forall>name rest. flag_name name \<longrightarrow>
        (map_of flags name = None \<longrightarrow> name \<notin> {''help'', ''h''} \<longrightarrow> wsnctl I (cmd # (CHR ''-'' # name) # rest) w = ((2, '''', None), w))
        \<and> (map_of flags name \<noteq> None \<longrightarrow> wsnctl I [cmd, CHR ''-'' # name] w = ((2, '''', None), w)))
    \<and> (\<forall>cmd args. cmd \<notin> fst ` set command_flags \<longrightarrow> wsnctl I (cmd # args) w = ((2, '''', None), w))"
proof -
  have bad: "\<forall>(cmd, flags) \<in> set command_flags. \<forall>name rest. flag_name name \<longrightarrow>
        (map_of flags name = None \<longrightarrow> name \<notin> {''help'', ''h''} \<longrightarrow> wsnctl I (cmd # (CHR ''-'' # name) # rest) w = ((2, '''', None), w))
        \<and> (map_of flags name \<noteq> None \<longrightarrow> wsnctl I [cmd, CHR ''-'' # name] w = ((2, '''', None), w))"
  proof (clarify, intro conjI impI)
    fix cmd flags name rest assume c: "(cmd, flags) \<in> set command_flags" and n: "flag_name name"
    show "wsnctl I (cmd # (CHR ''-'' # name) # rest) w = ((2, '''', None), w)" if "map_of flags name = None" "name \<notin> {''help'', ''h''}"
      by (rule bad_flags [OF c], rule flag_Parse_unknown) (use n that in simp_all)
    show "wsnctl I [cmd, CHR ''-'' # name] w = ((2, '''', None), w)" if "map_of flags name \<noteq> None"
      by (rule bad_flags [OF c], rule flag_Parse_no_value) (use n that in simp_all)
  qed
  have other: "\<forall>cmd args. cmd \<notin> fst ` set command_flags \<longrightarrow> wsnctl I (cmd # args) w = ((2, '''', None), w)"
    by (simp add: command_flags_def wsnctl_def)
  show ?thesis
    unfolding wsnctl_routes
    by (intro conjI enroll_args_routed [OF assms(1)] addClient_args [OF assms(1)] init_args_routed [OF assms(2)]
        bundle_args_routed state_args_routed bad other)
qed

theorem command_line_roundtrip_witness:
  "\<exists>I w'. wsnctl I (''enroll'' # flag_args (enroll_args ''/d'' (ex_enroll ''wsn-client''))) ex_site = w' \<and> fst (fst w') = 0
     \<and> wsnctl I [''bundle'', ''-ID'', ''a''] ex_site = ((2, '''', None), ex_site)"
proof -
  let ?I = "\<lparr>in_platform = ex_platform, in_ca = ex_entropy, in_leaf = ex_entropy, in_key = Inr ex_key, in_random = Inr ex_rnd\<rparr>"
  have r: "\<forall>x \<in> set (a_Routes (en_Add (ex_enroll ''wsn-client''))). list_item x" by (simp add: ex_enroll_def ex_add_def)
  have s: "\<forall>x \<in> set (i_Search ex_init). list_item x" by (simp add: ex_init_def)
  obtain res w' where run: "Enroll ex_platform ''/d'' (ex_enroll ''wsn-client'') (Inr ex_key) (Inr ex_rnd) ex_site = (Inr res, w')"
    using ex_run by blast
  note t = command_line_roundtrip [OF r s, of ?I "''/d''" ex_site "enroll_bundle (ex_enroll ''wsn-client'') ex_pc" "''''" "''a''"]
  have "wsnctl ?I (''enroll'' # flag_args (enroll_args ''/d'' (ex_enroll ''wsn-client''))) ex_site = ((0, enroll_text res, None), w')"
    using t [THEN conjunct1] run by (simp add: finish_def)
  moreover have "wsnctl ?I (''bundle'' # (CHR ''-'' # ''ID'') # [''a'']) ex_site = ((2, '''', None), ex_site)"
  proof -
    have b: "(''bundle'', bundle_flags) \<in> set command_flags" by (simp add: command_flags_def)
    have "flag_name ''ID''" "map_of bundle_flags ''ID'' = None" "''ID'' \<notin> {''help'', ''h''}" by (simp_all add: flag_name_def bundle_flags_def)
    then show ?thesis using t b by blast
  qed
  ultimately show ?thesis by (intro exI [of _ ?I]) simp
qed

end
