(* ===== verification/Daemon.thy ===== *)
theory Daemon
  imports Prelude
begin

text \<open>
  \<^verbatim>\<open>internal/daemon/daemon_windows.go\<close>: the log file with one previous generation, the choice of the log output,
  and the handler of the Windows service manager.  \<^verbatim>\<open>internal/daemon/daemon_unix.go\<close> only passes the
  context on.

  The disk has two files, the active log and the previous generation \<^verbatim>\<open>.1\<close>.  Every call to
  the system consumes one element of \<open>calls\<close>: \<open>Fine\<close>, or \<open>Fails k\<close>, where a failing write has
  written \<open>k\<close> bytes.  An exhausted list stands for calls that do not fail.
\<close>

section \<open>Disk\<close>

datatype call = Fine | Fails nat

record disk =
  active :: "bytes option"
  previous :: "bytes option"
  calls :: "call list"

definition attempt :: "disk \<Rightarrow> call \<times> disk" where
  "attempt w = (case calls w of [] \<Rightarrow> (Fine, w) | c # cs \<Rightarrow> (c, w\<lparr>calls := cs\<rparr>))"

text \<open>\<^verbatim>\<open>os.OpenFile\<close> with \<^verbatim>\<open>O_CREATE|O_WRONLY|O_APPEND\<close>.\<close>

definition open_append :: "disk \<Rightarrow> bool \<times> disk" where
  "open_append w =
     (case attempt w of
        (Fails _, w') \<Rightarrow> (False, w')
      | (Fine, w') \<Rightarrow> (True, w'\<lparr>active := Some (case active w' of None \<Rightarrow> [] | Some b \<Rightarrow> b)\<rparr>))"

definition file_size :: "disk \<Rightarrow> int" where
  "file_size w = (case active w of None \<Rightarrow> 0 | Some b \<Rightarrow> int (length b))"

section \<open>The rotating file\<close>

record rotatingFile =
  rf_limit :: int
  rf_open :: bool
  rf_size :: int

definition maxLogBytes :: int where "maxLogBytes = 4 * 2 ^ 20"

definition openRotatingFile :: "int \<Rightarrow> disk \<Rightarrow> rotatingFile res \<times> disk" where
  "openRotatingFile limit w =
     (case open_append w of
        (False, w) \<Rightarrow> (Inl (Err ''open''), w)
      | (True, w) \<Rightarrow>
          (case attempt w of
             (Fails _, w) \<Rightarrow> (Inl (Err ''stat''), snd (attempt w))
           | (Fine, w) \<Rightarrow> (Inr \<lparr>rf_limit = limit, rf_open = True, rf_size = file_size w\<rparr>, w)))"

text \<open>The deferred part of \<^verbatim>\<open>rotate\<close>: whatever failed, restore a writable active generation.\<close>

definition reopen :: "rotatingFile \<Rightarrow> error option \<Rightarrow> disk \<Rightarrow> error option \<times> rotatingFile \<times> disk" where
  "reopen f err w =
     (case open_append w of
        (False, w) \<Rightarrow> (case err of None \<Rightarrow> Some (Err ''open'') | Some e \<Rightarrow> Some e, f\<lparr>rf_open := False\<rparr>, w)
      | (True, w) \<Rightarrow>
          (case attempt w of
             (Fine, w) \<Rightarrow> (err, f\<lparr>rf_open := True, rf_size := file_size w\<rparr>, w)
           | (Fails _, w) \<Rightarrow> (case err of None \<Rightarrow> Some (Err ''stat'') | Some e \<Rightarrow> Some e, f\<lparr>rf_open := True\<rparr>, w)))"

text \<open>Removing the previous generation, whose error is dropped, and renaming the active one.\<close>

definition shift_files :: "disk \<Rightarrow> error option \<times> disk" where
  "shift_files w =
     (let w = (case attempt w of (Fine, w) \<Rightarrow> w\<lparr>previous := None\<rparr> | (Fails _, w) \<Rightarrow> w) in
      case attempt w of
        (Fine, w) \<Rightarrow> (None, w\<lparr>previous := active w, active := None\<rparr>)
      | (Fails _, w) \<Rightarrow> (Some (Err ''rename''), w))"

definition rotate :: "rotatingFile \<Rightarrow> disk \<Rightarrow> error option \<times> rotatingFile \<times> disk" where
  "rotate f w =
     (case attempt w of
        (Fails _, w) \<Rightarrow> reopen f (Some (Err ''close'')) w
      | (Fine, w) \<Rightarrow> (case shift_files w of (err, w) \<Rightarrow> reopen f err w))"

definition append_file :: "rotatingFile \<Rightarrow> bytes \<Rightarrow> disk \<Rightarrow> (nat \<times> error option) \<times> rotatingFile \<times> disk" where
  "append_file f p w =
     (case attempt w of
        (c, w) \<Rightarrow>
          (let n = (case c of Fine \<Rightarrow> length p | Fails k \<Rightarrow> min k (length p));
               err = (case c of Fine \<Rightarrow> None | Fails _ \<Rightarrow> Some (Err ''write''))
           in ((n, err), f\<lparr>rf_size := rf_size f + int n\<rparr>, w\<lparr>active := map_option (\<lambda>b. b @ take n p) (active w)\<rparr>)))"

definition log_Write :: "rotatingFile \<Rightarrow> bytes \<Rightarrow> disk \<Rightarrow> (nat \<times> error option) \<times> rotatingFile \<times> disk" where
  "log_Write f p w =
     (if \<not> rf_open f then ((0, Some (Err ''file already closed'')), f, w)
      else if rf_size f > 0 \<and> rf_size f + int (length p) > rf_limit f then
        (case rotate f w of
           (rotateErr, f, w) \<Rightarrow> if \<not> rf_open f then ((0, rotateErr), f, w) else append_file f p w)
      else append_file f p w)"

definition log_Close :: "rotatingFile \<Rightarrow> disk \<Rightarrow> error option \<times> rotatingFile \<times> disk" where
  "log_Close f w =
     (if \<not> rf_open f then (None, f, w)
      else (case attempt w of
          (Fine, w) \<Rightarrow> (None, f\<lparr>rf_open := False\<rparr>, w)
        | (Fails _, w) \<Rightarrow> (Some (Err ''close''), f\<lparr>rf_open := False\<rparr>, w)))"

text \<open>Where the log goes: \<open>Inr None\<close> is standard output, with the flag that marks a service log.\<close>

definition LogOutput :: "bool res \<Rightarrow> disk \<Rightarrow> (rotatingFile option \<times> bool) res \<times> disk" where
  "LogOutput isService w =
     (case isService of
        Inl e \<Rightarrow> (Inl (Errw ''detect Windows service for logging: %w'' [] e), w)
      | Inr False \<Rightarrow> (Inr (None, False), w)
      | Inr True \<Rightarrow>
          (case openRotatingFile maxLogBytes w of
             (Inl _, w) \<Rightarrow> (Inr (None, False), w)
           | (Inr f, w) \<Rightarrow> (Inr (Some f, True), w)))"

section \<open>The service handler\<close>

datatype svc_status = StartPending | Running | StopPending | Current nat

datatype svc_cmd = Interrogate nat | Stop | Shutdown | OtherCmd

datatype svc_event = Done "error option" | Request svc_cmd

text \<open>
  The loop of \<^verbatim>\<open>Execute\<close> over the events in the order the select takes them: the statuses sent,
  whether the context was cancelled by a request, and the result once the program has returned.
\<close>

fun wait_done :: "svc_event list \<Rightarrow> error option option" where
  "wait_done [] = None"
| "wait_done (Done e # _) = Some e"
| "wait_done (Request _ # es) = wait_done es"

fun execute_loop :: "svc_event list \<Rightarrow> svc_status list \<times> bool \<times> error option option" where
  "execute_loop [] = ([], False, None)"
| "execute_loop (Done e # _) = ([StopPending], False, Some e)"
| "execute_loop (Request (Interrogate n) # es) =
     (case execute_loop es of (ss, cancelled, r) \<Rightarrow> (Current n # ss, cancelled, r))"
| "execute_loop (Request OtherCmd # es) = execute_loop es"
| "execute_loop (Request Stop # es) = ([StopPending], True, wait_done es)"
| "execute_loop (Request Shutdown # es) = ([StopPending], True, wait_done es)"

definition Execute :: "svc_event list \<Rightarrow> svc_status list \<times> bool \<times> error option option" where
  "Execute es = (case execute_loop es of (ss, cancelled, r) \<Rightarrow> (StartPending # Running # ss, cancelled, r))"

text \<open>
  \<^verbatim>\<open>Run\<close>: \<open>foreground\<close> is the result of the program outside the service manager, \<open>controlled\<close> that of \<^verbatim>\<open>svc.Run\<close>, which
  returns after the handler.
\<close>

definition daemon_Run :: "bool res \<Rightarrow> error option \<Rightarrow> error option \<Rightarrow> svc_event list \<Rightarrow> error option" where
  "daemon_Run isService foreground controlled es =
     (case isService of
        Inl err \<Rightarrow> Some err
      | Inr False \<Rightarrow> foreground
      | Inr True \<Rightarrow>
          (case controlled of
             Some err \<Rightarrow> Some (Errw ''run Windows service: %w'' [] err)
           | None \<Rightarrow> (case Execute es of (_, _, Some err) \<Rightarrow> err | (_, _, None) \<Rightarrow> None)))"

section \<open>What a write does\<close>

text \<open>The accounting never underestimates: the counter is at least the length of the active generation.\<close>

definition log_ok :: "rotatingFile \<Rightarrow> disk \<Rightarrow> bool" where
  "log_ok f w \<longleftrightarrow> (rf_open f \<longrightarrow> active w \<noteq> None) \<and> file_size w \<le> rf_size f \<and> 0 \<le> rf_size f"

lemma attempt_sel:
  "attempt w = (c, w') \<Longrightarrow> active w' = active w \<and> previous w' = previous w"
  by (auto simp: attempt_def split: list.splits)

text \<open>What rotation can leave: everything as it was, the old generation gone, or both shifted.\<close>

definition shifted :: "disk \<Rightarrow> disk \<Rightarrow> bool" where
  "shifted w w' \<longleftrightarrow>
     (active w' = active w \<and> (previous w' = previous w \<or> previous w' = None))
     \<or> (previous w' = active w \<and> active w' \<in> {None, Some []})"

lemma shift_files_shifted: "shift_files w = (err, w') \<Longrightarrow> shifted w w'"
proof -
  obtain c1 w1 where 1: "attempt w = (c1, w1)" by (cases "attempt w")
  let ?w2 = "case c1 of Fine \<Rightarrow> w1\<lparr>previous := None\<rparr> | Fails _ \<Rightarrow> w1"
  obtain c2 w3 where 2: "attempt ?w2 = (c2, w3)" by (cases "attempt ?w2")
  assume "shift_files w = (err, w')"
  then have "w' = (case c2 of Fine \<Rightarrow> w3\<lparr>previous := active w3, active := None\<rparr> | Fails _ \<Rightarrow> w3)"
    using 1 2 by (auto simp: shift_files_def Let_def split: call.splits)
  then show ?thesis using attempt_sel [OF 1] attempt_sel [OF 2] by (auto simp: shifted_def split: call.splits)
qed

lemma reopen_shifted:
  assumes "reopen f err w1 = (e, f', w')" and "shifted w w1" and "active w \<noteq> None"
  shows "shifted w w'" and "rf_open f' \<longrightarrow> active w' \<noteq> None" and "\<not> rf_open f' \<longrightarrow> e \<noteq> None" and "rf_limit f' = rf_limit f"
    and "file_size w \<le> rf_size f \<Longrightarrow> 0 \<le> rf_size f \<Longrightarrow> file_size w' \<le> rf_size f' \<and> 0 \<le> rf_size f'"
proof -
  obtain ok w2 where o: "open_append w1 = (ok, w2)" by (cases "open_append w1")
  have w2: "previous w2 = previous w1" "ok \<Longrightarrow> active w2 = Some (case active w1 of None \<Rightarrow> [] | Some b \<Rightarrow> b)" "\<not> ok \<Longrightarrow> active w2 = active w1"
    using o attempt_sel unfolding open_append_def by (auto split: prod.splits call.splits)
  obtain c w3 where c: "attempt w2 = (c, w3)" by (cases "attempt w2")
  note w3 = attempt_sel [OF c]
  have r: "rf_open f' = ok" "rf_limit f' = rf_limit f" "active w' = active w2" "previous w' = previous w2" "\<not> ok \<Longrightarrow> e \<noteq> None"
    "rf_size f' = rf_size f \<or> rf_size f' = file_size w'"
    using assms(1) o c w3 unfolding reopen_def by (auto split: bool.splits call.splits option.splits)
  show "rf_open f' \<longrightarrow> active w' \<noteq> None" "\<not> rf_open f' \<longrightarrow> e \<noteq> None" "rf_limit f' = rf_limit f" using r w2 by auto
  have "active w' = active w1 \<or> (active w1 = None \<and> active w' = Some [])" using r w2 by (cases ok) (auto split: option.splits)
  then show sh: "shifted w w'" using assms(2,3) r(4) w2(1) unfolding shifted_def by auto
  have "file_size w' \<le> file_size w" using sh unfolding shifted_def file_size_def by (auto split: option.splits)
  then show "file_size w' \<le> rf_size f' \<and> 0 \<le> rf_size f'" if "file_size w \<le> rf_size f" "0 \<le> rf_size f"
    using r(6) that by (auto simp: file_size_def split: option.splits)
qed

lemma rotate_shifted:
  assumes "rotate f w = (e, f', w')" and "active w \<noteq> None"
  shows "shifted w w'" and "rf_open f' \<longrightarrow> active w' \<noteq> None" and "\<not> rf_open f' \<longrightarrow> e \<noteq> None" and "rf_limit f' = rf_limit f"
    and "file_size w \<le> rf_size f \<Longrightarrow> 0 \<le> rf_size f \<Longrightarrow> file_size w' \<le> rf_size f' \<and> 0 \<le> rf_size f'"
proof -
  obtain err w1 where r: "reopen f err w1 = (e, f', w')" "shifted w w1"
  proof -
    obtain c w0 where c: "attempt w = (c, w0)" by (cases "attempt w")
    have "shifted w w0" using attempt_sel [OF c] by (simp add: shifted_def)
    moreover have "shifted w w1" if "shift_files w0 = (err, w1)" for err w1
      using shift_files_shifted [OF that] attempt_sel [OF c] by (simp add: shifted_def)
    ultimately show thesis
      using assms(1) c that unfolding rotate_def by (auto split: call.splits prod.splits)
  qed
  note x = reopen_shifted [OF r assms(2)]
  show "shifted w w'" "rf_open f' \<longrightarrow> active w' \<noteq> None" "\<not> rf_open f' \<longrightarrow> e \<noteq> None" "rf_limit f' = rf_limit f"
    "file_size w \<le> rf_size f \<Longrightarrow> 0 \<le> rf_size f \<Longrightarrow> file_size w' \<le> rf_size f' \<and> 0 \<le> rf_size f'"
    by (fact x(1), fact x(2), fact x(3), fact x(4), rule x(5))
qed

lemma append_file_exact:
  assumes "append_file f p w = ((n, err), f', w')" and "active w = Some b"
  shows "n \<le> length p" and "err = None \<longrightarrow> n = length p" and "active w' = Some (b @ take n p)" and "previous w' = previous w"
    and "rf_size f' = rf_size f + int n" and "rf_open f' = rf_open f" and "rf_limit f' = rf_limit f"
  using assms attempt_sel unfolding append_file_def Let_def
  by (auto split: prod.splits call.splits)

text \<open>
  A write to the log.  Whatever fails, the result tells exactly how many bytes of the record were appended to
  the active generation, an incomplete write is always reported, and nothing else of the log is lost but the
  previous generation when a rotation replaces it; the size counter never underestimates the file.
\<close>

lemma log_Write_exact:
  assumes "log_ok f w" and "log_Write f p w = ((n, err), f', w')"
  shows "log_ok f' w' \<and> n \<le> length p \<and> (err = None \<longrightarrow> n = length p)
    \<and> (active w' = None \<longrightarrow> n = 0)
    \<and> (\<exists>w1. (w1 = w \<or> shifted w w1) \<and> previous w' = previous w1 \<and> active w' = map_option (\<lambda>b. b @ take n p) (active w1))"
proof (cases "rf_open f")
  case False
  then have "n = 0" "err \<noteq> None" "f' = f" "w' = w" using assms(2) by (auto simp: log_Write_def)
  then show ?thesis using assms(1) by (auto intro!: exI [of _ w] simp: option.map_ident)
next
  case True
  then obtain b where b: "active w = Some b" using assms(1) by (auto simp: log_ok_def)
  have plain: ?thesis if a: "append_file f1 p w1 = ((n, err), f', w')" and ok: "log_ok f1 w1" "active w1 = Some c" "w1 = w \<or> shifted w w1" for f1 w1 c
    using append_file_exact [OF a ok(2)] ok by (auto simp: log_ok_def file_size_def intro!: exI [of _ w1])
  show ?thesis
  proof (cases "rf_size f > 0 \<and> rf_size f + int (length p) > rf_limit f")
    case False
    then have "log_Write f p w = append_file f p w" using True by (auto simp: log_Write_def)
    then show ?thesis using plain [OF _ assms(1) b] assms(2) by simp
  next
    case rot: True
    obtain e f1 w1 where r: "rotate f w = (e, f1, w1)" by (cases "rotate f w")
    have sh: "shifted w w1" "rf_open f1 \<longrightarrow> active w1 \<noteq> None" "\<not> rf_open f1 \<longrightarrow> e \<noteq> None" "log_ok f1 w1"
      using rotate_shifted [OF r] b assms(1) by (auto simp: log_ok_def)
    show ?thesis
    proof (cases "rf_open f1")
      case True
      then obtain c where "active w1 = Some c" using sh(2) by blast
      moreover have "log_Write f p w = append_file f1 p w1" using \<open>rf_open f\<close> rot r True by (simp add: log_Write_def)
      ultimately show ?thesis using plain [OF _ sh(4)] sh(1) assms(2) by simp
    next
      case False
      then have "n = 0" "err = e" "f' = f1" "w' = w1" using assms(2) \<open>rf_open f\<close> rot r by (auto simp: log_Write_def)
      then show ?thesis using sh False by (auto intro!: exI [of _ w1] simp: option.map_ident)
    qed
  qed
qed


section \<open>The log is bounded\<close>

abbreviation contents_of :: "bytes option \<Rightarrow> bytes" where
  "contents_of g \<equiv> (case g of None \<Rightarrow> [] | Some b \<Rightarrow> b)"

definition log_contents :: "disk \<Rightarrow> bytes" where
  "log_contents w = contents_of (previous w) @ contents_of (active w)"

definition previous_size :: "disk \<Rightarrow> int" where
  "previous_size w = (case previous w of None \<Rightarrow> 0 | Some b \<Rightarrow> int (length b))"

text \<open>Writing records one after the other; the first component is what the calls report as written of each.\<close>

fun log_all :: "rotatingFile \<Rightarrow> bytes list \<Rightarrow> disk \<Rightarrow> bytes list \<times> rotatingFile \<times> disk" where
  "log_all f [] w = ([], f, w)"
| "log_all f (p # ps) w =
     (case log_Write f p w of ((n, _), f, w) \<Rightarrow> (case log_all f ps w of (written, f, w) \<Rightarrow> (take n p # written, f, w)))"

text \<open>Whatever fails, what is kept is the end of what was there and what was written.\<close>

lemma shifted_contents: "shifted w w1 \<Longrightarrow> \<exists>dropped. log_contents w = dropped @ log_contents w1"
  unfolding shifted_def log_contents_def by (auto split: option.splits)

lemma log_Write_contents:
  assumes "log_ok f w" and "log_Write f p w = ((n, err), f', w')"
  shows "log_ok f' w' \<and> (\<exists>dropped. log_contents w @ take n p = dropped @ log_contents w')"
proof -
  obtain w1 where w1: "w1 = w \<or> shifted w w1" "previous w' = previous w1" "active w' = map_option (\<lambda>b. b @ take n p) (active w1)"
    and n: "active w' = None \<longrightarrow> n = 0" and ok: "log_ok f' w'" using log_Write_exact [OF assms] by (elim conjE exE) (rule that)
  obtain d where "log_contents w = d @ log_contents w1" using w1(1) shifted_contents by (metis append_Nil)
  moreover have "log_contents w1 @ take n p = log_contents w'"
    using w1(2,3) n by (cases "active w1") (auto simp: log_contents_def)
  ultimately show ?thesis using ok by (metis append.assoc)
qed

lemma log_all_contents:
  "log_ok f w \<Longrightarrow> log_all f ps w = (written, f', w') \<Longrightarrow> \<exists>dropped. log_contents w @ concat written = dropped @ log_contents w'"
proof (induction ps arbitrary: f w written)
  case Nil
  then show ?case by (auto intro: exI [of _ "[]"])
next
  case (Cons p ps)
  obtain n err f1 w1 where wr: "log_Write f p w = ((n, err), f1, w1)" by (cases "log_Write f p w") (auto split: prod.splits)
  obtain ws where ws: "log_all f1 ps w1 = (ws, f', w')" "written = take n p # ws"
    using Cons.prems(2) wr by (auto split: prod.splits)
  obtain d1 where d1: "log_ok f1 w1" "log_contents w @ take n p = d1 @ log_contents w1" using log_Write_contents [OF Cons.prems(1) wr] by blast
  obtain d2 where "log_contents w1 @ concat ws = d2 @ log_contents w'" using Cons.IH [OF d1(1) ws(1)] by blast
  then have "log_contents w @ concat written = (d1 @ d2) @ log_contents w'" using d1(2) ws(2) by (metis append.assoc concat.simps(2))
  then show ?case by blast
qed

text \<open>When no call fails, the counter is the length of the file.\<close>

definition log_running :: "int \<Rightarrow> rotatingFile \<Rightarrow> disk \<Rightarrow> bool" where
  "log_running limit f w \<longleftrightarrow> calls w = [] \<and> rf_open f \<and> rf_limit f = limit \<and> active w \<noteq> None \<and> rf_size f = file_size w"

lemma attempt_fine: "calls w = [] \<Longrightarrow> attempt w = (Fine, w)"
  by (simp add: attempt_def)

lemma append_file_fine:
  "calls w = [] \<Longrightarrow> append_file f p w =
     ((length p, None), f\<lparr>rf_size := rf_size f + int (length p)\<rparr>, w\<lparr>active := map_option (\<lambda>b. b @ p) (active w)\<rparr>)"
  by (simp add: append_file_def attempt_fine Let_def)

lemma rotate_fine:
  "calls w = [] \<Longrightarrow> rotate f w = (None, f\<lparr>rf_open := True, rf_size := 0\<rparr>, w\<lparr>previous := active w, active := Some []\<rparr>)"
  by (simp add: rotate_def shift_files_def reopen_def open_append_def attempt_fine Let_def file_size_def)

text \<open>A rotation drops the previous generation only, and then the two generations hold more than the limit.\<close>

lemma log_Write_running:
  assumes "log_running limit f w" and "log_Write f p w = ((n, err), f', w')"
  shows "log_running limit f' w'" and "n = length p"
    and "(\<exists>dropped. log_contents w @ p = dropped @ log_contents w' \<and> (dropped = [] \<or> limit < int (length (log_contents w'))))"
    and "limit \<le> M \<Longrightarrow> int (length p) \<le> M \<Longrightarrow> file_size w \<le> M \<Longrightarrow> previous_size w \<le> M \<Longrightarrow> file_size w' \<le> M \<and> previous_size w' \<le> M"
proof -
  obtain b where b: "active w = Some b" "calls w = []" "rf_open f" "rf_limit f = limit" "rf_size f = int (length b)"
    using assms(1) by (auto simp: log_running_def file_size_def)
  have "log_running limit f' w' \<and> n = length p
    \<and> (\<exists>dropped. log_contents w @ p = dropped @ log_contents w' \<and> (dropped = [] \<or> limit < int (length (log_contents w'))))
    \<and> (limit \<le> M \<longrightarrow> int (length p) \<le> M \<longrightarrow> file_size w \<le> M \<longrightarrow> previous_size w \<le> M \<longrightarrow> file_size w' \<le> M \<and> previous_size w' \<le> M)"
  proof (cases "rf_size f > 0 \<and> rf_size f + int (length p) > rf_limit f")
    case True
    then have "n = length p" "f' = f\<lparr>rf_open := True, rf_size := int (length p)\<rparr>" "w' = w\<lparr>previous := Some b, active := Some p\<rparr>"
      using assms(2) b by (auto simp: log_Write_def rotate_fine append_file_fine)
    then show ?thesis
      using b True by (auto simp: log_running_def file_size_def previous_size_def log_contents_def)
  next
    case False
    then have e: "n = length p" "f' = f\<lparr>rf_size := rf_size f + int (length p)\<rparr>" "w' = w\<lparr>active := Some (b @ p)\<rparr>"
      using assms(2) b by (auto simp: log_Write_def append_file_fine)
    have "int (length b) + int (length p) \<le> limit \<or> length b = 0" using False b by auto
    with e b show ?thesis by (auto simp: log_running_def file_size_def previous_size_def log_contents_def)
  qed
  then show "log_running limit f' w'" "n = length p"
    "(\<exists>dropped. log_contents w @ p = dropped @ log_contents w' \<and> (dropped = [] \<or> limit < int (length (log_contents w'))))"
    "limit \<le> M \<Longrightarrow> int (length p) \<le> M \<Longrightarrow> file_size w \<le> M \<Longrightarrow> previous_size w \<le> M \<Longrightarrow> file_size w' \<le> M \<and> previous_size w' \<le> M"
    by blast+
qed

lemma log_all_running:
  assumes "log_running limit f w" and "log_all f ps w = (written, f', w')"
  shows "written = ps"
    and "\<exists>dropped. log_contents w @ concat ps = dropped @ log_contents w' \<and> (dropped = [] \<or> limit < int (length (log_contents w')))"
    and "limit \<le> M \<Longrightarrow> file_size w \<le> M \<Longrightarrow> previous_size w \<le> M \<Longrightarrow> \<forall>p \<in> set ps. int (length p) \<le> M \<Longrightarrow>
      file_size w' \<le> M \<and> previous_size w' \<le> M"
  using assms
proof (induction ps arbitrary: f w written)
  case Nil
  { case 1 with Nil show ?case by simp next case 2 with Nil show ?case by auto next case 3 with Nil show ?case by simp }
next
  case (Cons p ps)
  have step: "\<exists>n err f1 w1 ws. log_Write f p w = ((n, err), f1, w1) \<and> log_all f1 ps w1 = (ws, f', w') \<and> written = take n p # ws"
    if "log_all f (p # ps) w = (written, f', w')" for f w written
    using that by (auto split: prod.splits)
  { case 1
    then obtain n err f1 w1 ws where "log_Write f p w = ((n, err), f1, w1)" "log_all f1 ps w1 = (ws, f', w')" "written = take n p # ws"
      using step by blast
    note r = this
    from Cons.IH(1) [OF log_Write_running(1) [OF 1(1) r(1)] r(2)] log_Write_running(2) [OF 1(1) r(1)] r(3) show ?case by simp
  next
    case 2
    then obtain n err f1 w1 ws where r: "log_Write f p w = ((n, err), f1, w1)" "log_all f1 ps w1 = (ws, f', w')" using step by blast
    note l = log_Write_running [OF 2(1) r(1)]
    obtain d1 where d1: "log_contents w @ p = d1 @ log_contents w1" "d1 = [] \<or> limit < int (length (log_contents w1))" using l(3) by blast
    obtain d2 where d2: "log_contents w1 @ concat ps = d2 @ log_contents w'" "d2 = [] \<or> limit < int (length (log_contents w'))"
      using Cons.IH(2) [OF l(1) r(2)] by blast
    have "log_contents w @ concat (p # ps) = (d1 @ d2) @ log_contents w'" using d1(1) d2(1) by (metis append.assoc concat.simps(2))
    moreover have "limit < int (length (log_contents w'))" if "d1 @ d2 \<noteq> []"
    proof (cases "d2 = []")
      case True
      then have "length (log_contents w1) \<le> length (log_contents w')" using arg_cong [OF d2(1), of length] by simp
      then show ?thesis using True that d1(2) by auto
    qed (use d2(2) in blast)
    ultimately show ?case by blast
  next
    case 3
    then obtain n err f1 w1 ws where r: "log_Write f p w = ((n, err), f1, w1)" "log_all f1 ps w1 = (ws, f', w')" using step by blast
    note l = log_Write_running [OF 3(5) r(1)]
    show ?case using l(4) [of M] 3(1-4) Cons.IH(3) [OF _ _ _ _ l(1) r(2)] by auto }
qed

text \<open>
  C34. The log keeps the newest records and is bounded.  Whatever calls fail, the previous and the active generation, one after the
  other, hold the end of all that was there and that the calls reported as written.  When no call fails, every record is written
  whole; something is dropped only when the two generations together still hold more than the limit; and
  neither of them is ever larger than the limit, a file found at the start or a single record, whichever is the
  largest.  A rename that keeps failing, for which the code goes on writing, does let the active generation grow beyond that.
\<close>

theorem log_bounded:
  assumes "openRotatingFile limit w = (Inr f, w0)" and "log_all f ps w0 = (written, f', w')"
  shows "(\<exists>dropped. log_contents w @ concat written = dropped @ log_contents w')
    \<and> (calls w = [] \<longrightarrow> written = ps
       \<and> (\<exists>dropped. log_contents w @ concat ps = dropped @ log_contents w' \<and> (dropped = [] \<or> limit < int (length (log_contents w'))))
       \<and> (\<forall>M. limit \<le> M \<longrightarrow> file_size w \<le> M \<longrightarrow> previous_size w \<le> M \<longrightarrow> (\<forall>p \<in> set ps. int (length p) \<le> M) \<longrightarrow>
            file_size w' \<le> M \<and> previous_size w' \<le> M))"
proof -
  obtain w1 where o: "open_append w = (True, w1)" "attempt w1 = (Fine, w0)" "f = \<lparr>rf_limit = limit, rf_open = True, rf_size = file_size w0\<rparr>"
    using assms(1) by (auto simp: openRotatingFile_def split: prod.splits bool.splits call.splits)
  have w0: "previous w0 = previous w" "active w0 = Some (contents_of (active w))"
    using o(1) attempt_sel [OF o(2)] by (auto simp: open_append_def dest: attempt_sel split: prod.splits call.splits)
  then have eq: "log_contents w0 = log_contents w" "file_size w0 = file_size w" "previous_size w0 = previous_size w"
    by (auto simp: log_contents_def file_size_def previous_size_def split: option.splits)
  have "log_ok f w0" using w0(2) o(3) by (simp add: log_ok_def file_size_def)
  then have kept: "\<exists>dropped. log_contents w @ concat written = dropped @ log_contents w'"
    using log_all_contents [OF _ assms(2)] eq(1) by simp
  have run: "log_running limit f w0" if "calls w = []"
    using that o w0(2) by (auto simp: open_append_def attempt_fine log_running_def)
  show ?thesis
    using kept log_all_running [OF run assms(2)] eq by auto
qed

theorem log_bounded_witness:
  "\<exists>f w0 written f' w'. openRotatingFile 4 \<lparr>active = Some [1, 2], previous = None, calls = []\<rparr> = (Inr f, w0)
     \<and> log_all f [[3], [4, 5], [6, 7, 8]] w0 = (written, f', w') \<and> file_size w' \<le> 4
     \<and> (\<exists>dropped. [1, 2, 3, 4, 5, 6, 7, 8] = dropped @ log_contents w' \<and> 4 < length (log_contents w'))"
proof -
  let ?w = "\<lparr>active = Some [1, 2], previous = None, calls = []\<rparr>"
  obtain f w0 where o: "openRotatingFile 4 ?w = (Inr f, w0)"
    by (simp add: openRotatingFile_def open_append_def attempt_fine)
  obtain written f' w' where l: "log_all f [[3], [4, 5], [6, 7, 8]] w0 = (written, f', w')" by (metis prod_cases3)
  note b = log_bounded [OF o l, THEN conjunct2, THEN mp]
  obtain dropped where d: "[1, 2, 3, 4, 5, 6, 7, 8] = dropped @ log_contents w'" "dropped = [] \<or> 4 < int (length (log_contents w'))"
    using b by (auto simp: log_contents_def)
  have "file_size w' \<le> 4"
    using b by (auto simp: file_size_def [of ?w] previous_size_def [of ?w])
  moreover have "4 < length (log_contents w')"
  proof (cases "dropped = []")
    case True
    then have "length (log_contents w') = 8" using arg_cong [OF d(1), of length] by simp
    then show ?thesis by simp
  qed (use d(2) in simp)
  ultimately show ?thesis using o l d(1) by blast
qed


section \<open>The service protocol\<close>

text \<open>
  The service manager sees start, running, answers to its questions, and stop once and last; stop is reported
  as soon as the program has returned or a stop was requested, and only then is the context cancelled.
\<close>

lemma Execute_protocol:
  assumes "Execute es = (ss, cancelled, r)"
  obtains ns stop where "ss = StartPending # Running # map Current ns @ stop" "stop = [] \<or> stop = [StopPending]"
    "(r \<noteq> None \<or> cancelled) \<longleftrightarrow> stop = [StopPending]"
    "cancelled \<longrightarrow> (\<exists>e \<in> set es. e = Request Stop \<or> e = Request Shutdown)"
proof -
  have "\<exists>ns stop. ss = map Current ns @ stop \<and> (stop = [] \<or> stop = [StopPending]) \<and> ((r \<noteq> None \<or> cancelled) \<longleftrightarrow> stop = [StopPending])
      \<and> (cancelled \<longrightarrow> (\<exists>e \<in> set es. e = Request Stop \<or> e = Request Shutdown))"
    if "execute_loop es = (ss, cancelled, r)" for ss
    using that
  proof (induction es arbitrary: ss rule: execute_loop.induct)
    case (3 n es)
    then obtain ss' where s: "execute_loop es = (ss', cancelled, r)" "ss = Current n # ss'" by (auto split: prod.splits)
    from 3(1) [OF s(1)] obtain ns stop where "ss' = map Current ns @ stop" "stop = [] \<or> stop = [StopPending]"
      "(r \<noteq> None \<or> cancelled) \<longleftrightarrow> stop = [StopPending]" "cancelled \<longrightarrow> (\<exists>e \<in> set es. e = Request Stop \<or> e = Request Shutdown)" by blast
    with s(2) show ?case by (intro exI [of _ "n # ns"] exI [of _ stop]) auto
  qed (auto intro: exI [of _ "[]"] exI [of _ "[StopPending]"])
  moreover obtain ss' where "execute_loop es = (ss', cancelled, r)" "ss = StartPending # Running # ss'"
    using assms by (auto simp: Execute_def split: prod.splits)
  ultimately show thesis using that by blast
qed

end
