(* ===== verification/Tap.thy ===== *)
theory Tap
  imports Go_Strings
begin

text \<open>
  \<^verbatim>\<open>internal/tap\<close>: the request that attaches a Linux device (\<^verbatim>\<open>tap_linux.go\<close>), and on Windows the search for the adapter
  in the registry and the life of the handles of a device (\<^verbatim>\<open>tap_windows.go\<close>).

  The Windows kernel is the set of open handles and a list that tells which of the
  following calls fail; an exhausted list stands for calls that succeed.
\<close>

section \<open>Linux\<close>

definition IFNAMSIZ :: nat where "IFNAMSIZ = 16"

text \<open>\<^verbatim>\<open>IFF_TAP | IFF_NO_PI\<close> is \<^verbatim>\<open>0x1002\<close>, stored in the byte order of the machine, here little-endian.\<close>

definition tap_ifreq :: "string \<Rightarrow> bytes" where
  "tap_ifreq name = take IFNAMSIZ (bytes_of_string name @ replicate IFNAMSIZ 0) @ [0x02, 0x10] @ replicate 62 0"

text \<open>
  \<open>opened\<close> and \<open>ioctl\<close> are the results of the two system calls.  The second component tells whether the
  descriptor is open when the function returns.
\<close>

definition tap_open_linux :: "string \<Rightarrow> unit res \<Rightarrow> (bytes \<Rightarrow> unit res) \<Rightarrow> string res \<times> bool" where
  "tap_open_linux name opened ioctl =
     (if length name = 0 \<or> length name \<ge> IFNAMSIZ then (Inl (Errf ''invalid TAP interface name %q'' [name]), False)
      else (case opened of
          Inl e \<Rightarrow> (Inl (Errw ''open /dev/net/tun: %w'' [] e), False)
        | Inr _ \<Rightarrow>
            (case ioctl (tap_ifreq name) of
               Inl e \<Rightarrow> (Inl (Errw ''attach TAP %s: %w'' [name] e), False)
             | Inr _ \<Rightarrow> (Inr name, True))))"

text \<open>The kernel reads the name up to the first zero byte: it is the name that was asked for.\<close>

lemma tap_ifreq_name:
  assumes "tap_open_linux name opened ioctl = (r, True)" and "CHR 0x00 \<notin> set name"
  shows "length (tap_ifreq name) = 80 \<and> takeWhile (\<lambda>b. b \<noteq> 0) (take 16 (tap_ifreq name)) = bytes_of_string name
    \<and> take 2 (drop 16 (tap_ifreq name)) = [0x02, 0x10] \<and> r = Inr name"
proof -
  have len: "length name < 16" using assms(1) by (auto simp: tap_open_linux_def IFNAMSIZ_def split: if_splits)
  have "r = Inr name" using assms(1) by (auto simp: tap_open_linux_def split: if_splits sum.splits)
  have head: "take IFNAMSIZ (bytes_of_string name @ replicate IFNAMSIZ 0) = bytes_of_string name @ replicate (16 - length name) 0"
    using len by (simp add: IFNAMSIZ_def)
  have nz: "\<forall>b \<in> set (bytes_of_string name). b \<noteq> 0"
  proof
    fix b assume "b \<in> set (bytes_of_string name)"
    then obtain c where c: "c \<in> set name" "b = byte_of_char c" by (auto simp: bytes_of_string_def)
    show "b \<noteq> 0"
    proof
      assume "b = 0"
      then have "c = char_of_byte 0" using c(2) char_of_byte_of_char [of c] by simp
      then have "c = CHR 0x00" by (simp add: char_of_byte_def char_of_def)
      with c(1) assms(2) show False by simp
    qed
  qed
  have "takeWhile (\<lambda>b. b \<noteq> 0) (bytes_of_string name @ replicate (16 - length name) 0) = bytes_of_string name"
    using nz len by (subst takeWhile_append2) auto
  then show ?thesis using len \<open>r = Inr name\<close> unfolding tap_ifreq_def head by simp
qed

section \<open>Windows: finding the adapter\<close>

definition tapComponentID :: string where "tapComponentID = ''tap0901''"

definition isTapComponent :: "string \<Rightarrow> bool" where
  "isTapComponent componentID \<longleftrightarrow> TrimPrefix (ToLower componentID) (''root'' @ [CHR 0x5C]) = tapComponentID"

text \<open>
  What the registry holds for one adapter class entry: the component and the identifier, empty when the value
  is missing, and the name of its connection, if that key can be opened.  \<open>None\<close> is an entry
  that cannot be opened.  \<open>eqf\<close> is \<^verbatim>\<open>strings.EqualFold\<close>.
\<close>

record adapter =
  ad_component :: string
  ad_guid :: string
  ad_connection :: "string option"

fun find_loop :: "(string \<Rightarrow> string \<Rightarrow> bool) \<Rightarrow> string \<Rightarrow> adapter option list \<Rightarrow> string res" where
  "find_loop eqf wanted [] = Inl (Errf ''TAP-Windows adapter %q not found'' [wanted])"
| "find_loop eqf wanted (None # rest) = find_loop eqf wanted rest"
| "find_loop eqf wanted (Some a # rest) =
     (if \<not> isTapComponent (ad_component a) \<or> ad_guid a = '''' then find_loop eqf wanted rest
      else (case ad_connection a of
          None \<Rightarrow> find_loop eqf wanted rest
        | Some friendlyName \<Rightarrow>
            if eqf wanted friendlyName \<or> eqf wanted (ad_guid a) then Inr (ad_guid a)
            else find_loop eqf wanted rest))"

definition findAdapter :: "(string \<Rightarrow> string \<Rightarrow> bool) \<Rightarrow> string \<Rightarrow> adapter option list res res \<Rightarrow> string res" where
  "findAdapter eqf wanted registry =
     (case registry of
        Inl e \<Rightarrow> Inl (Errw ''open network adapter registry: %w'' [] e)
      | Inr subkeys \<Rightarrow> and_then subkeys (find_loop eqf wanted))"

text \<open>The spellings the tests list, and some others.\<close>

lemma isTapComponent_examples:
  "isTapComponent ''tap0901'' \<and> isTapComponent ''TAP0901'' \<and> isTapComponent (''root'' @ [CHR 0x5C] @ ''tap0901'')
   \<and> isTapComponent (''ROOT'' @ [CHR 0x5C] @ ''TAP0901'') \<and> \<not> isTapComponent '''' \<and> \<not> isTapComponent ''ovpn-dco''
   \<and> \<not> isTapComponent ''wintun'' \<and> \<not> isTapComponent ''tap0801'' \<and> \<not> isTapComponent (''root'' @ [CHR 0x5C])"
  by code_simp

text \<open>The search returns the first usable adapter with the wanted name or identifier, and fails when there is none.\<close>

definition adapter_matches :: "(string \<Rightarrow> string \<Rightarrow> bool) \<Rightarrow> string \<Rightarrow> adapter option \<Rightarrow> bool" where
  "adapter_matches eqf wanted a \<longleftrightarrow>
     (case a of None \<Rightarrow> False | Some a \<Rightarrow> isTapComponent (ad_component a) \<and> ad_guid a \<noteq> ''''
        \<and> (case ad_connection a of None \<Rightarrow> False | Some n \<Rightarrow> eqf wanted n \<or> eqf wanted (ad_guid a)))"

lemma find_loop_first:
  "find_loop eqf wanted as =
     (case find (adapter_matches eqf wanted) as of
        Some (Some a) \<Rightarrow> Inr (ad_guid a) | _ \<Rightarrow> Inl (Errf ''TAP-Windows adapter %q not found'' [wanted]))"
  by (induction eqf wanted as rule: find_loop.induct) (auto simp: adapter_matches_def split: option.splits)

section \<open>Windows: handles\<close>

text \<open>
  The outcome of a call is an error, if any, and the number of bytes it reports.  Only an
  overlapped request treats \<^verbatim>\<open>ERROR_IO_PENDING\<close> in a special way; elsewhere it is an error like any other.
\<close>

datatype winerr = ERROR_IO_PENDING | Winerr string

record kernel =
  handles :: "nat set"
  next_handle :: nat
  outcomes :: "(winerr option \<times> nat) list"

definition kernel_ok :: "kernel \<Rightarrow> bool" where
  "kernel_ok k \<longleftrightarrow> (\<forall>h \<in> handles k. h < next_handle k)"

definition kcall :: "kernel \<Rightarrow> (winerr option \<times> nat) \<times> kernel" where
  "kcall k = (case outcomes k of [] \<Rightarrow> ((None, 0), k) | r # rs \<Rightarrow> (r, k\<lparr>outcomes := rs\<rparr>))"

text \<open>A call that creates a handle, and one that closes it whatever it reports.\<close>

definition kcreate :: "kernel \<Rightarrow> (winerr + nat) \<times> kernel" where
  "kcreate k =
     (case kcall k of
        ((Some e, _), k) \<Rightarrow> (Inl e, k)
      | ((None, _), k) \<Rightarrow> (Inr (next_handle k), k\<lparr>handles := insert (next_handle k) (handles k), next_handle := Suc (next_handle k)\<rparr>))"

definition CloseHandle :: "nat \<Rightarrow> kernel \<Rightarrow> winerr option \<times> kernel" where
  "CloseHandle h k = (case kcall k of ((e, _), k) \<Rightarrow> (e, k\<lparr>handles := handles k - {h}\<rparr>))"

definition winerror :: "winerr \<Rightarrow> error" where
  "winerror e = (case e of ERROR_IO_PENDING \<Rightarrow> Err ''Overlapped I/O operation is in progress.'' | Winerr m \<Rightarrow> Err m)"

text \<open>An event of \<open>None\<close> is the zero handle; \<^verbatim>\<open>closeOnce\<close> is the flag.\<close>

record windowsDevice =
  wd_handle :: nat
  wd_name :: string
  wd_read :: "nat option"
  wd_write :: "nat option"
  wd_closed :: bool

definition operation_init :: "kernel \<Rightarrow> nat res \<times> kernel" where
  "operation_init k =
     (case kcreate k of
        (Inl e, k) \<Rightarrow> (Inl (Errw ''create TAP completion event: %w'' [] (winerror e)), k)
      | (Inr event, k) \<Rightarrow> (Inr event, k))"

definition operation_close :: "nat option \<Rightarrow> kernel \<Rightarrow> nat option \<times> kernel" where
  "operation_close ev k = (case ev of None \<Rightarrow> (None, k) | Some h \<Rightarrow> (None, snd (CloseHandle h k)))"

text \<open>
  \<^verbatim>\<open>ResetEvent\<close> of a handle that is not open fails without reaching the device; the start of the request and, if
  it pends, \<^verbatim>\<open>GetOverlappedResult\<close> are calls of the kernel.
\<close>

definition await :: "nat option \<Rightarrow> kernel \<Rightarrow> (nat \<times> error option) \<times> kernel" where
  "await ev k =
     (if (case ev of None \<Rightarrow> True | Some h \<Rightarrow> h \<notin> handles k) then ((0, Some (Err ''The handle is invalid.'')), k)
      else
     (case kcall k of
        ((Some e, _), k) \<Rightarrow> ((0, Some (winerror e)), k)
      | ((None, _), k) \<Rightarrow>
     (case (case kcall k of
              ((Some ERROR_IO_PENDING, _), k) \<Rightarrow> kcall k
            | (r, k) \<Rightarrow> (r, k)) of
        ((Some e, n), k) \<Rightarrow> ((n, Some (winerror e)), k)
      | ((None, n), k) \<Rightarrow> ((n, None), k))))"

definition device_Read :: "windowsDevice \<Rightarrow> kernel \<Rightarrow> (nat \<times> error option) \<times> kernel" where
  "device_Read d k = await (wd_read d) k"

definition device_Write :: "windowsDevice \<Rightarrow> kernel \<Rightarrow> (nat \<times> error option) \<times> kernel" where
  "device_Write d k = await (wd_write d) k"

definition device_Close :: "windowsDevice \<Rightarrow> kernel \<Rightarrow> error option \<times> windowsDevice \<times> kernel" where
  "device_Close d k =
     (if wd_closed d then (None, d, k)
      else
        (case kcall k of (_, k) \<Rightarrow>
        (case CloseHandle (wd_handle d) k of (e, k) \<Rightarrow>
        (case operation_close (wd_read d) k of (rd, k) \<Rightarrow>
        (case operation_close (wd_write d) k of (wr, k) \<Rightarrow>
         (map_option winerror e, d\<lparr>wd_read := rd, wd_write := wr, wd_closed := True\<rparr>, k))))))"

definition tap_open_windows :: "string \<Rightarrow> string res \<Rightarrow> kernel \<Rightarrow> windowsDevice res \<times> kernel" where
  "tap_open_windows name guid k =
     (case guid of
        Inl e \<Rightarrow> (Inl e, k)
      | Inr _ \<Rightarrow>
     (case kcall k of
        ((Some e, _), k) \<Rightarrow> (Inl (winerror e), k)
      | ((None, _), k) \<Rightarrow>
     (case kcreate k of
        (Inl e, k) \<Rightarrow> (Inl (Errw ''open TAP adapter %s: %w'' [name] (winerror e)), k)
      | (Inr handle, k) \<Rightarrow>
     (case operation_init k of
        (Inl e, k) \<Rightarrow> (Inl e, snd (CloseHandle handle k))
      | (Inr rd, k) \<Rightarrow>
     (case operation_init k of
        (Inl e, k) \<Rightarrow> (Inl e, snd (CloseHandle handle (snd (operation_close (Some rd) k))))
      | (Inr wr, k) \<Rightarrow>
          (let device = \<lparr>wd_handle = handle, wd_name = name, wd_read = Some rd, wd_write = Some wr, wd_closed = False\<rparr> in
           case await (wd_write device) k of
             ((_, Some e), k) \<Rightarrow> (Inl (Errw ''enable TAP media: %w'' [] e), snd (snd (device_Close device k)))
           | ((_, None), k) \<Rightarrow> (Inr device, k)))))))"

lemma kcall_keeps:
  assumes "kcall k = (r, k')"
  shows "handles k' = handles k \<and> next_handle k' = next_handle k"
  using assms by (auto simp: kcall_def split: list.splits)

lemma kcall_handles [simp]: "handles (snd (kcall k)) = handles k"
  by (simp add: kcall_def split: list.splits)

lemma kcreate_fresh:
  assumes "kcreate k = (r, k')" and "kernel_ok k"
  shows "kernel_ok k' \<and> (case r of Inl _ \<Rightarrow> handles k' = handles k | Inr h \<Rightarrow> h \<notin> handles k \<and> handles k' = insert h (handles k))"
  using assms by (auto simp: kcreate_def kernel_ok_def less_Suc_eq dest!: kcall_keeps split: prod.splits option.splits)

lemma operation_init_fresh:
  assumes "operation_init k = (r, k')" and "kernel_ok k"
  shows "kernel_ok k' \<and> (case r of Inl _ \<Rightarrow> handles k' = handles k | Inr h \<Rightarrow> h \<notin> handles k \<and> handles k' = insert h (handles k))"
  using assms kcreate_fresh [of k] by (auto simp: operation_init_def split: prod.splits sum.splits)

lemma CloseHandle_closes: "handles (snd (CloseHandle h k)) = handles k - {h}"
  by (auto simp: CloseHandle_def dest: kcall_keeps split: prod.splits)

lemma operation_close_closes:
  "handles (snd (operation_close ev k)) = handles k - set_option ev" "fst (operation_close ev k) = None"
  by (auto simp: operation_close_def CloseHandle_closes split: option.splits)

lemma await_keeps: "handles (snd (await ev k)) = handles k"
  by (auto simp: await_def Let_def dest!: kcall_keeps split: prod.splits option.splits winerr.splits if_splits)

lemma device_Close_closes:
  assumes "device_Close d k = (e, d', k')" and "\<not> wd_closed d"
  shows "handles k' = handles k - {wd_handle d} - set_option (wd_read d) - set_option (wd_write d)"
    and "wd_closed d'" and "wd_read d' = None" and "wd_write d' = None"
  using assms by (auto simp: device_Close_def case_prod_beta operation_close_closes CloseHandle_closes)

lemma closed_device:
  assumes "wd_closed d" and "wd_read d = None" and "wd_write d = None"
  shows "device_Close d k = (None, d, k)" "device_Read d k = ((0, Some (Err ''The handle is invalid.'')), k)"
    "device_Write d k = ((0, Some (Err ''The handle is invalid.'')), k)"
  using assms by (simp_all add: device_Close_def device_Read_def device_Write_def await_def)

text \<open>How an open that reaches the last step ends: three fresh handles, which closing gives back.\<close>

lemma open_last_step:
  assumes fresh: "card {h, rd, wr} = 3" "handles k \<inter> {h, rd, wr} = {}" and k4: "handles k4 = handles k \<union> {h, rd, wr}"
    and d: "d = \<lparr>wd_handle = h, wd_name = name, wd_read = Some rd, wd_write = Some wr, wd_closed = False\<rparr>"
    and await: "await (wd_write d) k4 = ((n, u), k5)"
  shows "card (handles k5 - handles k) = 3" "handles k \<subseteq> handles k5"
    and "device_Close d k5 = (e, d', k'') \<Longrightarrow> handles k'' = handles k \<and> wd_closed d' \<and> wd_read d' = None \<and> wd_write d' = None"
proof -
  have k5: "handles k5 = handles k \<union> {h, rd, wr}" using await_keeps [of "wd_write d" k4] await k4 by simp
  then have "handles k5 - handles k = {h, rd, wr}" using fresh(2) by auto
  then show "card (handles k5 - handles k) = 3" "handles k \<subseteq> handles k5" using fresh(1) k5 by auto
  show "handles k'' = handles k \<and> wd_closed d' \<and> wd_read d' = None \<and> wd_write d' = None" if "device_Close d k5 = (e, d', k'')"
    using device_Close_closes [OF that] k5 fresh(2) by (auto simp: d)
qed

lemma open_last_step_outcome:
  assumes "card {h, rd, wr} = 3" "handles k \<inter> {h, rd, wr} = {}" and "handles k4 = handles k \<union> {h, rd, wr}"
    and d: "d = \<lparr>wd_handle = h, wd_name = name, wd_read = Some rd, wd_write = Some wr, wd_closed = False\<rparr>"
    and r: "(r, k') = (case await (wd_write d) k4 of
        ((_, Some e), k) \<Rightarrow> (Inl (Errw ''enable TAP media: %w'' [] e), snd (snd (device_Close d k)))
      | ((_, None), k) \<Rightarrow> (Inr d, k))"
  shows "case r of
      Inl _ \<Rightarrow> handles k' = handles k
    | Inr d \<Rightarrow> card (handles k' - handles k) = 3 \<and> handles k \<subseteq> handles k'
        \<and> (\<forall>e d' k''. device_Close d k' = (e, d', k'') \<longrightarrow> handles k'' = handles k \<and> device_Close d' k'' = (None, d', k'')
            \<and> device_Read d' k'' = ((0, Some (Err ''The handle is invalid.'')), k'')
            \<and> device_Write d' k'' = ((0, Some (Err ''The handle is invalid.'')), k''))"
proof -
  obtain n u k5 where s5: "await (wd_write d) k4 = ((n, u), k5)" by (metis prod.exhaust)
  note last = open_last_step [OF assms(1-4) s5]
  show ?thesis
  proof (cases u)
    case None
    then have r': "r = Inr d" "k' = k5" using r s5 by simp_all
    have "handles k'' = handles k \<and> device_Close d' k'' = (None, d', k'')
        \<and> device_Read d' k'' = ((0, Some (Err ''The handle is invalid.'')), k'')
        \<and> device_Write d' k'' = ((0, Some (Err ''The handle is invalid.'')), k'')"
      if "device_Close d k' = (e, d', k'')" for e d' k''
      using last(3) [OF that [unfolded r'(2)]] closed_device by metis
    then show ?thesis using last(1,2) unfolding r' sum.case by blast
  next
    case (Some e)
    then have "k' = snd (snd (device_Close d k5))" "\<exists>x. r = Inl x" using r s5 by simp_all
    moreover have "handles (snd (snd (device_Close d k5))) = handles k" using last(3) by (metis prod.collapse)
    ultimately show ?thesis by auto
  qed
qed

text \<open>
  C35. Opening and closing a Windows device balances its handles.  When opening fails, at whatever step, exactly the
  handles that were open before are open; when it succeeds, three new ones are, closing gives exactly
  them back, and after that reads, writes and a second close fail or return without any call on a handle.
\<close>

theorem tap_open_no_leak:
  assumes "kernel_ok k" and "tap_open_windows name guid k = (r, k')"
  shows "case r of
      Inl _ \<Rightarrow> handles k' = handles k
    | Inr d \<Rightarrow> card (handles k' - handles k) = 3 \<and> handles k \<subseteq> handles k'
        \<and> (\<forall>e d' k''. device_Close d k' = (e, d', k'') \<longrightarrow> handles k'' = handles k \<and> device_Close d' k'' = (None, d', k'')
            \<and> device_Read d' k'' = ((0, Some (Err ''The handle is invalid.'')), k'')
            \<and> device_Write d' k'' = ((0, Some (Err ''The handle is invalid.'')), k''))"
proof (cases guid)
  case (Inl e)
  then show ?thesis using assms by (auto simp: tap_open_windows_def)
next
  case (Inr g)
  obtain u1 n1 k1 where s1: "kcall k = ((u1, n1), k1)" by (metis prod.exhaust)
  then have k1: "kernel_ok k1" "handles k1 = handles k" using assms(1) by (auto simp: kernel_ok_def dest!: kcall_keeps)
  obtain r2 k2 where s2: "kcreate k1 = (r2, k2)" by fastforce
  obtain r3 k3 where s3: "operation_init k2 = (r3, k3)" by fastforce
  obtain r4 k4 where s4: "operation_init k3 = (r4, k4)" by fastforce
  note f2 = kcreate_fresh [OF s2 k1(1)]
  then have "kernel_ok k2" by simp
  note f3 = operation_init_fresh [OF s3 this]
  then have "kernel_ok k3" by simp
  note f4 = operation_init_fresh [OF s4 this]
  show ?thesis
  proof (cases "u1 = None \<and> (\<exists>h rd wr. r2 = Inr h \<and> r3 = Inr rd \<and> r4 = Inr wr)")
    case False
    then show ?thesis using assms(2) Inr s1 s2 s3 s4 k1(2) f2 f3 f4
      by (auto simp: tap_open_windows_def CloseHandle_closes operation_close_closes split: option.splits sum.splits)
  next
    case True
    then obtain h rd wr where v: "u1 = None" "r2 = Inr h" "r3 = Inr rd" "r4 = Inr wr" by blast
    have fresh: "card {h, rd, wr} = 3" "handles k \<inter> {h, rd, wr} = {}" "handles k4 = handles k \<union> {h, rd, wr}"
      using f2 f3 f4 v k1(2) by auto
    show ?thesis
      by (rule open_last_step_outcome [OF fresh refl, of r k' name])
        (use assms(2) Inr s1 s2 s3 s4 v in \<open>simp add: tap_open_windows_def Let_def\<close>)
  qed
qed

theorem tap_open_no_leak_witness:
  "handles (snd (tap_open_windows ''WSN-a'' (Inr ''g'') \<lparr>handles = {7}, next_handle = 8,
      outcomes = [(None, 0), (None, 0), (None, 0), (Some (Winerr ''no event''), 0)]\<rparr>)) = {7}"
proof -
  let ?k = "\<lparr>handles = {7}, next_handle = 8, outcomes = [(None, 0), (None, 0), (None, 0), (Some (Winerr ''no event''), 0)]\<rparr>"
  obtain r k' where o: "tap_open_windows ''WSN-a'' (Inr ''g'') ?k = (r, k')" by fastforce
  have "\<exists>e. r = Inl e"
    using o by (auto simp: tap_open_windows_def kcall_def kcreate_def operation_init_def winerror_def)
  with tap_open_no_leak [OF _ o] show ?thesis using o by (auto simp: kernel_ok_def)
qed

end
