(* ===== verification/Tap_Shutdown.thy ===== *)
theory Tap_Shutdown
  imports Tap
begin

text \<open>
  \<^verbatim>\<open>tap_windows.go\<close> again, now with its three goroutines: the pump that reads, the pump that writes, and whoever
  closes the device.  A state holds where each of them is; a step is one of them going on, or the
  driver completing a request.  The mutexes are those of the code: \<open>readMu\<close> is held by the reading pump from
  \<open>Enter\<close> on and by \<^verbatim>\<open>Close\<close> from \<open>Take Reading\<close> on.
\<close>

section \<open>States and steps\<close>

datatype direction = Reading | Writing

text \<open>
  A pump is outside \<^verbatim>\<open>Read\<close> or \<^verbatim>\<open>Write\<close>; or it holds its mutex and has yet to reset the event, has yet to start the
  request, waits for the pending request, or has had it aborted by \<^verbatim>\<open>CancelIoEx\<close>.
\<close>

datatype pump = Outside | Entered | Armed | InFlight | Aborted

text \<open>\<^verbatim>\<open>Close\<close>, by the next thing it does.\<close>

datatype closer = NotClosing | Cancelling | WaitRead | WaitWrite | Destroying | Closed

record device =
  pump_of :: "direction \<Rightarrow> pump"
  closing :: closer

definition device_start :: device where
  "device_start = \<lparr>pump_of = (\<lambda>_. Outside), closing = NotClosing\<rparr>"

text \<open>Whether \<^verbatim>\<open>Close\<close> holds the mutex of a direction.  It keeps both until the handles are closed.\<close>

fun close_holds :: "closer \<Rightarrow> direction \<Rightarrow> bool" where
  "close_holds WaitWrite Reading = True"
| "close_holds Destroying _ = True"
| "close_holds _ _ = False"

fun cancelled :: "pump \<Rightarrow> pump" where
  "cancelled InFlight = Aborted"
| "cancelled p = p"

datatype act =
    Enter direction    \<comment> \<open>take the mutex\<close>
  | Reset direction    \<comment> \<open>\<^verbatim>\<open>ResetEvent\<close> of an open event\<close>
  | Refuse direction   \<comment> \<open>\<^verbatim>\<open>ResetEvent\<close> of the zero handle fails and the mutex is released\<close>
  | Fail direction     \<comment> \<open>\<^verbatim>\<open>ResetEvent\<close> of an open event fails and the mutex is released\<close>
  | Start direction    \<comment> \<open>\<^verbatim>\<open>ReadFile\<close> or \<^verbatim>\<open>WriteFile\<close> reports \<^verbatim>\<open>ERROR_IO_PENDING\<close>\<close>
  | Complete direction \<comment> \<open>the driver completes the request, at once or later\<close>
  | Abort direction    \<comment> \<open>the wait for an aborted request returns\<close>
  | Begin | Cancel | Take direction | Destroy

inductive dstep :: "device \<Rightarrow> act \<Rightarrow> device \<Rightarrow> bool" where
  Enter: "pump_of s d = Outside \<Longrightarrow> \<not> close_holds (closing s) d \<Longrightarrow> dstep s (Enter d) (s\<lparr>pump_of := (pump_of s)(d := Entered)\<rparr>)"
| Reset: "pump_of s d = Entered \<Longrightarrow> closing s \<noteq> Closed \<Longrightarrow> dstep s (Reset d) (s\<lparr>pump_of := (pump_of s)(d := Armed)\<rparr>)"
| Refuse: "pump_of s d = Entered \<Longrightarrow> closing s = Closed \<Longrightarrow> dstep s (Refuse d) (s\<lparr>pump_of := (pump_of s)(d := Outside)\<rparr>)"
| Fail: "pump_of s d = Entered \<Longrightarrow> closing s \<noteq> Closed \<Longrightarrow> dstep s (Fail d) (s\<lparr>pump_of := (pump_of s)(d := Outside)\<rparr>)"
| Start: "pump_of s d = Armed \<Longrightarrow> dstep s (Start d) (s\<lparr>pump_of := (pump_of s)(d := InFlight)\<rparr>)"
| Complete: "pump_of s d = Armed \<or> pump_of s d = InFlight \<Longrightarrow> dstep s (Complete d) (s\<lparr>pump_of := (pump_of s)(d := Outside)\<rparr>)"
| Abort: "pump_of s d = Aborted \<Longrightarrow> dstep s (Abort d) (s\<lparr>pump_of := (pump_of s)(d := Outside)\<rparr>)"
| Begin: "closing s = NotClosing \<Longrightarrow> dstep s Begin (s\<lparr>closing := Cancelling\<rparr>)"
| Cancel: "closing s = Cancelling \<Longrightarrow>
    dstep s Cancel (s\<lparr>pump_of := cancelled \<circ> pump_of s, closing := WaitRead\<rparr>)"
| TakeRead: "closing s = WaitRead \<Longrightarrow> pump_of s Reading = Outside \<Longrightarrow> dstep s (Take Reading) (s\<lparr>closing := WaitWrite\<rparr>)"
| TakeWrite: "closing s = WaitWrite \<Longrightarrow> pump_of s Writing = Outside \<Longrightarrow> dstep s (Take Writing) (s\<lparr>closing := Destroying\<rparr>)"
| Destroy: "closing s = Destroying \<Longrightarrow> dstep s Destroy (s\<lparr>closing := Closed\<rparr>)"

inductive_cases dstep_elims:
  "dstep s (Enter d) t" "dstep s (Reset d) t" "dstep s (Refuse d) t" "dstep s (Fail d) t" "dstep s (Start d) t" "dstep s (Complete d) t"
  "dstep s (Abort d) t" "dstep s Begin t" "dstep s Cancel t" "dstep s (Take d) t" "dstep s Destroy t"

abbreviation tap_reachable :: "device \<Rightarrow> bool" where
  "tap_reachable \<equiv> reach (\<lambda>s. s = device_start) (\<lambda>s t. \<exists>a. dstep s a t)"

text \<open>The system does nothing of its own: on an idle machine no frame ever completes a read, and no call on an open event fails.\<close>

definition silent :: "act \<Rightarrow> bool" where
  "silent a \<longleftrightarrow> (\<forall>d. a \<noteq> Complete d \<and> a \<noteq> Fail d)"

lemma silent_simps [simp]:
  "silent (Enter d)" "silent (Reset d)" "silent (Refuse d)" "silent (Start d)" "\<not> silent (Complete d)" "\<not> silent (Fail d)" "silent (Abort d)"
  "silent Begin" "silent Cancel" "silent (Take d)" "silent Destroy"
  by (auto simp: silent_def)

lemmas tap_run_first = run_first [where step = dstep]
lemmas tap_run_step = run_step [where step = dstep]

section \<open>Nothing is used after it is closed\<close>

text \<open>
  \<^verbatim>\<open>Close\<close> holds a mutex only while the pump of that direction is outside; a request is running only while the
  handles are open; and a request is aborted only by the cancellation.
\<close>

definition device_inv :: "device \<Rightarrow> bool" where
  "device_inv s \<longleftrightarrow>
     (\<forall>d. (close_holds (closing s) d \<longrightarrow> pump_of s d = Outside)
        \<and> (pump_of s d \<in> {Armed, InFlight, Aborted} \<longrightarrow> closing s \<noteq> Closed)
        \<and> (pump_of s d = Aborted \<longrightarrow> closing s \<notin> {NotClosing, Cancelling}))"

lemma cancelled_cases: "cancelled p = (if p = InFlight then Aborted else p)"
  by (cases p) auto

lemma close_holds_cases: "close_holds c d \<longleftrightarrow> c = Destroying \<or> c = WaitWrite \<and> d = Reading"
  by (cases c; cases d) auto

lemma device_inv_start: "device_inv device_start"
  by (simp add: device_inv_def device_start_def)

lemma device_inv_step: "dstep s a t \<Longrightarrow> device_inv s \<Longrightarrow> device_inv t"
proof (induction rule: dstep.induct)
  case (TakeWrite s)
  then have "pump_of s d = Outside" for d by (cases d) (auto simp: device_inv_def close_holds_cases)
  then show ?case by (simp add: device_inv_def)
qed (auto simp: device_inv_def close_holds_cases cancelled_cases split: if_splits)

interpretation tap: invariant_of "\<lambda>s. s = device_start" "\<lambda>s t. \<exists>a. dstep s a t" device_inv
  by standard (auto intro: device_inv_start device_inv_step)

text \<open>
  C17. The handles outlive every request.  In whatever order the two pumps and \<^verbatim>\<open>Close\<close> take their turns, a request is
  only started, waited for or completed while the handles are open, and when \<^verbatim>\<open>Close\<close> destroys them both pumps
  are outside; a pump that comes later is refused before it touches a handle.
\<close>

theorem handles_outlive_requests:
  assumes "tap_reachable s" and "dstep s a t"
  shows "(a \<in> {Reset d, Start d, Complete d, Abort d} \<longrightarrow> closing s \<noteq> Closed)
    \<and> (a = Destroy \<longrightarrow> (\<forall>d. pump_of s d = Outside))
    \<and> (closing s = Closed \<longrightarrow> a \<in> {Enter Reading, Enter Writing, Refuse Reading, Refuse Writing})"
proof -
  have inv: "device_inv s" by (rule tap.inv_reach [OF assms(1)])
  then have facts: "closing s = Destroying \<longrightarrow> (\<forall>d. pump_of s d = Outside)"
    "closing s = Closed \<longrightarrow> (\<forall>d. pump_of s d \<notin> {Armed, InFlight, Aborted})"
    by (auto simp: device_inv_def)
  have two: "d = Reading \<or> d = Writing" for d by (cases d) auto
  from assms(2) show ?thesis
    by cases (use facts two in auto)
qed

section \<open>When closing returns\<close>

text \<open>
  While a pump that holds its mutex has no aborted request, only the driver lets it go, and \<^verbatim>\<open>Close\<close> waits for it.
\<close>

definition stuck :: "direction \<Rightarrow> device \<Rightarrow> bool" where
  "stuck d s \<longleftrightarrow> closing s \<in> {WaitRead, WaitWrite} \<and> pump_of s d \<in> {Entered, Armed, InFlight} \<and> \<not> close_holds (closing s) d"

lemma stuck_step: "dstep s a t \<Longrightarrow> silent a \<Longrightarrow> stuck d s \<Longrightarrow> stuck d t"
  by (induction rule: dstep.induct; cases d) (auto simp: stuck_def close_holds_cases cancelled_cases split: if_splits)

lemma stuck_run: "run_of dstep silent s t \<Longrightarrow> stuck d s \<Longrightarrow> stuck d t"
  by (erule run_keeps) (auto intro: stuck_step)

text \<open>Otherwise the aborted requests return, and \<^verbatim>\<open>Close\<close> takes the mutexes one after the other.\<close>

lemma let_go:
  assumes "pump_of s d \<in> {Outside, Aborted}"
  obtains s' where "run_of dstep silent s s'" "closing s' = closing s" "pump_of s' = (pump_of s)(d := Outside)"
proof (cases "pump_of s d = Aborted")
  case True
  have "run_of dstep silent s (s\<lparr>pump_of := (pump_of s)(d := Outside)\<rparr>)"
    by (rule tap_run_first [OF dstep.Abort]) (auto simp: True intro: run_refl)
  then show thesis by (rule that) auto
next
  case False
  then have "pump_of s d = Outside" using assms by simp
  then show thesis by (intro that [of s]) (auto intro: run_refl simp: fun_upd_idem)
qed

lemma finish_writing:
  assumes "closing s = WaitWrite" and "pump_of s Writing \<in> {Outside, Aborted}"
  shows "\<exists>t. run_of dstep silent s t \<and> closing t = Closed"
proof -
  obtain s' where s': "run_of dstep silent s s'" "closing s' = WaitWrite" "pump_of s' Writing = Outside"
    using let_go [OF assms(2)] assms(1) by (metis fun_upd_same)
  have "run_of dstep silent s' (s'\<lparr>closing := Destroying\<rparr>\<lparr>closing := Closed\<rparr>)"
    by (rule tap_run_first [OF dstep.TakeWrite [of s']], simp_all add: s', rule tap_run_first [OF dstep.Destroy], simp_all add: run_refl)
  with s'(1) show ?thesis by (intro exI [of _ "s'\<lparr>closing := Destroying\<rparr>\<lparr>closing := Closed\<rparr>"]) (auto intro: run_trans)
qed

lemma finish_closing:
  assumes "device_inv s" and "closing s \<notin> {NotClosing, Cancelling}" and "\<forall>d. pump_of s d \<in> {Outside, Aborted}"
  shows "\<exists>t. run_of dstep silent s t \<and> closing t = Closed"
proof (cases "closing s")
  case WaitRead
  obtain s' where s': "run_of dstep silent s s'" "closing s' = WaitRead" "pump_of s' = (pump_of s)(Reading := Outside)"
    using let_go assms(3) WaitRead by metis
  have "run_of dstep silent s (s'\<lparr>closing := WaitWrite\<rparr>)"
    by (rule tap_run_step [OF s'(1) _ dstep.TakeRead]) (simp_all add: s')
  moreover have "\<exists>t. run_of dstep silent (s'\<lparr>closing := WaitWrite\<rparr>) t \<and> closing t = Closed"
    using assms(3) s'(3) by (intro finish_writing) simp_all
  ultimately show ?thesis by (blast intro: run_trans)
next
  case WaitWrite
  then show ?thesis using assms(3) by (blast intro: finish_writing)
next
  case Destroying
  then have "run_of dstep silent s (s\<lparr>closing := Closed\<rparr>)" by (rule tap_run_first [OF dstep.Destroy]) (auto intro: run_refl)
  then show ?thesis by (intro exI [of _ "s\<lparr>closing := Closed\<rparr>"]) simp
next
  case Closed
  then show ?thesis by (blast intro: run_refl)
qed (use assms(2) in auto)

text \<open>
  C16. When \<^verbatim>\<open>Close\<close> returns.  Once the outstanding requests are cancelled, \<^verbatim>\<open>Close\<close> can return without any help of the
  driver, and without a failing call on an open event, if and only if no pump is between taking its mutex and the end of a request that was not aborted.
\<close>

theorem close_returns_iff:
  assumes "tap_reachable s" and "closing s \<in> {WaitRead, WaitWrite, Destroying}"
  shows "(\<exists>t. run_of dstep silent s t \<and> closing t = Closed) \<longleftrightarrow> (\<forall>d. pump_of s d \<in> {Outside, Aborted})"
proof
  have inv: "device_inv s" by (rule tap.inv_reach [OF assms(1)])
  show "\<exists>t. run_of dstep silent s t \<and> closing t = Closed" if "\<forall>d. pump_of s d \<in> {Outside, Aborted}"
    by (rule finish_closing [OF inv _ that]) (use assms(2) in auto)
  show "\<forall>d. pump_of s d \<in> {Outside, Aborted}" if ex: "\<exists>t. run_of dstep silent s t \<and> closing t = Closed"
  proof (rule ccontr)
    assume "\<not> ?thesis"
    then obtain d where d: "pump_of s d \<in> {Entered, Armed, InFlight}" by (metis insert_iff pump.exhaust)
    then have "\<not> close_holds (closing s) d" using inv by (auto simp: device_inv_def)
    then have "stuck d s" using d assms(2) by (auto simp: stuck_def close_holds_cases)
    then have "closing t \<noteq> Closed" if "run_of dstep silent s t" for t using stuck_run [OF that, of d] by (auto simp: stuck_def)
    with ex show False by blast
  qed
qed

text \<open>
  The cancellation reaches only requests that are already in flight.  When the reading pump is on its way to the driver at
  that moment, the read it starts is not aborted, and on an idle machine \<^verbatim>\<open>Close\<close> never returns.
\<close>

definition overtaken :: device where
  "overtaken = \<lparr>pump_of = (\<lambda>_. Outside)(Reading := InFlight), closing = WaitRead\<rparr>"

lemma tap_reach_step: "tap_reachable s \<Longrightarrow> dstep s a t \<Longrightarrow> tap_reachable t"
  by (rule reach_step) auto

lemma overtaken_reachable: "tap_reachable overtaken"
proof -
  let ?p = "(\<lambda>_. Outside)(Reading := Armed)"
  have "tap_reachable device_start" by (rule reach_init) simp
  then have "tap_reachable \<lparr>pump_of = (\<lambda>_. Outside)(Reading := Entered), closing = NotClosing\<rparr>"
    using tap_reach_step [OF _ dstep.Enter [of _ Reading]] by (fastforce simp: device_start_def)
  from tap_reach_step [OF this dstep.Reset [of _ Reading]]
  have "tap_reachable \<lparr>pump_of = ?p, closing = NotClosing\<rparr>" by simp
  from tap_reach_step [OF this dstep.Begin]
  have "tap_reachable \<lparr>pump_of = ?p, closing = Cancelling\<rparr>" by simp
  from tap_reach_step [OF this dstep.Cancel]
  have "tap_reachable \<lparr>pump_of = ?p, closing = WaitRead\<rparr>" by (simp add: fun_upd_comp) (simp add: comp_def)
  from tap_reach_step [OF this dstep.Start [of _ Reading]]
  show ?thesis by (simp add: overtaken_def)
qed

theorem close_returns_iff_witness: "tap_reachable overtaken \<and> \<not> (\<exists>t. run_of dstep silent overtaken t \<and> closing t = Closed)"
  using overtaken_reachable close_returns_iff [OF overtaken_reachable] by (auto simp: overtaken_def)

theorem handles_outlive_requests_witness:
  "\<exists>t. dstep overtaken (Complete Reading) t \<and> closing overtaken \<noteq> Closed"
proof -
  have "\<exists>t. dstep overtaken (Complete Reading) t" by (rule exI, rule dstep.Complete) (simp add: overtaken_def)
  then show ?thesis using handles_outlive_requests [OF overtaken_reachable, of "Complete Reading" _ Reading] by blast
qed

end
