(* ===== verification/Spec2Isabelle.thy ===== *)
theory Spec2Isabelle
  imports Server_Process Programs Client_Session Relay_Switch Deployment Admin Daemon Tap_Shutdown Crypto_Vectors
begin

text \<open>
  Verification of WSN v2, a virtual Ethernet network over WebSockets.

  \<^bold>\<open>The program.\<close>  A relay (\<^verbatim>\<open>cmd/wsn-server\<close>, \<^verbatim>\<open>internal/relay\<close>) accepts WebSocket connections, authenticates each by a challenge
  and an HMAC (\<^verbatim>\<open>internal/protocol\<close>) against the identities of its configuration (\<^verbatim>\<open>internal/config\<close>), and forwards Ethernet
  frames between them.  A client (\<^verbatim>\<open>cmd/wsn-client\<close>, \<^verbatim>\<open>internal/client\<close>) attaches a TAP device (\<^verbatim>\<open>internal/tap\<close>), connects,
  pumps frames in both directions and reconnects; on Windows it is a service with a log file of its own
  (\<^verbatim>\<open>internal/daemon\<close>), and before it is installed its networks are checked against the routes of the host
  (\<^verbatim>\<open>internal/netcheck\<close>).  An administrator creates the deployment, adds and revokes clients and builds the bundles that carry
  their configurations (\<^verbatim>\<open>cmd/wsnctl\<close>, \<^verbatim>\<open>internal/provision\<close>), and deploys \<^verbatim>\<open>server.json\<close> to the relay, which reads it again
  on SIGHUP.

  \<^bold>\<open>Foundations.\<close>
  \<^item> \<open>Prelude\<close>: byte slices, strings, errors as values (\<open>'a res\<close>), reachable states, runs with labels, and the locales \<open>codec\<close> (a text
    form that can be read back) and \<open>invariant_of\<close> (an inductive invariant of a step relation).
  \<^item> \<open>Go_Strings\<close>, \<open>Netip\<close>, \<open>Crypto\<close>, \<open>Crypto_Vectors\<close>, \<open>Flags\<close>: what the program uses of the standard library, executable: \<^verbatim>\<open>strings\<close>,
    base64, \<^verbatim>\<open>net.ParseMAC\<close>, IPv4 addresses and prefixes as sets of addresses (locale \<open>overlap_test\<close>), SHA-256 and HMAC with a
    test vector, and \<^verbatim>\<open>flag\<close>.
  \<^item> \<open>Websocket\<close>: a connection as the results its calls return.
  \<^item> \<open>Files\<close>: a file system in which every call can fail.  Every intermediate state is recorded, with the files whose contents
    have not been flushed; from that follows what a machine that stops can leave (\<open>crash_image\<close>): contents that were not flushed
    can be anything, and every name can be back at any file it stood for.  Rules for what an operation
    does (\<open>triple\<close>) and flushes (\<open>avoids\<close>), and the locale \<open>guarded_dir\<close> of directories whose files are replaced only by
    complete ones.

  \<^bold>\<open>Components.\<close>
  \<^item> \<open>Config\<close> (\<^verbatim>\<open>config.go\<close>): \<open>checkRelay\<close> and \<open>checkClient\<close> are the validation of \<^verbatim>\<open>LoadRelay\<close> and \<^verbatim>\<open>LoadClient\<close>.  What loads is within all
    bounds, consistent, and a fixed point of loading.  \<^verbatim>\<open>SaveJSON\<close> and the loaders themselves are in \<open>Files\<close>.
  \<^item> \<open>Protocol\<close> (\<^verbatim>\<open>protocol.go\<close>): the hello message as a code with an exact language, the proof as an HMAC of an injective message,
    and the header fields of frames.
  \<^item> \<open>Relay_Auth\<close>, \<open>Relay_Hub\<close>, \<open>Relay_Server\<close> (\<^verbatim>\<open>relay.go\<close>): the table of clients and the handshake; the hub with its two tables, the
    peers in a store, bounded queues (locale \<open>bounded_queue\<close>), drop accounting and the loops of a session; and the
    handlers, reloads and sessions interleaved (\<open>relay_step\<close>, one step for each critical section; the sends of a forward, which
    follow its lookup outside the lock and only touch the queues and drop counters of their targets, are taken together with
    it), with an invariant that gives exact handshake slots, freedom from panics and the absence of revoked sessions.
  \<^item> \<open>Relay_Switch\<close>: the hub refines an abstract Ethernet switch whose ports are owned by identities and addresses.
  \<^item> \<open>Server_Process\<close> (\<^verbatim>\<open>wsn-server/main.go\<close> and \<^verbatim>\<open>ListenAndServe\<close>): the goroutine that reloads, the serving loop and the relay as one
    process; a SIGHUP is never lost and a revocation takes effect.
  \<^item> \<open>Client_Runner\<close>, \<open>Client_Session\<close> (\<^verbatim>\<open>client.go\<close>): construction, handshake, both pumps, reconnecting; and the end of a session with
    its three goroutines, which the program brings about by itself (\<open>own_step\<close>) once there is a reason.  Each handshake is
    proved against the other side, for every challenge.
  \<^item> \<open>Provision\<close>, \<open>Deploy\<close>, \<open>Bundle\<close>, \<open>Enrollment\<close>, \<open>Environment\<close> (\<^verbatim>\<open>provision.go\<close>): what the commands compute; what they do to the
    deployment directory, whatever fails; the bundles and archives; enrolment with its roll back; and the environment
    files that root's shell reads back.  \<open>Deployment\<close>: all eight commands one after the other, with failures and crashes.
  \<^item> \<open>Admin\<close>, \<open>Programs\<close> (\<^verbatim>\<open>cmd/\<close>): command lines, exit status and output.
  \<^item> \<open>Netcheck\<close> (\<^verbatim>\<open>netcheck_linux.go\<close>): parsing of the routing table and both checks, exactly.
  \<^item> \<open>Tap\<close>, \<open>Tap_Shutdown\<close> (\<^verbatim>\<open>tap_linux.go\<close>, \<^verbatim>\<open>tap_windows.go\<close>): attaching a device, finding the adapter, the life of the
    handles, and the protocol of the two pumps and \<^verbatim>\<open>Close\<close>.
  \<^item> \<open>Daemon\<close> (\<^verbatim>\<open>daemon_windows.go\<close>): the rotating log and the service handler.
  \<^item> \<open>End_To_End\<close>: what provisioning renders is loaded by relay and client, which then complete the handshake; and a frame
    crosses from one device to another.

  \<^bold>\<open>Conventions.\<close>  A struct is a record, an error an \<open>Inl\<close>, a panic a \<open>None\<close> or a \<open>Panic\<close>.  Code that touches the file system is a function
  \<open>'a io\<close> from a world to a result and a world.  A list of outcomes in a state (\<open>faults\<close>, \<open>outcomes\<close>, \<open>calls\<close>) says which of the following
  calls fail; theorems quantify over all such lists, and an exhausted list stands for calls that succeed, which is used
  only where a theorem says that something works when nothing fails.  There is no fuel: loops over input are recursive in
  the input, the others have a measure (\<open>writeFull\<close>, trimming, \<open>Fields\<close>), and concurrent code is a step relation whose
  theorems hold in every reachable state.  Integers are unbounded where the checks bound them, and words where they
  wrap (the drop counter, table keys, hashes).  Times are arguments.

  \<^bold>\<open>Parameters.\<close>  Code outside the repository and the operating system are arguments: the WebSocket library (results of reads and
  writes), \<^verbatim>\<open>crypto/x509\<close> (\<open>x509\<close>), random bytes, clocks, the embedded assets and the bytes of a file (\<open>platform\<close>), the routing
  table, the system calls on devices and handles, the service manager and the signals.

  \<^bold>\<open>Not modelled.\<close>  The bytes of JSON, PEM and archives: a document in a file is its value, an archive the list of its entries.
  Log lines, except that a dropped frame is or is not reported.  The HTTP server, TLS and the upgrade, with their timeouts; a
  deadline is a field of the connection and its expiry a failed read or write.  \<^verbatim>\<open>daemon_unix.go\<close>, which only passes a context on.
  IPv6 text, which every check refuses; \<^verbatim>\<open>RotateCertificate\<close> parses the address of the stored state without such a check, and is
  modelled for the IPv4 addresses that \<^verbatim>\<open>Init\<close> stores.  A SIGHUP before the relay has asked for it.  The shell and PowerShell scripts of the repository are outside, apart from the
  quotation that \<^verbatim>\<open>sh\<close> undoes in the environment files.
\<close>

end
